(* ===== verification/Prelude.thy ===== *)
theory Prelude
  imports Main "HOL-Library.Word" "HOL-Library.AList" "HOL-Library.List_Lexorder"
    "HOL-Library.Char_ord" "HOL-Library.Product_Lexorder" "HOL-Library.Multiset"
begin

unbundle bit_operations_syntax

text \<open>
  Shared ground of the development.

  \<^item> Machine integers: \<open>u8\<close>, \<open>u16\<close>, \<open>u32\<close> are words and wrap; \<open>usize\<close> values (lengths,
    offsets) are \<open>nat\<close>; \<open>i64\<close> seconds are \<open>int\<close>.
  \<^item> \<open>res\<close> is the outcome of a Rust call: a value, a returned error, or a panic.  Slicing and
    indexing are written so that a bad bound is \<open>Panic\<close>, and "this function never panics" is a
    theorem about the model instead of an assumption of it.
  \<^item> \<open>slice\<close> is a fat pointer: the address of its first byte and the bytes, so that
    pointer subtraction between sub-slices of one frame means what it means in the code.
  \<^item> \<open>safe\<close> is the specification predicate for \<open>res\<close>: no panic, and every value satisfies the
    postcondition.  Its rules are collected in \<open>safe_rules\<close>.
  \<^item> Hash maps are association lists with distinct keys (\<open>HOL-Library.AList\<close>), B-tree maps and
    sets are key-sorted lists; \<open>kv_store\<close> is the interface both satisfy.
  \<^item> \<open>sort_by\<close> is the stable sort of the standard library, correct for every total preorder.
\<close>

named_theorems no_err_rules \<open>functions without a Result never give an Err\<close>
named_theorems safe_rules \<open>introduction rules for the predicate safe\<close>
named_theorems safe_steps \<open>one step of a straight-line decoder, for intro\<close>

section \<open>Machine integers and bytes\<close>

type_synonym u8 = "8 word"
type_synonym u16 = "16 word"
type_synonym u32 = "32 word"
type_synonym bytes = "8 word list"

definition be16 :: "u8 \<Rightarrow> u8 \<Rightarrow> u16" where
  "be16 a b = push_bit 8 (ucast a) OR ucast b"

definition be32 :: "u8 \<Rightarrow> u8 \<Rightarrow> u8 \<Rightarrow> u8 \<Rightarrow> u32" where
  "be32 a b c d =
     push_bit 24 (ucast a) OR push_bit 16 (ucast b) OR push_bit 8 (ucast c) OR ucast d"

text \<open>The arithmetic reading of the big-endian constructors.\<close>

lemma unat_ucast_u8_u16 [simp]: "unat (ucast (a :: u8) :: u16) = unat a"
  by (simp add: unsigned_ucast_eq take_bit_nat_eq_self_iff less_trans [OF unsigned_less])

lemma unat_ucast_u8_u32 [simp]: "unat (ucast (a :: u8) :: u32) = unat a"
  by (simp add: unsigned_ucast_eq take_bit_nat_eq_self_iff less_trans [OF unsigned_less])

lemma unat_u8_less: "unat (a :: u8) < 256"
  using unsigned_less [of a, where ?'a = nat] by simp

lemma unat_u16_less: "unat (a :: u16) < 65536"
  using unsigned_less [of a, where ?'a = nat] by simp

lemma unat_u32_less: "unat (a :: u32) < 4294967296"
  using unsigned_less [of a, where ?'a = nat] by simp

text \<open>The wire form of a word, most significant byte first.\<close>

definition wire16 :: "u16 \<Rightarrow> bytes" where
  "wire16 w = [ucast (drop_bit 8 w), ucast w]"

definition wire32 :: "u32 \<Rightarrow> bytes" where
  "wire32 w = [ucast (drop_bit 24 w), ucast (drop_bit 16 w), ucast (drop_bit 8 w), ucast w]"

lemma length_wire [simp]: "length (wire16 w) = 2" "length (wire32 v) = 4"
  by (simp_all add: wire16_def wire32_def)

lemma be16_wire [simp]: "be16 (ucast (drop_bit 8 w)) (ucast w) = w"
  by (rule bit_word_eqI) (auto simp: be16_def bit_simps)

lemma be32_wire [simp]:
  "be32 (ucast (drop_bit 24 w)) (ucast (drop_bit 16 w)) (ucast (drop_bit 8 w)) (ucast w) = w"
proof (rule bit_word_eqI)
  fix n assume "n < LENGTH(32)"
  then have "n < 8 \<or> n = 8 + (n - 8) \<and> n < 16 \<or> n = 16 + (n - 16) \<and> \<not> n < 16 \<and> n < 24 \<or>
      n = 24 + (n - 24) \<and> \<not> n < 24" by auto
  then show "bit (be32 (ucast (drop_bit 24 w)) (ucast (drop_bit 16 w)) (ucast (drop_bit 8 w)) (ucast w)) n =
      bit w n"
    using \<open>n < LENGTH(32)\<close> by (elim disjE) (auto simp: be32_def bit_simps)
qed

text \<open>Masks and disjoint disjunctions.\<close>

lemma take_bit_word_self: "unat (w :: 'a::len word) < 2 ^ n \<Longrightarrow> take_bit n w = w"
  by (rule word_unat_eq_iff [THEN iffD2]) (simp add: unsigned_take_bit_eq take_bit_nat_eq_self)

lemma word_and_mask_self: "unat (w :: 'a::len word) < 2 ^ n \<Longrightarrow> w AND mask n = w"
  using take_bit_word_self [of w n] by (simp add: take_bit_eq_mask)

lemma push_bit_or_nat: "b < 2 ^ n \<Longrightarrow> push_bit n a OR b = a * 2 ^ n + (b :: nat)"
proof -
  assume "b < 2 ^ n"
  then have "take_bit n b = b" by (simp add: take_bit_nat_eq_self)
  then have "\<not> bit (push_bit n a) m \<or> \<not> bit b m" for m
    by (metis bit_push_bit_iff bit_take_bit_iff not_less)
  then show ?thesis by (simp add: push_bit_eq_mult flip: disjunctive_add)
qed

section \<open>Outcomes of Rust calls\<close>

datatype ('a, 'e) res = Ok 'a | Err 'e | Panic

text \<open>The \<open>?\<close> operator and sequencing.\<close>

fun and_then :: "('a, 'e) res \<Rightarrow> ('a \<Rightarrow> ('b, 'e) res) \<Rightarrow> ('b, 'e) res" where
  "and_then (Ok x) k = k x"
| "and_then (Err e) k = Err e"
| "and_then Panic k = Panic"

text \<open>\<open>Result::ok\<close>: an error becomes \<open>None\<close>, a panic stays one.\<close>

fun res_ok :: "('a, 'e) res \<Rightarrow> ('a option, 'f) res" where
  "res_ok (Ok x) = Ok (Some x)"
| "res_ok (Err e) = Ok None"
| "res_ok Panic = Panic"

text \<open>\<open>match r { Ok(x) => \<dots>, Err(e) => \<dots> }\<close>\<close>

fun match_res :: "('a, 'e) res \<Rightarrow> ('a \<Rightarrow> ('b, 'f) res) \<Rightarrow> ('e \<Rightarrow> ('b, 'f) res) \<Rightarrow> ('b, 'f) res" where
  "match_res (Ok x) f g = f x"
| "match_res (Err e) f g = g e"
| "match_res Panic f g = Panic"

definition is_panic :: "('a, 'e) res \<Rightarrow> bool" where
  "is_panic m \<longleftrightarrow> (case m of Panic \<Rightarrow> True | _ \<Rightarrow> False)"

lemma is_panic_simps [simp]:
  "\<not> is_panic (Ok x)" "\<not> is_panic (Err e)" "is_panic Panic"
  by (simp_all add: is_panic_def)

definition safe :: "('a \<Rightarrow> bool) \<Rightarrow> ('a, 'e) res \<Rightarrow> bool" where
  "safe P m \<longleftrightarrow> (case m of Ok x \<Rightarrow> P x | Err _ \<Rightarrow> True | Panic \<Rightarrow> False)"

lemma safe_simps [simp]:
  "safe P (Ok x) \<longleftrightarrow> P x" "safe P (Err e)" "\<not> safe P Panic"
  by (simp_all add: safe_def)

lemma safe_and_then [safe_rules]:
  assumes "safe P m" and "\<And>x. P x \<Longrightarrow> safe Q (k x)"
  shows "safe Q (and_then m k)"
  using assms by (cases m) auto

lemma safe_if [safe_rules]:
  assumes "c \<Longrightarrow> safe P m" and "\<not> c \<Longrightarrow> safe P n"
  shows "safe P (if c then m else n)"
  using assms by auto

lemma safe_Err [safe_rules]: "safe P (Err e)"
  by simp

lemma safe_if_step [safe_steps]: "safe P m \<Longrightarrow> safe P n \<Longrightarrow> safe P (if c then m else n)"
  by simp

lemma safe_let_step [safe_steps]: "(\<And>x. safe P (k x)) \<Longrightarrow> safe P (Let t k)"
  by (simp add: Let_def)

lemma safe_Ok_step [safe_steps]: "P x \<Longrightarrow> safe P (Ok x)"
  by simp

lemma safe_and_then_pair:
  "safe P m \<Longrightarrow> (\<And>a b. P (a, b) \<Longrightarrow> safe Q (k a b)) \<Longrightarrow> safe Q (and_then m (\<lambda>(a, b). k a b))"
  by (cases m) auto

lemmas safe_err_step [safe_steps] = safe_Err

lemma safe_match_res:
  assumes "safe P m" and "\<And>x. m = Ok x \<Longrightarrow> P x \<Longrightarrow> safe Q (f x)" and "\<And>e. safe Q (g e)"
  shows "safe Q (match_res m f g)"
  using assms by (cases m) auto

lemma safe_case_option:
  assumes "safe P a" and "\<And>y. x = Some y \<Longrightarrow> safe P (f y)"
  shows "safe P (case x of None \<Rightarrow> a | Some y \<Rightarrow> f y)"
  using assms by (cases x) auto

lemma safe_mono: "safe P m \<Longrightarrow> (\<And>x. P x \<Longrightarrow> Q x) \<Longrightarrow> safe Q m"
  by (cases m) auto

lemma safe_conj: "safe P m \<Longrightarrow> safe Q m \<Longrightarrow> safe (\<lambda>x. P x \<and> Q x) m"
  by (cases m) auto

lemma safe_no_panic: "safe P m \<Longrightarrow> \<not> is_panic m"
  by (cases m) auto

lemma safe_not_Panic: "safe P m \<Longrightarrow> m \<noteq> Panic"
  by (cases m) auto

text \<open>
  \<open>safe\<close> lets an \<open>Err\<close> pass: it is the contract of a Rust function that returns a \<open>Result\<close>.  A
  function without one always comes back with a value: \<open>returns\<close>.
\<close>

definition returns :: "('a \<Rightarrow> bool) \<Rightarrow> ('a, 'e) res \<Rightarrow> bool" where
  "returns P m \<longleftrightarrow> (case m of Ok x \<Rightarrow> P x | _ \<Rightarrow> False)"

definition no_err :: "('a, 'e) res \<Rightarrow> bool" where
  "no_err m \<longleftrightarrow> (case m of Err _ \<Rightarrow> False | _ \<Rightarrow> True)"

lemma returns_simps [simp]:
  "returns P (Ok x) \<longleftrightarrow> P x" "\<not> returns P (Err e)" "\<not> returns P Panic"
  by (simp_all add: returns_def)

lemma no_err_simps [simp]: "no_err (Ok x)" "\<not> no_err (Err e)" "no_err Panic"
  by (simp_all add: no_err_def)

lemma returnsI: "safe P m \<Longrightarrow> no_err m \<Longrightarrow> returns P m"
  by (cases m) auto

lemma returns_safe: "returns P m \<Longrightarrow> safe P m"
  by (cases m) auto

lemma returns_no_err: "returns P m \<Longrightarrow> no_err m"
  by (cases m) auto

lemma returns_mono: "returns P m \<Longrightarrow> (\<And>x. P x \<Longrightarrow> Q x) \<Longrightarrow> returns Q m"
  by (cases m) auto

lemma returns_and_then:
  assumes "returns P m" and "\<And>x. P x \<Longrightarrow> returns Q (k x)"
  shows "returns Q (and_then m k)"
  using assms by (cases m) auto

lemma no_err_and_then [no_err_rules]: "no_err m \<Longrightarrow> (\<And>x. no_err (k x)) \<Longrightarrow> no_err (and_then m k)"
  by (cases m) auto

lemma no_err_match_res [no_err_rules]:
  "(\<And>x. no_err (f x)) \<Longrightarrow> (\<And>e. no_err (g e)) \<Longrightarrow> no_err (match_res m f g)"
  by (cases m) auto

lemma no_err_branches [no_err_rules]:
  "no_err m \<Longrightarrow> no_err n \<Longrightarrow> no_err (if c then m else n)"
  "no_err a \<Longrightarrow> (\<And>y. no_err (f y)) \<Longrightarrow> no_err (case x of None \<Rightarrow> a | Some y \<Rightarrow> f y)"
  "no_err a \<Longrightarrow> (\<And>y ys. no_err (g y ys)) \<Longrightarrow> no_err (case xs of [] \<Rightarrow> a | y # ys \<Rightarrow> g y ys)"
  "(\<And>a b. no_err (h a b)) \<Longrightarrow> no_err (case p of (a, b) \<Rightarrow> h a b)"
  "(\<And>x. no_err (k x)) \<Longrightarrow> no_err (Let t k)"
  "no_err (Ok v)" "no_err (res_ok r)"
  by (auto split: option.splits list.splits prod.splits) (cases r; simp)+

lemma safe_OkD: "safe P m \<Longrightarrow> m = Ok x \<Longrightarrow> P x"
  by simp

lemma safe_res_ok: "safe P m \<Longrightarrow> safe (\<lambda>x. \<forall>y. x = Some y \<longrightarrow> P y) (res_ok m)"
  by (cases m) auto

lemma and_then_eq_Ok [simp]: "and_then m k = Ok y \<longleftrightarrow> (\<exists>x. m = Ok x \<and> k x = Ok y)"
  by (cases m) auto

lemma and_then_cong [fundef_cong]:
  "m = m' \<Longrightarrow> (\<And>x. m' = Ok x \<Longrightarrow> k x = k' x) \<Longrightarrow> and_then m k = and_then m' k'"
  by (cases m') auto

lemma and_then_assoc: "and_then (and_then m k) h = and_then m (\<lambda>x. and_then (k x) h)"
  by (cases m) auto

section \<open>Indexing and slicing\<close>

text \<open>\<open>xs[i]\<close>\<close>

definition index :: "'a list \<Rightarrow> nat \<Rightarrow> ('a, 'e) res" where
  "index xs i = (if i < length xs then Ok (xs ! i) else Panic)"

text \<open>\<open>&xs[a..b]\<close> and \<open>&xs[a..]\<close>\<close>

definition sub_list :: "'a list \<Rightarrow> nat \<Rightarrow> nat \<Rightarrow> ('a list, 'e) res" where
  "sub_list xs a b = (if a \<le> b \<and> b \<le> length xs then Ok (take (b - a) (drop a xs)) else Panic)"

definition sub_from :: "'a list \<Rightarrow> nat \<Rightarrow> ('a list, 'e) res" where
  "sub_from xs a = (if a \<le> length xs then Ok (drop a xs) else Panic)"

lemma safe_index [safe_rules]: "i < length xs \<Longrightarrow> P (xs ! i) \<Longrightarrow> safe P (index xs i)"
  by (simp add: index_def)

lemma index_Ok [simp]: "i < length xs \<Longrightarrow> index xs i = Ok (xs ! i)"
  by (simp add: index_def)

lemma sub_list_Ok [simp]:
  "a \<le> b \<Longrightarrow> b \<le> length xs \<Longrightarrow> sub_list xs a b = Ok (take (b - a) (drop a xs))"
  by (simp add: sub_list_def)

lemma sub_from_Ok [simp]: "a \<le> length xs \<Longrightarrow> sub_from xs a = Ok (drop a xs)"
  by (simp add: sub_from_def)

text \<open>A fat pointer.  \<open>sl_range\<close> is \<open>&s[a..b]\<close>, \<open>sl_drop\<close> is \<open>&s[a..]\<close>.\<close>

datatype slice = Slice (sl_addr: nat) (sl_bytes: bytes)

definition sl_len :: "slice \<Rightarrow> nat" where
  "sl_len s = length (sl_bytes s)"

definition sl_range :: "slice \<Rightarrow> nat \<Rightarrow> nat \<Rightarrow> (slice, 'e) res" where
  "sl_range s a b =
     (if a \<le> b \<and> b \<le> sl_len s
      then Ok (Slice (sl_addr s + a) (take (b - a) (drop a (sl_bytes s)))) else Panic)"

definition sl_drop :: "slice \<Rightarrow> nat \<Rightarrow> (slice, 'e) res" where
  "sl_drop s a =
     (if a \<le> sl_len s then Ok (Slice (sl_addr s + a) (drop a (sl_bytes s))) else Panic)"

lemma no_err_slices [no_err_rules]:
  "no_err (index xs i)" "no_err (sub_list xs a b)" "no_err (sub_from xs a)" "no_err (sl_drop s a)"
  by (simp_all add: index_def sub_list_def sub_from_def sl_drop_def)

text \<open>\<open>s\<close> is a sub-slice of \<open>t\<close>: same allocation, in range, same bytes.\<close>

definition subslice :: "slice \<Rightarrow> slice \<Rightarrow> bool" where
  "subslice s t \<longleftrightarrow> sl_addr t \<le> sl_addr s \<and> sl_addr s + sl_len s \<le> sl_addr t + sl_len t \<and>
     sl_bytes s = take (sl_len s) (drop (sl_addr s - sl_addr t) (sl_bytes t))"

lemma subslice_refl [simp]: "subslice s s"
  by (simp add: subslice_def sl_len_def)

lemma subslice_trans:
  assumes "subslice s t" and "subslice t u" shows "subslice s u"
proof -
  let ?i = "sl_addr s - sl_addr t" and ?j = "sl_addr t - sl_addr u"
  from assms have le: "sl_addr u \<le> sl_addr t" "sl_addr t \<le> sl_addr s"
    "sl_addr s + sl_len s \<le> sl_addr t + sl_len t"
    "sl_addr t + sl_len t \<le> sl_addr u + sl_len u"
    and s: "sl_bytes s = take (sl_len s) (drop ?i (sl_bytes t))"
    and t: "sl_bytes t = take (sl_len t) (drop ?j (sl_bytes u))"
    by (auto simp: subslice_def)
  have "sl_bytes s = take (sl_len s) (drop ?i (take (sl_len t) (drop ?j (sl_bytes u))))"
    using s t by simp
  also have "\<dots> = take (min (sl_len s) (sl_len t - ?i)) (drop (?i + ?j) (sl_bytes u))"
    by (simp add: drop_take)
  also have "min (sl_len s) (sl_len t - ?i) = sl_len s" using le by arith
  also have "?i + ?j = sl_addr s - sl_addr u" using le by arith
  finally show ?thesis using le by (simp add: subslice_def)
qed

lemma subslice_sl_range:
  "a \<le> b \<Longrightarrow> b \<le> sl_len s \<Longrightarrow>
     subslice (Slice (sl_addr s + a) (take (b - a) (drop a (sl_bytes s)))) s"
  by (simp add: subslice_def sl_len_def)

lemma subslice_sl_drop:
  "a \<le> sl_len s \<Longrightarrow> subslice (Slice (sl_addr s + a) (drop a (sl_bytes s))) s"
  by (simp add: subslice_def sl_len_def)

section \<open>Key-value stores\<close>

text \<open>
  The interface the indexes rely on: what a lookup returns after an insert, that an insert keeps
  the representation invariant, and how the number of keys changes.
\<close>

locale kv_store =
  fixes get :: "'m \<Rightarrow> 'k \<Rightarrow> 'v option"
    and put :: "'k \<Rightarrow> 'v \<Rightarrow> 'm \<Rightarrow> 'm"
    and size_of :: "'m \<Rightarrow> nat"
    and valid :: "'m \<Rightarrow> bool"
  assumes get_put: "valid m \<Longrightarrow> get (put k v m) k' = (if k' = k then Some v else get m k')"
    and valid_put: "valid m \<Longrightarrow> valid (put k v m)"
    and size_put: "valid m \<Longrightarrow>
      size_of (put k v m) = (if get m k = None then Suc (size_of m) else size_of m)"
begin

text \<open>\<open>entry(k).or_default()\<close> followed by an update of the value in place.\<close>

lemma get_modify_same:
  "valid m \<Longrightarrow> get (put k (f (case get m k of None \<Rightarrow> d | Some v \<Rightarrow> v)) m) k =
     Some (f (case get m k of None \<Rightarrow> d | Some v \<Rightarrow> v))"
  by (simp add: get_put)

lemma put_commute:
  "valid m \<Longrightarrow> k \<noteq> k' \<Longrightarrow> get (put k v (put k' v' m)) = get (put k' v' (put k v m))"
  by (rule ext) (simp add: get_put valid_put)

lemma size_put_mono: "valid m \<Longrightarrow> size_of m \<le> size_of (put k v m)"
  by (simp add: size_put)

lemma size_put_le: "valid m \<Longrightarrow> size_of (put k v m) \<le> Suc (size_of m)"
  by (simp add: size_put)

text \<open>A guarded insert keeps a bound on the number of keys.\<close>

lemma capped_put:
  assumes "valid m" and "size_of m \<le> cap" and "size_of m < cap \<or> get m k \<noteq> None"
  shows "size_of (put k v m) \<le> cap"
  using assms by (auto simp: size_put)

end

subsection \<open>Hash maps: association lists with distinct keys\<close>

type_synonym ('k, 'v) hashmap = "('k \<times> 'v) list"

definition hm_valid :: "('k, 'v) hashmap \<Rightarrow> bool" where
  "hm_valid m \<longleftrightarrow> distinct (map fst m)"

lemma length_alist_update:
  "length (AList.update k v m) = (if map_of m k = None then Suc (length m) else length m)"
  by (induction m) auto

lemma hm_valid_Nil [simp]: "hm_valid []"
  by (simp add: hm_valid_def)

lemma hm_valid_update [simp]: "hm_valid m \<Longrightarrow> hm_valid (AList.update k v m)"
  by (simp add: hm_valid_def distinct_update)

interpretation hm: kv_store map_of AList.update length hm_valid
  by unfold_locales (auto simp: update_conv length_alist_update)

lemma map_of_alist_update: "map_of (AList.update k v m) k' = (if k' = k then Some v else map_of m k')"
  by (simp add: update_conv)

lemma alist_update_values:
  "(k', v') \<in> set (AList.update k v m) \<Longrightarrow> (k' = k \<and> v' = v) \<or> (k', v') \<in> set m"
  by (induction m) (auto split: if_splits)

subsection \<open>B-tree maps: key-sorted association lists\<close>

type_synonym ('k, 'v) btree = "('k \<times> 'v) list"

fun bt_put :: "'k::linorder \<Rightarrow> 'v \<Rightarrow> ('k, 'v) btree \<Rightarrow> ('k, 'v) btree" where
  "bt_put k v [] = [(k, v)]"
| "bt_put k v ((k', v') # m) =
     (if k < k' then (k, v) # (k', v') # m
      else if k = k' then (k, v) # m
      else (k', v') # bt_put k v m)"

definition bt_valid :: "('k::linorder, 'v) btree \<Rightarrow> bool" where
  "bt_valid m \<longleftrightarrow> sorted_wrt (<) (map fst m)"

lemma bt_valid_Nil [simp]: "bt_valid []"
  by (simp add: bt_valid_def)

lemma keys_bt_put: "fst ` set (bt_put k v m) = insert k (fst ` set m)"
proof (induction m)
  case (Cons p m)
  then show ?case by (cases p) (simp add: insert_commute)
qed simp

lemma bt_put_valid: "bt_valid m \<Longrightarrow> bt_valid (bt_put k v m)"
proof (induction m)
  case (Cons p m)
  obtain k' v' where p: "p = (k', v')" by force
  from Cons.prems have m: "bt_valid m" and lo: "\<forall>x \<in> fst ` set m. k' < x"
    by (auto simp: bt_valid_def p)
  show ?case
    using Cons.IH [OF m] m lo keys_bt_put [of k v m]
    by (auto simp: bt_valid_def p)
qed (simp add: bt_valid_def)

lemma bt_notin: "bt_valid ((k', v') # m) \<Longrightarrow> k < k' \<Longrightarrow> map_of m k = None"
  by (force simp: bt_valid_def map_of_eq_None_iff)

lemma map_of_bt_put: "map_of (bt_put k v m) x = (if x = k then Some v else map_of m x)"
  by (induction m) auto

lemma length_bt_put:
  "bt_valid m \<Longrightarrow> length (bt_put k v m) = (if map_of m k = None then Suc (length m) else length m)"
proof (induction m)
  case (Cons p m)
  obtain k' v' where p: "p = (k', v')" by force
  from Cons.prems have "bt_valid m" by (simp add: bt_valid_def p)
  with Cons show ?case by (auto simp: p dest: bt_notin)
qed simp

interpretation bt: kv_store map_of bt_put length "bt_valid :: ('k::linorder, 'v) btree \<Rightarrow> bool"
  by unfold_locales (auto simp: map_of_bt_put length_bt_put bt_put_valid)

subsection \<open>Values summed over a map\<close>

text \<open>A number attached to each entry, summed; both kinds of map.\<close>

definition table_sum :: "('v \<Rightarrow> nat) \<Rightarrow> ('k \<times> 'v) list \<Rightarrow> nat" where
  "table_sum g m = sum_list (map (\<lambda>(k, v). g v) m)"

lemma table_sum_Nil [simp]: "table_sum g [] = 0"
  by (simp add: table_sum_def)

lemma table_sum_update:
  assumes "hm_valid m"
  shows "table_sum g (AList.update k v m) + (case map_of m k of None \<Rightarrow> 0 | Some v' \<Rightarrow> g v') =
    table_sum g m + g v"
  using assms by (induction m) (auto simp: table_sum_def hm_valid_def split: option.splits)

lemma table_sum_bt_put:
  assumes "bt_valid m"
  shows "table_sum g (bt_put k v m) + (case map_of m k of None \<Rightarrow> 0 | Some v' \<Rightarrow> g v') =
    table_sum g m + g v"
  using assms
proof (induction m)
  case (Cons p m)
  obtain k' v' where p: "p = (k', v')" by force
  from Cons.prems have m: "bt_valid m" by (simp add: bt_valid_def p)
  show ?case
    using Cons.IH [OF m] bt_notin [OF Cons.prems [unfolded p], of k]
    by (auto simp: table_sum_def p split: option.splits)
qed (simp add: table_sum_def)

text \<open>A B-tree map is determined by its contents.\<close>

lemma bt_ext:
  assumes "bt_valid m" and "bt_valid m'" and "map_of m = map_of m'"
  shows "m = m'"
proof -
  have d: "distinct (map fst m)" "distinct (map fst m')"
    using assms(1,2) by (auto simp: bt_valid_def strict_sorted_iff)
  then have "set m = set m'" using assms(3) map_of_inject_set by blast
  then have "set (map fst m) = set (map fst m')" by simp
  then have k: "map fst m = map fst m'"
    using assms(1,2) by (auto simp: bt_valid_def intro: strict_sorted_equal)
  have "snd (m ! i) = snd (m' ! i)" if i: "i < length m" for i
  proof -
    have j: "i < length m'" using k i by (metis length_map)
    have "map_of m (fst (m ! i)) = Some (snd (m ! i))" "map_of m' (fst (m' ! i)) = Some (snd (m' ! i))"
      using d i j by (auto intro!: map_of_is_SomeI)
    moreover have "fst (m ! i) = fst (m' ! i)" using k i j by (metis nth_map)
    ultimately show ?thesis using assms(3) by simp
  qed
  then show ?thesis using k by (metis (no_types, lifting) length_map nth_equalityI nth_map prod_eqI)
qed

subsection \<open>B-tree sets: strictly sorted lists\<close>

type_synonym 'a btset = "'a list"

definition bs_insert :: "'a::linorder \<Rightarrow> 'a btset \<Rightarrow> 'a btset" where
  "bs_insert x s = insort_insert x s"

lemma set_bs_insert [simp]: "set (bs_insert x s) = insert x (set s)"
  by (simp add: bs_insert_def set_insort_insert)

lemma bs_insert_sorted: "sorted s \<Longrightarrow> distinct s \<Longrightarrow> sorted (bs_insert x s) \<and> distinct (bs_insert x s)"
  by (simp add: bs_insert_def sorted_insort_insert distinct_insort_insert)

lemma length_bs_insert: "length (bs_insert x s) = (if x \<in> set s then length s else Suc (length s))"
  by (simp add: bs_insert_def insort_insert_key_def)

lemma length_bs_insert_le: "length (bs_insert x s) \<le> Suc (length s)"
  by (simp add: length_bs_insert)

lemma length_bs_insert_ge: "length s \<le> length (bs_insert x s)"
  by (simp add: length_bs_insert)

section \<open>Stable sorting\<close>

fun insert_by :: "('a \<Rightarrow> 'a \<Rightarrow> bool) \<Rightarrow> 'a \<Rightarrow> 'a list \<Rightarrow> 'a list" where
  "insert_by le x [] = [x]"
| "insert_by le x (y # ys) = (if le x y then x # y # ys else y # insert_by le x ys)"

definition sort_by :: "('a \<Rightarrow> 'a \<Rightarrow> bool) \<Rightarrow> 'a list \<Rightarrow> 'a list" where
  "sort_by le xs = foldr (insert_by le) xs []"

lemma mset_insert_by [simp]: "mset (insert_by le x xs) = add_mset x (mset xs)"
  by (induction xs) auto

lemma mset_sort_by [simp]: "mset (sort_by le xs) = mset xs"
  by (induction xs) (auto simp: sort_by_def)

lemma set_sort_by [simp]: "set (sort_by le xs) = set xs"
  using mset_sort_by [of le xs] by (metis set_mset_mset)

lemma length_sort_by [simp]: "length (sort_by le xs) = length xs"
  using mset_sort_by [of le xs] by (metis size_mset)

locale total_preorder =
  fixes le :: "'a \<Rightarrow> 'a \<Rightarrow> bool"
  assumes le_total: "le x y \<or> le y x"
    and le_trans: "le x y \<Longrightarrow> le y z \<Longrightarrow> le x z"
begin

lemma sorted_insert_by: "sorted_wrt le ys \<Longrightarrow> sorted_wrt le (insert_by le x ys)"
proof (induction ys)
  case (Cons y ys)
  have s: "set (insert_by le x ys) = insert x (set ys)"
    by (metis mset_insert_by set_mset_add_mset_insert set_mset_mset)
  from Cons show ?case
    using le_total [of x y] le_trans by (auto simp: s)
qed simp

lemma sorted_sort_by: "sorted_wrt le (sort_by le xs)"
  by (induction xs) (auto simp: sort_by_def sorted_insert_by)

text \<open>Where no two different elements tie, the result does not depend on the order of the input.\<close>

lemma sorted_unique:
  assumes "sorted_wrt le xs" and "sorted_wrt le ys" and "mset xs = mset ys"
    and "\<And>x y. x \<in> set xs \<Longrightarrow> y \<in> set xs \<Longrightarrow> le x y \<Longrightarrow> le y x \<Longrightarrow> x = y"
  shows "xs = ys"
  using assms
proof (induction xs arbitrary: ys)
  case (Cons x xs)
  obtain y zs where ys: "ys = y # zs" using Cons.prems(3) by (cases ys) auto
  have mem: "y \<in> set (x # xs)" "x \<in> set (y # zs)"
    using Cons.prems(3) by (metis list.set_intros(1) mset_eq_setD ys)+
  have "x = y"
  proof (rule ccontr)
    assume "x \<noteq> y"
    then have "le x y" "le y x" using mem Cons.prems(1,2) by (auto simp: ys)
    then show False using \<open>x \<noteq> y\<close> Cons.prems(4) [of x y] mem by simp
  qed
  moreover have "xs = zs"
    by (rule Cons.IH) (use Cons.prems \<open>x = y\<close> in \<open>auto simp: ys\<close>)
  ultimately show ?case by (simp add: ys)
qed simp

lemma sort_by_unique:
  assumes "mset xs = mset ys"
    and "\<And>x y. x \<in> set xs \<Longrightarrow> y \<in> set xs \<Longrightarrow> le x y \<Longrightarrow> le y x \<Longrightarrow> x = y"
  shows "sort_by le xs = sort_by le ys"
  using assms by (intro sorted_unique sorted_sort_by) auto

text \<open>The first \<open>n\<close> of a sorted list dominate everything left out.\<close>

lemma take_sort_by_best:
  assumes "x \<in> set (take n (sort_by le xs))" and "y \<in> set (drop n (sort_by le xs))"
  shows "le x y"
proof -
  let ?s = "sort_by le xs"
  have "sorted_wrt le (take n ?s @ drop n ?s)"
    using sorted_sort_by by simp
  then show ?thesis using assms by (simp only: sorted_wrt_append)
qed

end

section \<open>Lists\<close>

lemma nth_take_drop: "i < n \<Longrightarrow> a + i < length xs \<Longrightarrow> take n (drop a xs) ! i = xs ! (a + i)"
  by simp

lemma length_take_drop [simp]: "length (take n (drop a xs)) = min n (length xs - a)"
  by (simp add: min.commute)

lemma drop_eq_Cons: "n < length xs \<Longrightarrow> drop n xs = xs ! n # drop (Suc n) xs"
  by (simp add: Cons_nth_drop_Suc)

end
