(* ===== verification/IpAddr.thy ===== *)
theory IpAddr
  imports RustStd
begin

unbundle bit_operations_syntax

text \<open>
  \<open>std::net::IpAddr\<close> as the program uses it: the two address families as octet lists, their
  derived order (every v4 address below every v6 one, octets lexicographically), the classifying
  predicates, the textual form (RFC 5952 compression for IPv6) and the standard library's parser.
  \<open>parse_show_ipv4\<close> is the round trip the DNS index relies on.
\<close>

datatype ip_addr = V4 bytes | V6 bytes

text \<open>An address holds 4 or 16 octets.\<close>

fun ip_wf :: "ip_addr \<Rightarrow> bool" where
  "ip_wf (V4 o4) = (length o4 = 4)"
| "ip_wf (V6 o6) = (length o6 = 16)"

fun ip_le :: "ip_addr \<Rightarrow> ip_addr \<Rightarrow> bool" where
  "ip_le (V4 a) (V4 b) = (a \<le> b)"
| "ip_le (V4 a) (V6 b) = True"
| "ip_le (V6 a) (V4 b) = False"
| "ip_le (V6 a) (V6 b) = (a \<le> b)"

instantiation ip_addr :: linorder
begin

definition less_eq_ip_addr :: "ip_addr \<Rightarrow> ip_addr \<Rightarrow> bool" where
  "less_eq_ip_addr a b = ip_le a b"

definition less_ip_addr :: "ip_addr \<Rightarrow> ip_addr \<Rightarrow> bool" where
  "less_ip_addr a b = (ip_le a b \<and> \<not> ip_le b a)"

instance
proof
  fix x y z :: ip_addr
  show "(x < y) = (x \<le> y \<and> \<not> y \<le> x)"
    by (simp add: less_eq_ip_addr_def less_ip_addr_def)
  show "x \<le> x" by (cases x) (simp_all add: less_eq_ip_addr_def)
  show "x \<le> y \<Longrightarrow> y \<le> z \<Longrightarrow> x \<le> z"
    by (cases x; cases y; cases z) (auto simp: less_eq_ip_addr_def)
  show "x \<le> y \<Longrightarrow> y \<le> x \<Longrightarrow> x = y"
    by (cases x; cases y) (auto simp: less_eq_ip_addr_def)
  show "x \<le> y \<or> y \<le> x"
    by (cases x; cases y) (auto simp: less_eq_ip_addr_def)
qed

end

section \<open>Classification\<close>

definition v4_is_private :: "bytes \<Rightarrow> bool" where
  "v4_is_private a \<longleftrightarrow> a ! 0 = 10 \<or> (a ! 0 = 172 \<and> 16 \<le> a ! 1 \<and> a ! 1 \<le> 31) \<or>
     (a ! 0 = 192 \<and> a ! 1 = 168)"

definition v4_is_loopback :: "bytes \<Rightarrow> bool" where
  "v4_is_loopback a \<longleftrightarrow> a ! 0 = 127"

definition v4_is_link_local :: "bytes \<Rightarrow> bool" where
  "v4_is_link_local a \<longleftrightarrow> a ! 0 = 169 \<and> a ! 1 = 254"

definition v4_is_broadcast :: "bytes \<Rightarrow> bool" where
  "v4_is_broadcast a \<longleftrightarrow> a = [255, 255, 255, 255]"

definition v4_is_unspecified :: "bytes \<Rightarrow> bool" where
  "v4_is_unspecified a \<longleftrightarrow> a = [0, 0, 0, 0]"

definition v6_is_loopback :: "bytes \<Rightarrow> bool" where
  "v6_is_loopback a \<longleftrightarrow> a = replicate 15 0 @ [1]"

definition v6_is_unspecified :: "bytes \<Rightarrow> bool" where
  "v6_is_unspecified a \<longleftrightarrow> a = replicate 16 0"

fun is_ipv4 :: "ip_addr \<Rightarrow> bool" where
  "is_ipv4 (V4 _) = True"
| "is_ipv4 (V6 _) = False"

section \<open>Text form\<close>

definition show_ipv4 :: "bytes \<Rightarrow> string" where
  "show_ipv4 a = join ''.'' (map (\<lambda>b. show_nat (unat b)) a)"

fun segments :: "bytes \<Rightarrow> u16 list" where
  "segments (a # b # r) = be16 a b # segments r"
| "segments _ = []"

text \<open>The first longest run of zero segments, as start and length.\<close>

fun zero_run :: "u16 list \<Rightarrow> nat \<Rightarrow> nat \<times> nat \<Rightarrow> nat \<times> nat \<Rightarrow> nat \<times> nat" where
  "zero_run [] i cur best = best"
| "zero_run (s # ss) i cur best =
     (if s = 0 then
        let cur' = (if snd cur = 0 then i else fst cur, Suc (snd cur))
        in zero_run ss (Suc i) cur' (if snd cur' > snd best then cur' else best)
      else zero_run ss (Suc i) (0, 0) best)"

definition show_segments :: "u16 list \<Rightarrow> string" where
  "show_segments ss = join '':'' (map (\<lambda>s. show_hex (unat s)) ss)"

definition show_ipv6 :: "bytes \<Rightarrow> string" where
  "show_ipv6 a =
     (if take 12 a = replicate 10 0 @ [255, 255] then ''::ffff:'' @ show_ipv4 (drop 12 a)
      else
        let ss = segments a; (start, len) = zero_run ss 0 (0, 0) (0, 0)
        in if len > 1
           then show_segments (take start ss) @ ''::'' @ show_segments (drop (start + len) ss)
           else show_segments ss)"

fun show_ip :: "ip_addr \<Rightarrow> string" where
  "show_ip (V4 a) = show_ipv4 a"
| "show_ip (V6 a) = show_ipv6 a"

section \<open>The parser\<close>

text \<open>\<open>read_number(radix, Some(max_digits), allow_zero_prefix)\<close>: the digits at the front.\<close>

definition hex_val :: "char \<Rightarrow> nat" where
  "hex_val c =
     (let n = of_char c in if n \<le> 57 then n - 48 else if n \<le> 70 then n - 55 else n - 87)"

definition read_dec_octet :: "string \<Rightarrow> (u8 \<times> string) option" where
  "read_dec_octet p =
     (let ds = takeWhile is_digit p in
      if ds = [] \<or> length ds > 3 \<or> (hd ds = CHR ''0'' \<and> length ds > 1) \<or> digits_val ds > 255
      then None else Some (word_of_nat (digits_val ds), dropWhile is_digit p))"

definition read_hex_group :: "string \<Rightarrow> (u16 \<times> string) option" where
  "read_hex_group p =
     (let ds = takeWhile is_hexdigit p in
      if ds = [] \<or> length ds > 4 then None
      else Some (word_of_nat (foldl (\<lambda>v c. 16 * v + hex_val c) 0 ds), dropWhile is_hexdigit p))"

text \<open>\<open>read_separator(sep, index, inner)\<close>\<close>

definition read_separator ::
  "char \<Rightarrow> nat \<Rightarrow> (string \<Rightarrow> ('a \<times> string) option) \<Rightarrow> string \<Rightarrow> ('a \<times> string) option" where
  "read_separator sep i inner p =
     (if i = 0 then inner p
      else (case p of [] \<Rightarrow> None | c # q \<Rightarrow> if c = sep then inner q else None))"

fun read_octets :: "nat \<Rightarrow> nat \<Rightarrow> string \<Rightarrow> (bytes \<times> string) option" where
  "read_octets 0 i p = Some ([], p)"
| "read_octets (Suc n) i p =
     (case read_separator CHR ''.'' i read_dec_octet p of
        None \<Rightarrow> None
      | Some (b, q) \<Rightarrow>
          (case read_octets n (Suc i) q of
             None \<Rightarrow> None
           | Some (bs, r) \<Rightarrow> Some (b # bs, r)))"

definition read_ipv4_addr :: "string \<Rightarrow> (bytes \<times> string) option" where
  "read_ipv4_addr p = read_octets 4 0 p"

text \<open>\<open>read_groups\<close>: groups up to a limit (counted down here), with a possible IPv4 tail.\<close>

fun read_groups :: "nat \<Rightarrow> nat \<Rightarrow> string \<Rightarrow> bytes \<times> bool \<times> string" where
  "read_groups 0 i p = ([], False, p)"
| "read_groups (Suc left) i p =
     (case (if left > 0 then read_separator CHR '':'' i read_ipv4_addr p else None) of
        Some (v4, q) \<Rightarrow> (v4, True, q)
      | None \<Rightarrow>
          (case read_separator CHR '':'' i read_hex_group p of
             None \<Rightarrow> ([], False, p)
           | Some (g, q) \<Rightarrow>
               (case read_groups left (Suc i) q of
                  (gs, v4, r) \<Rightarrow> (ucast (drop_bit 8 g) # ucast g # gs, v4, r))))"

definition read_ipv6_addr :: "string \<Rightarrow> (bytes \<times> string) option" where
  "read_ipv6_addr p =
     (case read_groups 8 0 p of
        (hd_bytes, hd_v4, q) \<Rightarrow>
          if length hd_bytes = 16 then Some (hd_bytes, q)
          else if hd_v4 then None
          else
            (case q of
               c # d # q' \<Rightarrow>
                 if c = CHR '':'' \<and> d = CHR '':'' then
                   (case read_groups (8 - (length hd_bytes div 2 + 1)) 0 q' of
                      (tl_bytes, _, r) \<Rightarrow>
                        Some (hd_bytes @ replicate (16 - length hd_bytes - length tl_bytes) 0 @ tl_bytes, r))
                 else None
             | _ \<Rightarrow> None))"

definition parse_ip :: "string \<Rightarrow> ip_addr option" where
  "parse_ip s =
     (case read_ipv4_addr s of
        Some (a, r) \<Rightarrow> if r = [] then Some (V4 a) else None
      | None \<Rightarrow>
          (case read_ipv6_addr s of
             Some (a, r) \<Rightarrow> if r = [] then Some (V6 a) else None
           | None \<Rightarrow> None))"

section \<open>Facts\<close>

lemma read_octets_length: "read_octets n i p = Some (bs, r) \<Longrightarrow> length bs = n"
  by (induction n i p arbitrary: bs r rule: read_octets.induct) (auto split: option.splits)

lemma read_groups_length:
  "read_groups n i p = (bs, v4, r) \<Longrightarrow> even (length bs) \<and> length bs \<le> 2 * n"
proof (induction n i p arbitrary: bs v4 r rule: read_groups.induct)
  case (2 left i p)
  show ?case
  proof (cases "if left > 0 then read_separator CHR '':'' i read_ipv4_addr p else None")
    case None
    show ?thesis
    proof (cases "read_separator CHR '':'' i read_hex_group p")
      case None
      with 2 \<open>(if _ then _ else _) = None\<close> show ?thesis by (simp split: if_splits)
    next
      case (Some gq)
      obtain g q gs w u where gq: "gq = (g, q)" "read_groups left (Suc i) q = (gs, w, u)"
        by (metis prod_cases3 surj_pair)
      have "even (length gs) \<and> length gs \<le> 2 * left"
        using "2.IH" [OF \<open>(if _ then _ else _) = None\<close> Some] gq by blast
      with 2 Some gq \<open>(if _ then _ else _) = None\<close> show ?thesis by (auto split: if_splits)
    qed
  next
    case (Some vq)
    then obtain w q where "left > 0" "vq = (w, q)"
      "read_separator CHR '':'' i read_ipv4_addr p = Some (w, q)"
      by (cases vq) (auto split: if_splits)
    moreover from this have "length w = 4"
      by (auto simp: read_separator_def read_ipv4_addr_def dest!: read_octets_length
          split: if_splits list.splits)
    ultimately show ?thesis using 2 Some by auto
  qed
qed simp

lemma parse_ip_wf: "parse_ip s = Some ip \<Longrightarrow> ip_wf ip"
proof -
  assume p: "parse_ip s = Some ip"
  show ?thesis
  proof (cases "read_ipv4_addr s")
    case (Some ar)
    with p show ?thesis
      by (cases ar)
        (auto simp: parse_ip_def read_ipv4_addr_def dest!: read_octets_length split: if_splits)
  next
    case None
    with p obtain a where ip: "ip = V6 a" and r: "read_ipv6_addr s = Some (a, [])"
      by (auto simp: parse_ip_def split: option.splits if_splits)
    obtain h v q where h: "read_groups 8 0 s = (h, v, q)" by (metis prod_cases3)
    note hl = read_groups_length [OF h]
    show ?thesis
    proof (cases "length h = 16")
      case True
      with r h ip show ?thesis by (simp add: read_ipv6_addr_def)
    next
      case False
      with r h obtain t w q' where
        t: "read_groups (8 - (length h div 2 + 1)) 0 q' = (t, w, [])"
        and a: "a = h @ replicate (16 - length h - length t) 0 @ t"
        by (auto simp: read_ipv6_addr_def split: if_splits list.splits prod.splits)
      from read_groups_length [OF t] hl False have "length h + length t \<le> 16" by auto
      with a ip show ?thesis by simp
    qed
  qed
qed

lemma takeWhile_digits_show_nat:
  "takeWhile is_digit (show_nat n @ r) = show_nat n @ takeWhile is_digit r"
  "dropWhile is_digit (show_nat n @ r) = dropWhile is_digit r"
  using show_nat_digits [of n] by (auto simp: list_all_iff takeWhile_append2 dropWhile_append2)

lemma show_nat_small:
  "n < 10 \<Longrightarrow> show_nat n = [digit_char n]"
  "10 \<le> n \<Longrightarrow> n < 100 \<Longrightarrow> show_nat n = [digit_char (n div 10), digit_char (n mod 10)]"
  "100 \<le> n \<Longrightarrow> n < 1000 \<Longrightarrow>
     show_nat n = [digit_char (n div 100), digit_char (n div 10 mod 10), digit_char (n mod 10)]"
proof -
  assume "100 \<le> n" "n < 1000"
  moreover from this have "\<not> n < 10" "\<not> n div 10 < 10" "n div 10 div 10 < 10"
    "n div 10 div 10 = n div 100" by auto
  ultimately show "show_nat n = [digit_char (n div 100), digit_char (n div 10 mod 10), digit_char (n mod 10)]"
    by (simp add: show_nat.simps [of n] show_nat.simps [of "n div 10"]
      show_nat.simps [of "n div 100"])
qed (simp_all add: show_nat.simps [of n] show_nat.simps [of "n div 10"])

lemma digit_char_zero: "d < 10 \<Longrightarrow> digit_char d = CHR ''0'' \<longleftrightarrow> d = 0"
proof
  assume "d < 10" "digit_char d = CHR ''0''"
  then have "(of_char (digit_char d) :: nat) = 48" by simp
  with \<open>d < 10\<close> show "d = 0" by simp
next
  assume "d = 0"
  have "of_char (digit_char 0) = (of_char CHR ''0'' :: nat)" by simp
  then have "digit_char 0 = CHR ''0''" by (simp only: of_char_eq_iff)
  with \<open>d = 0\<close> show "digit_char d = CHR ''0''" by simp
qed

lemma read_dec_octet_show:
  assumes "r = [] \<or> \<not> is_digit (hd r)"
  shows "read_dec_octet (show_nat (unat b) @ r) = Some (b, r)"
proof -
  let ?n = "unat b"
  have n: "?n < 256" by (rule unat_u8_less)
  have tw: "takeWhile is_digit r = []" "dropWhile is_digit r = r"
    using assms by (cases r; simp)+
  have "length (show_nat ?n) \<le> 3 \<and> (length (show_nat ?n) > 1 \<longrightarrow> hd (show_nat ?n) \<noteq> CHR ''0'')"
  proof (cases "?n < 10")
    case True
    then show ?thesis by (simp add: show_nat_small)
  next
    case False
    show ?thesis
    proof (cases "?n < 100")
      case True
      with False have "?n div 10 < 10" "?n div 10 \<noteq> 0" by auto
      with True False show ?thesis by (simp add: show_nat_small digit_char_zero)
    next
      case b: False
      with n have "?n div 100 < 10" "?n div 100 \<noteq> 0" by auto
      with b n show ?thesis by (simp add: show_nat_small digit_char_zero)
    qed
  qed
  then have "\<not> (show_nat ?n = [] \<or> length (show_nat ?n) > 3 \<or>
      (hd (show_nat ?n) = CHR ''0'' \<and> length (show_nat ?n) > 1) \<or> digits_val (show_nat ?n) > 255)"
    using n by auto
  then show ?thesis
    by (simp only: read_dec_octet_def takeWhile_digits_show_nat tw Let_def append_Nil2 if_False) simp
qed

lemma read_octets_show:
  assumes "length bs = n" and "0 < n"
  shows "read_octets n i ((if i = 0 then [] else ''.'') @ join ''.'' (map (\<lambda>b. show_nat (unat b)) bs)) =
           Some (bs, [])"
  using assms
proof (induction n arbitrary: i bs)
  case (Suc n)
  then obtain b cs where bs: "bs = b # cs" and cs: "length cs = n" by (cases bs) auto
  show ?case
  proof (cases "n = 0")
    case True
    with bs cs read_dec_octet_show [of "[]" b] show ?thesis by (simp add: read_separator_def)
  next
    case False
    let ?rest = "''.'' @ join ''.'' (map (\<lambda>b. show_nat (unat b)) cs)"
    from False cs have "cs \<noteq> []" by auto
    then have j: "join ''.'' (map (\<lambda>b. show_nat (unat b)) bs) = show_nat (unat b) @ ?rest"
      by (simp add: bs join_Cons)
    have r: "read_octets n (Suc i) ?rest = Some (cs, [])"
      using Suc.IH [of cs "Suc i"] cs False by simp
    show ?thesis
      using read_dec_octet_show [of ?rest b] r unfolding j
      by (cases "i = 0") (simp_all add: read_separator_def bs)
  qed
qed simp

lemma parse_show_ipv4: "length a = 4 \<Longrightarrow> parse_ip (show_ip (V4 a)) = Some (V4 a)"
  using read_octets_show [of a 4 0] by (simp add: parse_ip_def read_ipv4_addr_def show_ipv4_def)

end
