(* ===== verification/Bytes.thy ===== *)
theory Bytes
  imports RustStd
begin

unbundle bit_operations_syntax

text \<open>
  \<open>error.rs\<close> and \<open>bytes.rs\<close>: the decode error with its rendering, and the bounds-checked reader
  every header decoder is built on.  A reader is a slice and a position; each operation either
  returns a value with the advanced reader or the \<open>Truncated\<close> error with the shortfall.  The
  invariant is \<open>rd_in s\<close>: the position is in range and the buffer is a prefix of the slice the
  reader was made from.  Under it no operation panics (\<open>safe_rules\<close>), and each one is described
  by what it takes off the front of \<open>rd_left\<close>, the unread bytes (\<open>rd_eqs\<close>).
\<close>

named_theorems rd_eqs \<open>reader operations as list operations on the unread bytes\<close>

named_theorems adv_steps \<open>one step of a straight-line decoder, with exact positions\<close>

section \<open>Errors\<close>

datatype decode_error =
    Truncated string nat nat
  | Unsupported string nat
  | Malformed string string

fun err_layer :: "decode_error \<Rightarrow> string" where
  "err_layer (Truncated l need got) = l"
| "err_layer (Unsupported l v) = l"
| "err_layer (Malformed l reason) = l"

fun show_error :: "decode_error \<Rightarrow> string" where
  "show_error (Truncated l need got) =
     l @ '': truncated, need '' @ show_nat need @ '' bytes but only '' @ show_nat got @ '' remain''"
| "show_error (Unsupported l v) = l @ '': unsupported value 0x'' @ show_hex v"
| "show_error (Malformed l reason) = l @ '': malformed ('' @ reason @ '')''"

type_synonym 'a dres = "('a, decode_error) res"

section \<open>The reader\<close>

record reader =
  rd_buf :: slice
  rd_pos :: nat
  rd_layer :: string

definition rd_new :: "slice \<Rightarrow> string \<Rightarrow> reader" where
  "rd_new buf layer = \<lparr>rd_buf = buf, rd_pos = 0, rd_layer = layer\<rparr>"

definition rd_remaining :: "reader \<Rightarrow> nat" where
  "rd_remaining r = sl_len (rd_buf r) - rd_pos r"

definition rd_is_empty :: "reader \<Rightarrow> bool" where
  "rd_is_empty r \<longleftrightarrow> rd_remaining r = 0"

definition rd_need :: "reader \<Rightarrow> nat \<Rightarrow> unit dres" where
  "rd_need r n =
     (if rd_remaining r < n then Err (Truncated (rd_layer r) n (rd_remaining r)) else Ok ())"

definition rd_u8 :: "reader \<Rightarrow> (u8 \<times> reader) dres" where
  "rd_u8 r =
     and_then (rd_need r 1) (\<lambda>_.
     and_then (index (sl_bytes (rd_buf r)) (rd_pos r)) (\<lambda>v.
     Ok (v, r\<lparr>rd_pos := rd_pos r + 1\<rparr>)))"

definition rd_peek_u8 :: "reader \<Rightarrow> u8 dres" where
  "rd_peek_u8 r = and_then (rd_need r 1) (\<lambda>_. index (sl_bytes (rd_buf r)) (rd_pos r))"

definition rd_array :: "nat \<Rightarrow> reader \<Rightarrow> (bytes \<times> reader) dres" where
  "rd_array n r =
     and_then (rd_need r n) (\<lambda>_.
     and_then (sub_list (sl_bytes (rd_buf r)) (rd_pos r) (rd_pos r + n)) (\<lambda>out.
     Ok (out, r\<lparr>rd_pos := rd_pos r + n\<rparr>)))"

definition rd_be_u16 :: "reader \<Rightarrow> (u16 \<times> reader) dres" where
  "rd_be_u16 r = and_then (rd_array 2 r) (\<lambda>(b, r'). Ok (be16 (b ! 0) (b ! 1), r'))"

definition rd_be_u24 :: "reader \<Rightarrow> (u32 \<times> reader) dres" where
  "rd_be_u24 r = and_then (rd_array 3 r) (\<lambda>(b, r'). Ok (be32 0 (b ! 0) (b ! 1) (b ! 2), r'))"

definition rd_be_u32 :: "reader \<Rightarrow> (u32 \<times> reader) dres" where
  "rd_be_u32 r = and_then (rd_array 4 r) (\<lambda>(b, r'). Ok (be32 (b ! 0) (b ! 1) (b ! 2) (b ! 3), r'))"

definition rd_take :: "nat \<Rightarrow> reader \<Rightarrow> (slice \<times> reader) dres" where
  "rd_take n r =
     and_then (rd_need r n) (\<lambda>_.
     and_then (sl_range (rd_buf r) (rd_pos r) (rd_pos r + n)) (\<lambda>s.
     Ok (s, r\<lparr>rd_pos := rd_pos r + n\<rparr>)))"

definition rd_skip :: "nat \<Rightarrow> reader \<Rightarrow> reader dres" where
  "rd_skip n r = and_then (rd_need r n) (\<lambda>_. Ok (r\<lparr>rd_pos := rd_pos r + n\<rparr>))"

definition rd_rest :: "reader \<Rightarrow> (slice \<times> reader) dres" where
  "rd_rest r =
     and_then (sl_drop (rd_buf r) (rd_pos r)) (\<lambda>s.
     Ok (s, r\<lparr>rd_pos := sl_len (rd_buf r)\<rparr>))"

definition rd_peek_rest :: "reader \<Rightarrow> slice dres" where
  "rd_peek_rest r = sl_drop (rd_buf r) (rd_pos r)"

definition rd_sub :: "nat \<Rightarrow> string \<Rightarrow> reader \<Rightarrow> (reader \<times> reader) dres" where
  "rd_sub n layer r = and_then (rd_take n r) (\<lambda>(s, r'). Ok (rd_new s layer, r'))"

definition rd_limit :: "nat \<Rightarrow> reader \<Rightarrow> reader dres" where
  "rd_limit n r =
     (let stop = min (rd_pos r + n) (sl_len (rd_buf r)) in
      and_then (sl_range (rd_buf r) 0 stop) (\<lambda>s. Ok (r\<lparr>rd_buf := s\<rparr>)))"

section \<open>The invariant and what is left to read\<close>

definition rd_wf :: "reader \<Rightarrow> bool" where
  "rd_wf r \<longleftrightarrow> rd_pos r \<le> sl_len (rd_buf r)"

definition rd_in :: "slice \<Rightarrow> reader \<Rightarrow> bool" where
  "rd_in s r \<longleftrightarrow> rd_wf r \<and> sl_addr (rd_buf r) = sl_addr s \<and> sl_len (rd_buf r) \<le> sl_len s \<and>
     sl_bytes (rd_buf r) = take (sl_len (rd_buf r)) (sl_bytes s)"

definition rd_left :: "reader \<Rightarrow> bytes" where
  "rd_left r = drop (rd_pos r) (sl_bytes (rd_buf r))"

definition rd_adv :: "nat \<Rightarrow> reader \<Rightarrow> reader" where
  "rd_adv n r = r\<lparr>rd_pos := rd_pos r + n\<rparr>"

lemma rd_remaining_left: "rd_remaining r = length (rd_left r)"
  by (simp add: rd_remaining_def rd_left_def sl_len_def)

lemma rd_in_wf: "rd_in s r \<Longrightarrow> rd_wf r"
  by (simp add: rd_in_def)

lemma rd_in_new [simp, safe_rules]: "rd_in s (rd_new s l)"
  by (simp add: rd_in_def rd_wf_def rd_new_def sl_len_def)

lemma rd_wf_new [simp]: "rd_wf (rd_new s l)"
  by (simp add: rd_wf_def rd_new_def)

lemma rd_left_new [simp]: "rd_left (rd_new s l) = sl_bytes s"
  by (simp add: rd_left_def rd_new_def)

lemma rd_wf_adv [simp]: "rd_wf r \<Longrightarrow> n \<le> length (rd_left r) \<Longrightarrow> rd_wf (rd_adv n r)"
  by (simp add: rd_wf_def rd_adv_def rd_left_def sl_len_def)

lemma rd_in_adv: "rd_in s r \<Longrightarrow> n \<le> length (rd_left r) \<Longrightarrow> rd_in s (rd_adv n r)"
  using rd_wf_adv [of r n] by (simp add: rd_in_def rd_adv_def)

lemma rd_left_adv [simp]: "rd_left (rd_adv n r) = drop n (rd_left r)"
  by (simp add: rd_left_def rd_adv_def add.commute)

lemma rd_adv_adv [simp]: "rd_adv m (rd_adv n r) = rd_adv (n + m) r"
  by (simp add: rd_adv_def add.assoc)

lemma rd_adv_sel [simp]:
  "rd_buf (rd_adv n r) = rd_buf r" "rd_pos (rd_adv n r) = rd_pos r + n"
  "rd_layer (rd_adv n r) = rd_layer r"
  by (simp_all add: rd_adv_def)

lemma rd_new_sel [simp]: "rd_buf (rd_new s l) = s" "rd_pos (rd_new s l) = 0" "rd_layer (rd_new s l) = l"
  by (simp_all add: rd_new_def)

section \<open>Each operation on the unread bytes\<close>

lemma rd_need_eq [rd_eqs]:
  "rd_need r n = (if length (rd_left r) < n
     then Err (Truncated (rd_layer r) n (length (rd_left r))) else Ok ())"
  by (simp add: rd_need_def rd_remaining_left)

lemma rd_left_nth: "i < length (rd_left r) \<Longrightarrow> rd_left r ! i = sl_bytes (rd_buf r) ! (rd_pos r + i)"
  by (simp add: rd_left_def)

lemma rd_pos_less: "0 < length (rd_left r) \<Longrightarrow> rd_pos r < length (sl_bytes (rd_buf r))"
  by (simp add: rd_left_def)

lemma rd_u8_eq [rd_eqs]:
  "rd_u8 r = (case rd_left r of
     [] \<Rightarrow> Err (Truncated (rd_layer r) 1 0) | b # _ \<Rightarrow> Ok (b, rd_adv 1 r))"
proof (cases "rd_left r")
  case (Cons b bs)
  then have "rd_pos r < length (sl_bytes (rd_buf r))" "sl_bytes (rd_buf r) ! rd_pos r = b"
    using rd_left_nth [of 0 r] rd_pos_less [of r] by auto
  with Cons show ?thesis by (simp add: rd_u8_def rd_need_eq rd_adv_def)
qed (simp add: rd_u8_def rd_need_eq)

lemma rd_peek_u8_eq [rd_eqs]:
  "rd_peek_u8 r = (case rd_left r of
     [] \<Rightarrow> Err (Truncated (rd_layer r) 1 0) | b # _ \<Rightarrow> Ok b)"
proof (cases "rd_left r")
  case (Cons b bs)
  then have "rd_pos r < length (sl_bytes (rd_buf r))" "sl_bytes (rd_buf r) ! rd_pos r = b"
    using rd_left_nth [of 0 r] rd_pos_less [of r] by auto
  with Cons show ?thesis by (simp add: rd_peek_u8_def rd_need_eq)
qed (simp add: rd_peek_u8_def rd_need_eq)

lemma rd_array_eq [rd_eqs]:
  assumes "rd_wf r"
  shows "rd_array n r = (if length (rd_left r) < n
     then Err (Truncated (rd_layer r) n (length (rd_left r)))
     else Ok (take n (rd_left r), rd_adv n r))"
  using assms by (auto simp: rd_array_def rd_need_eq rd_wf_def rd_left_def rd_adv_def sl_len_def)

lemma rd_take_eq [rd_eqs]:
  assumes "rd_wf r"
  shows "rd_take n r = (if length (rd_left r) < n
     then Err (Truncated (rd_layer r) n (length (rd_left r)))
     else Ok (Slice (sl_addr (rd_buf r) + rd_pos r) (take n (rd_left r)), rd_adv n r))"
  using assms
  by (auto simp: rd_take_def rd_need_eq rd_wf_def rd_left_def rd_adv_def sl_range_def sl_len_def)

lemma rd_skip_eq [rd_eqs]:
  "rd_skip n r = (if length (rd_left r) < n
     then Err (Truncated (rd_layer r) n (length (rd_left r))) else Ok (rd_adv n r))"
  by (simp add: rd_skip_def rd_need_eq rd_adv_def)

lemma take_two: "2 \<le> length xs \<Longrightarrow> \<exists>a b ys. xs = a # b # ys"
  by (cases xs; cases "tl xs") auto

lemma rd_be_u16_eq [rd_eqs]:
  assumes "rd_wf r"
  shows "rd_be_u16 r = (if length (rd_left r) < 2
     then Err (Truncated (rd_layer r) 2 (length (rd_left r)))
     else Ok (be16 (rd_left r ! 0) (rd_left r ! 1), rd_adv 2 r))"
  using assms by (simp add: rd_be_u16_def rd_array_eq)

lemma rd_be_u24_eq [rd_eqs]:
  assumes "rd_wf r"
  shows "rd_be_u24 r = (if length (rd_left r) < 3
     then Err (Truncated (rd_layer r) 3 (length (rd_left r)))
     else Ok (be32 0 (rd_left r ! 0) (rd_left r ! 1) (rd_left r ! 2), rd_adv 3 r))"
  using assms by (simp add: rd_be_u24_def rd_array_eq)

lemma rd_be_u32_eq [rd_eqs]:
  assumes "rd_wf r"
  shows "rd_be_u32 r = (if length (rd_left r) < 4
     then Err (Truncated (rd_layer r) 4 (length (rd_left r)))
     else Ok (be32 (rd_left r ! 0) (rd_left r ! 1) (rd_left r ! 2) (rd_left r ! 3), rd_adv 4 r))"
  using assms by (simp add: rd_be_u32_def rd_array_eq)

lemma rd_rest_eq [rd_eqs]:
  assumes "rd_wf r"
  shows "rd_rest r = Ok (Slice (sl_addr (rd_buf r) + rd_pos r) (rd_left r), rd_adv (length (rd_left r)) r)"
  using assms by (simp add: rd_rest_def sl_drop_def rd_wf_def rd_left_def rd_adv_def sl_len_def)

lemma rd_sub_eq [rd_eqs]:
  assumes "rd_wf r"
  shows "rd_sub n l r = (if length (rd_left r) < n
     then Err (Truncated (rd_layer r) n (length (rd_left r)))
     else Ok (rd_new (Slice (sl_addr (rd_buf r) + rd_pos r) (take n (rd_left r))) l, rd_adv n r))"
  using assms by (simp add: rd_sub_def rd_take_eq)

text \<open>The reader after \<open>limit\<close> still starts at the same position and sees at most \<open>n\<close> more bytes.\<close>

definition rd_lim :: "nat \<Rightarrow> reader \<Rightarrow> reader" where
  "rd_lim n r =
     r\<lparr>rd_buf := Slice (sl_addr (rd_buf r)) (take (rd_pos r + n) (sl_bytes (rd_buf r)))\<rparr>"

lemma rd_limit_eq [rd_eqs]: "rd_limit n r = Ok (rd_lim n r)"
  by (simp add: rd_limit_def Let_def sl_range_def rd_lim_def sl_len_def min_def)

lemma rd_lim_simps [simp]:
  "rd_left (rd_lim n r) = take n (rd_left r)" "rd_pos (rd_lim n r) = rd_pos r"
  "sl_addr (rd_buf (rd_lim n r)) = sl_addr (rd_buf r)" "rd_layer (rd_lim n r) = rd_layer r"
  by (simp_all add: rd_lim_def rd_left_def drop_take)

lemma rd_wf_lim [simp]: "rd_wf r \<Longrightarrow> rd_wf (rd_lim n r)"
  by (simp add: rd_wf_def rd_lim_def sl_len_def)

lemma take_of_prefix: "xs = take (length xs) ys \<Longrightarrow> k \<le> length xs \<Longrightarrow> take k xs = take k ys"
  by (metis min.absorb1 take_take)

lemma rd_in_lim:
  assumes "rd_in s r" shows "rd_in s (rd_lim n r)"
proof -
  let ?b = "sl_bytes (rd_buf r)"
  from assms have b: "?b = take (length ?b) (sl_bytes s)" and w: "rd_wf (rd_lim n r)"
    by (simp_all add: rd_in_def sl_len_def)
  have "take (rd_pos r + n) ?b = take (min (rd_pos r + n) (length ?b)) ?b" by (simp add: min_def)
  also have "\<dots> = take (min (rd_pos r + n) (length ?b)) (sl_bytes s)"
    by (rule take_of_prefix [OF b]) simp
  finally have t: "take (rd_pos r + n) ?b = take (min (rd_pos r + n) (length ?b)) (sl_bytes s)" .
  moreover have "length (take (rd_pos r + n) ?b) = min (rd_pos r + n) (length ?b)"
    by (simp add: min.commute)
  ultimately have "take (rd_pos r + n) ?b = take (length (take (rd_pos r + n) ?b)) (sl_bytes s)"
    by metis
  then show ?thesis
    using assms w by (auto simp: rd_in_def rd_lim_def sl_len_def)
qed

section \<open>Safety rules\<close>

lemma rd_left_subslice:
  assumes "rd_in s r" and "n \<le> length (rd_left r)"
  shows "subslice (Slice (sl_addr (rd_buf r) + rd_pos r) (take n (rd_left r))) s"
proof -
  let ?b = "sl_bytes (rd_buf r)"
  from assms have b: "?b = take (length ?b) (sl_bytes s)" and le: "rd_pos r + n \<le> length ?b"
    by (auto simp: rd_in_def sl_len_def rd_left_def rd_wf_def)
  have "take n (rd_left r) = drop (rd_pos r) (take (rd_pos r + n) ?b)"
    by (simp add: rd_left_def drop_take)
  also have "take (rd_pos r + n) ?b = take (rd_pos r + n) (sl_bytes s)"
    by (rule take_of_prefix [OF b le])
  finally have "take n (rd_left r) = take n (drop (rd_pos r) (sl_bytes s))"
    by (simp add: drop_take)
  moreover have "length (take n (rd_left r)) = n" using assms by simp
  ultimately show ?thesis
    using assms le by (simp only: subslice_def rd_in_def sl_len_def slice.sel) simp
qed

lemma safe_rd_u8 [safe_rules]: "rd_in s r \<Longrightarrow> safe (\<lambda>(v, r'). rd_in s r') (rd_u8 r)"
  by (auto simp: rd_u8_eq intro: rd_in_adv split: list.splits)

lemma safe_rd_peek_u8 [safe_rules]: "safe (\<lambda>v. True) (rd_peek_u8 r)"
  by (simp add: rd_peek_u8_eq split: list.splits)

lemma safe_rd_be_u16 [safe_rules]: "rd_in s r \<Longrightarrow> safe (\<lambda>(v, r'). rd_in s r') (rd_be_u16 r)"
  by (auto simp: rd_be_u16_eq rd_in_wf intro: rd_in_adv)

lemma safe_rd_be_u24 [safe_rules]: "rd_in s r \<Longrightarrow> safe (\<lambda>(v, r'). rd_in s r') (rd_be_u24 r)"
  by (auto simp: rd_be_u24_eq rd_in_wf intro: rd_in_adv)

lemma safe_rd_be_u32 [safe_rules]: "rd_in s r \<Longrightarrow> safe (\<lambda>(v, r'). rd_in s r') (rd_be_u32 r)"
  by (auto simp: rd_be_u32_eq rd_in_wf intro: rd_in_adv)

lemma safe_rd_array [safe_rules]:
  "rd_in s r \<Longrightarrow> safe (\<lambda>(v, r'). length v = n \<and> rd_in s r') (rd_array n r)"
  by (auto simp: rd_array_eq rd_in_wf intro: rd_in_adv)

lemma safe_rd_skip [safe_rules]: "rd_in s r \<Longrightarrow> safe (rd_in s) (rd_skip n r)"
  by (auto simp: rd_skip_eq intro: rd_in_adv)

lemma safe_rd_limit [safe_rules]: "rd_in s r \<Longrightarrow> safe (rd_in s) (rd_limit n r)"
  by (auto simp: rd_limit_eq intro: rd_in_lim)

lemma safe_rd_take [safe_rules]:
  "rd_in s r \<Longrightarrow> safe (\<lambda>(v, r'). subslice v s \<and> rd_in s r') (rd_take n r)"
  by (auto simp: rd_take_eq rd_in_wf intro: rd_in_adv rd_left_subslice)

lemma safe_rd_sub [safe_rules]:
  "rd_in s r \<Longrightarrow> safe (\<lambda>(v, r'). (\<exists>s'. rd_in s' v) \<and> rd_in s r') (rd_sub n l r)"
  by (auto simp: rd_sub_eq rd_in_wf intro: rd_in_adv rd_in_new)

lemma safe_rd_rest [safe_rules]: "rd_in s r \<Longrightarrow> safe (\<lambda>(v, r'). subslice v s) (rd_rest r)"
  using rd_left_subslice [of s r "length (rd_left r)"] by (simp add: rd_rest_eq rd_in_wf)

text \<open>
  The same rules fused with the sequencing, so that \<open>intro safe_steps\<close> walks down a decoder in
  one pass without rewriting the rest of it.
\<close>

lemma step_rd_u8 [safe_steps]:
  "rd_in s r \<Longrightarrow> (\<And>v r'. rd_in s r' \<Longrightarrow> safe Q (k v r')) \<Longrightarrow> safe Q (and_then (rd_u8 r) (\<lambda>(v, r'). k v r'))"
  by (rule safe_and_then_pair [OF safe_rd_u8]) auto

lemma step_rd_be_u16 [safe_steps]:
  "rd_in s r \<Longrightarrow> (\<And>v r'. rd_in s r' \<Longrightarrow> safe Q (k v r')) \<Longrightarrow> safe Q (and_then (rd_be_u16 r) (\<lambda>(v, r'). k v r'))"
  by (rule safe_and_then_pair [OF safe_rd_be_u16]) auto

lemma step_rd_be_u24 [safe_steps]:
  "rd_in s r \<Longrightarrow> (\<And>v r'. rd_in s r' \<Longrightarrow> safe Q (k v r')) \<Longrightarrow> safe Q (and_then (rd_be_u24 r) (\<lambda>(v, r'). k v r'))"
  by (rule safe_and_then_pair [OF safe_rd_be_u24]) auto

lemma step_rd_be_u32 [safe_steps]:
  "rd_in s r \<Longrightarrow> (\<And>v r'. rd_in s r' \<Longrightarrow> safe Q (k v r')) \<Longrightarrow> safe Q (and_then (rd_be_u32 r) (\<lambda>(v, r'). k v r'))"
  by (rule safe_and_then_pair [OF safe_rd_be_u32]) auto

lemma step_rd_array [safe_steps]:
  "rd_in s r \<Longrightarrow> (\<And>v r'. length v = n \<Longrightarrow> rd_in s r' \<Longrightarrow> safe Q (k v r')) \<Longrightarrow>
     safe Q (and_then (rd_array n r) (\<lambda>(v, r'). k v r'))"
  by (rule safe_and_then_pair [OF safe_rd_array]) auto

lemma step_rd_skip [safe_steps]:
  "rd_in s r \<Longrightarrow> (\<And>r'. rd_in s r' \<Longrightarrow> safe Q (k r')) \<Longrightarrow> safe Q (and_then (rd_skip n r) k)"
  by (rule safe_and_then [OF safe_rd_skip])

lemma step_rd_limit_if [safe_steps]:
  "rd_in s r \<Longrightarrow> (\<And>r'. rd_in s r' \<Longrightarrow> safe Q (k r')) \<Longrightarrow>
     safe Q (and_then (if c then rd_limit n r else Ok r) k)"
  by (rule safe_and_then [where P = "rd_in s"]) (auto intro: safe_rd_limit)

lemma step_rd_take [safe_steps]:
  "rd_in s r \<Longrightarrow> (\<And>v r'. subslice v s \<Longrightarrow> rd_in s r' \<Longrightarrow> safe Q (k v r')) \<Longrightarrow>
     safe Q (and_then (rd_take n r) (\<lambda>(v, r'). k v r'))"
  by (rule safe_and_then_pair [OF safe_rd_take]) auto

lemma step_rd_sub [safe_steps]:
  "rd_in s r \<Longrightarrow> (\<And>v r' s'. rd_in s' v \<Longrightarrow> rd_in s r' \<Longrightarrow> safe Q (k v r')) \<Longrightarrow>
     safe Q (and_then (rd_sub n l r) (\<lambda>(v, r'). k v r'))"
  by (rule safe_and_then_pair [OF safe_rd_sub]) auto

lemma step_rd_rest [safe_steps]:
  "rd_in s r \<Longrightarrow> (\<And>v r'. subslice v s \<Longrightarrow> safe Q (k v r')) \<Longrightarrow>
     safe Q (and_then (rd_rest r) (\<lambda>(v, r'). k v r'))"
  by (rule safe_and_then_pair [OF safe_rd_rest]) auto

text \<open>
  The same steps again, keeping the reader as \<open>rd_adv n\<close> of the first one: with them
  \<open>intro adv_steps\<close> computes the exact position of every field.
\<close>

lemma safe_let_eq [adv_steps]: "(\<And>x. x = t \<Longrightarrow> safe P (k x)) \<Longrightarrow> safe P (Let t k)"
  by (simp add: Let_def)

lemma safe_if_cond [adv_steps]: "(c \<Longrightarrow> safe P m) \<Longrightarrow> (\<not> c \<Longrightarrow> safe P n) \<Longrightarrow> safe P (if c then m else n)"
  by simp

lemmas adv_ends [adv_steps] = safe_Ok_step safe_Err

lemma rd_wf_adv_iff: "rd_wf r \<Longrightarrow> rd_wf (rd_adv n r) \<longleftrightarrow> n \<le> length (rd_left r)"
  by (auto simp: rd_wf_def rd_adv_def rd_left_def sl_len_def)

lemma rd_wf_adv_new: "rd_wf (rd_adv n (rd_new s l)) \<longleftrightarrow> n \<le> sl_len s"
  by (simp add: rd_wf_def)

lemma adv_rd_u8 [adv_steps]:
  "rd_wf r \<Longrightarrow> (\<And>v. rd_wf (rd_adv 1 r) \<Longrightarrow> safe Q (k v (rd_adv 1 r))) \<Longrightarrow>
     safe Q (and_then (rd_u8 r) (\<lambda>(v, r'). k v r'))"
  by (cases "rd_left r") (simp_all add: rd_u8_eq rd_wf_adv_iff)

lemma adv_rd_be_u16 [adv_steps]:
  "rd_wf r \<Longrightarrow> (\<And>v. rd_wf (rd_adv 2 r) \<Longrightarrow> safe Q (k v (rd_adv 2 r))) \<Longrightarrow>
     safe Q (and_then (rd_be_u16 r) (\<lambda>(v, r'). k v r'))"
  by (simp add: rd_be_u16_eq rd_wf_adv_iff)

lemma adv_rd_be_u32 [adv_steps]:
  "rd_wf r \<Longrightarrow> (\<And>v. rd_wf (rd_adv 4 r) \<Longrightarrow> safe Q (k v (rd_adv 4 r))) \<Longrightarrow>
     safe Q (and_then (rd_be_u32 r) (\<lambda>(v, r'). k v r'))"
  by (simp add: rd_be_u32_eq rd_wf_adv_iff)

lemma adv_rd_array [adv_steps]:
  "rd_wf r \<Longrightarrow> (\<And>v. length v = n \<Longrightarrow> rd_wf (rd_adv n r) \<Longrightarrow> safe Q (k v (rd_adv n r))) \<Longrightarrow>
     safe Q (and_then (rd_array n r) (\<lambda>(v, r'). k v r'))"
  by (simp add: rd_array_eq rd_wf_adv_iff)

lemma adv_rd_skip [adv_steps]:
  "rd_wf r \<Longrightarrow> (rd_wf (rd_adv n r) \<Longrightarrow> safe Q (k (rd_adv n r))) \<Longrightarrow> safe Q (and_then (rd_skip n r) k)"
  by (simp add: rd_skip_eq rd_wf_adv_iff)

lemma adv_rd_limit_if [adv_steps]:
  "rd_wf r \<Longrightarrow> (c \<Longrightarrow> rd_wf (rd_lim n r) \<Longrightarrow> safe Q (k (rd_lim n r))) \<Longrightarrow> (\<not> c \<Longrightarrow> safe Q (k r)) \<Longrightarrow>
     safe Q (and_then (if c then rd_limit n r else Ok r) k)"
  by (simp add: rd_limit_eq)

lemma adv_rd_rest [adv_steps]:
  "rd_wf r \<Longrightarrow> (\<And>r'. safe Q (k (Slice (sl_addr (rd_buf r) + rd_pos r) (rd_left r)) r')) \<Longrightarrow>
     safe Q (and_then (rd_rest r) (\<lambda>(v, r'). k v r'))"
  by (simp add: rd_rest_eq)

text \<open>Progress of the reads the decoders loop on.\<close>

lemma rd_u8_progress: "rd_u8 r = Ok (v, r') \<Longrightarrow> Suc (rd_remaining r') = rd_remaining r"
  by (auto simp: rd_u8_eq rd_remaining_left split: list.splits)

lemma rd_sub_progress: "rd_sub n l r = Ok (d, r') \<Longrightarrow> rd_remaining r' \<le> rd_remaining r"
  by (auto simp: rd_sub_def rd_take_def sl_range_def rd_remaining_def rd_need_def split: if_splits)

end
