(* ===== verification/Calendar.thy ===== *)
theory Calendar
  imports Main
begin

text \<open>
  The calendar the timestamp rendering is checked against.  \<open>leap\<close>, \<open>days_in_month\<close> and
  \<open>next_date\<close> are the proleptic Gregorian rules; the rest is the arithmetic of the 400-year era:
  the year formula of \<open>civil_from_days\<close> hits the right year (\<open>year_of_era_bounds\<close>), the month
  formula is the month table (\<open>month_day_table\<close>), and one more day of the era is the next date
  (\<open>civil_of_doe_next\<close>).
\<close>

definition year_of_era :: "int \<Rightarrow> int" where
  "year_of_era doe = (doe - doe div 1460 + doe div 36524 - doe div 146096) div 365"

definition leap :: "int \<Rightarrow> bool" where
  "leap y \<longleftrightarrow> y mod 4 = 0 \<and> (y mod 100 \<noteq> 0 \<or> y mod 400 = 0)"

lemma year_of_era_bounds:
  assumes "0 \<le> doe" "doe < 146097"
  defines "y \<equiv> year_of_era doe"
  defines "doy \<equiv> doe - (365 * y + y div 4 - y div 100)"
  shows "0 \<le> y \<and> y < 400 \<and> 0 \<le> doy \<and> doy < (if leap (y + 1) then 366 else 365)"
proof (cases "doe = 146096")
  case True
  then show ?thesis by (simp add: y_def doy_def year_of_era_def leap_def)
next
  case False
  define a where "a = doe div 1460"
  define b where "b = doe mod 1460"
  define c where "c = doe div 36524"
  have d: "doe = 1460 * a + b" by (simp add: a_def b_def)
  have b: "0 \<le> b" "b < 1460" by (simp_all add: b_def)
  have c: "36524 * c \<le> doe" "doe < 36524 * (c + 1)" "0 \<le> c" "c \<le> 3"
    using assms False by (auto simp: c_def)
  have a: "0 \<le> a" using assms by (simp add: a_def)
  define k where "k = (b - a + c) div 365"
  have z: "doe div 146096 = 0" using assms False by simp
  have "doe - doe div 1460 + doe div 36524 - doe div 146096 = (b - a + c) + 365 * (4 * a)"
    unfolding z a_def [symmetric] c_def [symmetric] using d by simp
  then have y: "y = 4 * a + k"
    by (simp add: y_def year_of_era_def k_def)
  have k: "365 * k \<le> b - a + c" "b - a + c < 365 * k + 365"
    unfolding k_def by (simp_all add: minus_mod_eq_mult_div [symmetric])
  have c4: "c = 0 \<or> c = 1 \<or> c = 2 \<or> c = 3" using c by arith
  have a': "a \<le> 25 * c + 25" "25 * c \<le> a" using c d b by auto
  have kk: "k = -1 \<or> k = 0 \<or> k = 1 \<or> k = 2 \<or> k = 3"
  proof -
    have "-1 \<le> k" using k b a' c4 by auto
    moreover have "k \<le> 3"
    proof (rule ccontr)
      assume "\<not> k \<le> 3"
      then have "1460 \<le> b - a + c" using k by auto
      then show False using b a' c4 by auto
    qed
    ultimately show ?thesis by arith
  qed
  have y4: "y div 4 = a + (if k = -1 then -1 else 0)"
    using kk by (elim disjE) (simp_all add: y)
  have hi: "y \<le> 100 * c + 99"
  proof (cases "a = 25 * c + 25")
    case True
    with d c have "b < 24 * (c + 1)" by simp
    with True have "b - a + c < 0" by simp
    with k have "k < 0" by linarith
    with True y show ?thesis by simp
  next
    case False
    with a' kk y show ?thesis by auto
  qed
  have lo: "100 * c \<le> y"
  proof (cases "a = 25 * c")
    case True
    with d c have "24 * c \<le> b" by simp
    with True have "0 \<le> b - a + c" by simp
    with k have "0 \<le> k" by linarith
    with True y show ?thesis by simp
  next
    case False
    with a' kk y show ?thesis by auto
  qed
  have y100: "y div 100 = c"
    using lo hi by (intro int_div_pos_eq [of y 100 c "y - 100 * c"]) auto
  have doy: "doy = b - a + c - 365 * k + (if k = -1 then 1 else 0)"
    unfolding doy_def y4 y100 using y d by simp
  show ?thesis
  proof (cases "k = -1")
    case True
    have "leap (y + 1)" if "doy = 365"
    proof -
      have ba: "b = a - c - 1" using that doy True by simp
      have "a \<noteq> 25 * c + 25"
        using ba d c by auto
      moreover have "a \<noteq> 25 * c" using True y lo by auto
      ultimately have "25 * c < a" "a < 25 * c + 25" using a' by auto
      then have "a mod 25 \<noteq> 0" by presburger
      then have "(4 * a) mod 100 \<noteq> 0" by presburger
      then show ?thesis using y True by (simp add: leap_def)
    qed
    moreover have "0 \<le> doy \<and> doy \<le> 365" using True doy k by auto
    ultimately show ?thesis using lo hi c by (cases "doy = 365") auto
  next
    case False
    then show ?thesis using lo hi doy k c by auto
  qed
qed

definition days_in_month :: "int \<Rightarrow> int \<Rightarrow> int" where
  "days_in_month y m =
     (if m = 2 then (if leap y then 29 else 28)
      else if m = 4 \<or> m = 6 \<or> m = 9 \<or> m = 11 then 30 else 31)"

fun next_date :: "int \<times> int \<times> int \<Rightarrow> int \<times> int \<times> int" where
  "next_date (y, m, d) =
     (if d < days_in_month y m then (y, m, d + 1)
      else if m < 12 then (y, m + 1, 1) else (y + 1, 1, 1))"

definition month_day :: "int \<Rightarrow> int \<times> int" where
  "month_day doy =
     (let mp = (5 * doy + 2) div 153
      in (if mp < 10 then mp + 3 else mp - 9, doy - (153 * mp + 2) div 5 + 1))"

lemma month_day_table:
  assumes "0 \<le> doy" "doy \<le> 365"
  shows "month_day doy =
    (if doy < 31 then (3, doy + 1) else if doy < 61 then (4, doy - 30)
     else if doy < 92 then (5, doy - 60) else if doy < 122 then (6, doy - 91)
     else if doy < 153 then (7, doy - 121) else if doy < 184 then (8, doy - 152)
     else if doy < 214 then (9, doy - 183) else if doy < 245 then (10, doy - 213)
     else if doy < 275 then (11, doy - 244) else if doy < 306 then (12, doy - 274)
     else if doy < 337 then (1, doy - 305) else (2, doy - 336))"
proof -
  define mp where "mp = (5 * doy + 2) div 153"
  have b: "153 * mp \<le> 5 * doy + 2" "5 * doy + 2 < 153 * mp + 153"
    unfolding mp_def by (simp_all add: minus_mod_eq_mult_div [symmetric])
  have "mp = 0 \<or> mp = 1 \<or> mp = 2 \<or> mp = 3 \<or> mp = 4 \<or> mp = 5 \<or> mp = 6 \<or> mp = 7 \<or> mp = 8 \<or>
      mp = 9 \<or> mp = 10 \<or> mp = 11"
  proof -
    have "0 \<le> mp" "mp \<le> 11" using b assms by linarith+
    then show ?thesis by arith
  qed
  then show ?thesis
    unfolding month_day_def mp_def [symmetric] Let_def using b by (elim disjE) simp_all
qed

definition year_start :: "int \<Rightarrow> int" where
  "year_start y = 365 * y + y div 4 - y div 100"

definition year_len :: "int \<Rightarrow> int" where
  "year_len y = (if leap (y + 1) then 366 else 365)"

lemma div_succ:
  assumes k: "0 < (k :: int)"
  shows "(y + 1) div k = y div k + (if (y + 1) mod k = 0 then 1 else 0)"
proof -
  define q r where "q = y div k" and "r = y mod k"
  have y: "y = k * q + r" and r: "0 \<le> r" "r < k" using k by (simp_all add: q_def r_def)
  show ?thesis
  proof (cases "r + 1 = k")
    case True
    then have "y + 1 = k * (q + 1)" using y by (simp add: algebra_simps)
    then show ?thesis using k by (simp add: q_def)
  next
    case False
    then have "(y + 1) div k = q" "(y + 1) mod k = r + 1"
      using y r int_div_pos_eq [of "y + 1" k q "r + 1"] int_mod_pos_eq [of "y + 1" k q "r + 1"] by auto
    then show ?thesis using r by (simp add: q_def)
  qed
qed

lemma year_start_next: "0 \<le> y \<Longrightarrow> y < 399 \<Longrightarrow> year_start (y + 1) = year_start y + year_len y"
proof -
  assume y: "0 \<le> y" "y < 399"
  then have n: "(y + 1) mod 400 \<noteq> 0" by simp
  have "(y + 1) mod 100 = 0 \<Longrightarrow> (y + 1) mod 4 = 0" by presburger
  with n show ?thesis
    by (auto simp: year_start_def year_len_def leap_def div_succ)
qed

lemma year_start_mono: "a \<le> b \<Longrightarrow> year_start a \<le> year_start b"
proof -
  assume ab: "a \<le> b"
  have "b div 100 \<le> (a + 100 * (b - a)) div 100" using ab by (intro zdiv_mono1) auto
  then have "b div 100 \<le> a div 100 + (b - a)" by simp
  moreover have "a div 4 \<le> b div 4" using ab by (rule zdiv_mono1) simp
  ultimately show ?thesis using ab by (simp add: year_start_def)
qed

lemma year_of_era_eq:
  assumes "0 \<le> y" "y < 400" "year_start y \<le> doe" "doe < year_start y + year_len y"
  shows "year_of_era doe = y"
proof -
  let ?y = "year_of_era doe"
  have "0 \<le> year_start y" using year_start_mono [of 0 y] assms by (simp add: year_start_def)
  moreover have "year_start y + year_len y \<le> 146097"
  proof (cases "y = 399")
    case False
    then have "year_start y + year_len y = year_start (y + 1)" using assms by (simp add: year_start_next)
    also have "\<dots> \<le> year_start 399" using assms False by (intro year_start_mono) simp
    also have "year_start 399 \<le> 146097" by (simp add: year_start_def)
    finally show ?thesis .
  qed (simp add: year_start_def year_len_def leap_def)
  ultimately have r: "0 \<le> doe" "doe < 146097" using assms by auto
  have b: "0 \<le> ?y" "?y < 400" "year_start ?y \<le> doe" "doe < year_start ?y + year_len ?y"
    using year_of_era_bounds [OF r] by (auto simp: year_start_def year_len_def)
  have False if "u < v" "v < 400" "0 \<le> u" "doe < year_start u + year_len u" "year_start v \<le> doe" for u v
    using that year_start_next [of u] year_start_mono [of "u + 1" v] by auto
  from this [of y ?y] this [of ?y y] b assms show ?thesis by force
qed

definition civil_of_doe :: "int \<Rightarrow> int \<Rightarrow> int \<times> int \<times> int" where
  "civil_of_doe era doe =
     (let y = year_of_era doe; (m, d) = month_day (doe - year_start y)
      in (if m \<le> 2 then y + era * 400 + 1 else y + era * 400, m, d))"

lemma leap_era: "leap (y + era * 400 + 1) = leap (y + 1)"
proof -
  have "y + era * 400 + 1 = (y + 1) + (100 * era) * 4" "y + era * 400 + 1 = (y + 1) + (4 * era) * 100"
    "y + era * 400 + 1 = (y + 1) + era * 400" by simp_all
  then have "(y + era * 400 + 1) mod 4 = (y + 1) mod 4" "(y + era * 400 + 1) mod 100 = (y + 1) mod 100"
    "(y + era * 400 + 1) mod 400 = (y + 1) mod 400" by (metis mod_mult_self1)+
  then show ?thesis by (simp add: leap_def)
qed

lemma civil_of_doe_in_year:
  assumes "0 \<le> y" "y < 400" "0 \<le> doy" "doy < year_len y"
  shows "civil_of_doe era (year_start y + doy) =
    (let (m, d) = month_day doy in (if m \<le> 2 then y + era * 400 + 1 else y + era * 400, m, d))"
  using year_of_era_eq [of y "year_start y + doy"] assms by (simp add: civil_of_doe_def)

lemma month_ranges:
  fixes doy :: int
  shows "doy < 31 \<or> 31 \<le> doy \<and> doy < 61 \<or> 61 \<le> doy \<and> doy < 92 \<or> 92 \<le> doy \<and> doy < 122 \<or>
    122 \<le> doy \<and> doy < 153 \<or> 153 \<le> doy \<and> doy < 184 \<or> 184 \<le> doy \<and> doy < 214 \<or>
    214 \<le> doy \<and> doy < 245 \<or> 245 \<le> doy \<and> doy < 275 \<or> 275 \<le> doy \<and> doy < 306 \<or>
    306 \<le> doy \<and> doy < 337 \<or> 337 \<le> doy"
  by linarith

lemma next_month_day:
  assumes "0 \<le> doy" "doy + 1 < year_len y" "month_day doy = (m, d)"
  shows "next_date (if m \<le> 2 then y + era * 400 + 1 else y + era * 400, m, d) =
     (let (m', d') = month_day (doy + 1) in (if m' \<le> 2 then y + era * 400 + 1 else y + era * 400, m', d'))"
proof -
  have r: "doy \<le> 364" "leap (y + 1) \<or> doy < 364"
    using assms by (auto simp: year_len_def split: if_splits)
  show ?thesis
    using month_ranges [of doy] assms r month_day_table [of doy] month_day_table [of "doy + 1"]
    by (elim disjE conjE) (auto simp: days_in_month_def leap_era Let_def)
qed

text \<open>The civil date after a date, by the calendar's own rule.\<close>

lemma civil_of_doe_next:
  assumes "0 \<le> doe" "doe < 146097"
  shows "next_date (civil_of_doe era doe) =
     (if doe < 146096 then civil_of_doe era (doe + 1) else civil_of_doe (era + 1) 0)"
proof -
  let ?y = "year_of_era doe" and ?doy = "doe - year_start (year_of_era doe)"
  have b: "0 \<le> ?y" "?y < 400" "0 \<le> ?doy" "?doy < year_len ?y"
    using year_of_era_bounds [OF assms] by (auto simp: year_start_def year_len_def)
  obtain m d where md: "month_day ?doy = (m, d)" by force
  have cur: "civil_of_doe era doe = (if m \<le> 2 then ?y + era * 400 + 1 else ?y + era * 400, m, d)"
    using md by (simp add: civil_of_doe_def)
  show ?thesis
  proof (cases "?doy + 1 < year_len ?y")
    case True
    have "year_start ?y + year_len ?y \<le> 146097"
      using year_start_next [of ?y] year_start_mono [of "?y + 1" 399] b
      by (cases "?y = 399") (auto simp: year_start_def year_len_def leap_def)
    with True have "doe < 146096" by simp
    with next_month_day [OF b(3) True md] civil_of_doe_in_year [OF b(1,2) _ True, of era] b cur
    show ?thesis by (simp add: add.commute)
  next
    case False
    then have last: "?doy = year_len ?y - 1" using b by simp
    then have md': "m = 2 \<and> d = days_in_month (?y + 1) 2"
      using md month_day_table [of ?doy] by (auto simp: year_len_def days_in_month_def split: if_splits)
    then have n: "next_date (civil_of_doe era doe) = (?y + era * 400 + 1, 3, 1)"
      by (simp add: cur days_in_month_def leap_era)
    show ?thesis
    proof (cases "?y = 399")
      case True
      then have "doe = 146096" using last by (simp add: year_start_def year_len_def leap_def)
      moreover have "civil_of_doe (era + 1) 0 = (400 * (era + 1), 3, 1)"
        by (simp add: civil_of_doe_def year_of_era_def year_start_def month_day_def)
      ultimately show ?thesis using n True by simp
    next
      case False
      then have y': "?y + 1 < 400" using b by simp
      have e: "doe + 1 = year_start (?y + 1)" using last year_start_next [of ?y] b False by simp
      moreover have "year_start (?y + 1) \<le> year_start 399" using y' by (intro year_start_mono) simp
      ultimately have "doe < 146096" by (simp add: year_start_def)
      moreover have "0 < year_len (?y + 1)" by (simp add: year_len_def)
      then have "civil_of_doe era (doe + 1) = (?y + 1 + era * 400, 3, 1)"
        using civil_of_doe_in_year [of "?y + 1" 0 era] y' b e by (simp add: month_day_def)
      ultimately show ?thesis using n by simp
    qed
  qed
qed
end
