(* ===== verification/Timestamps.thy ===== *)
theory Timestamps
  imports Complex_Main RustStd Calendar
begin

text \<open>
  \<open>time.rs\<close>: UTC timestamps, the proleptic Gregorian calendar conversion behind their RFC 3339
  rendering, and the per-packet clock form.  Seconds are \<open>i64\<close> (here \<open>int\<close>), nanoseconds
  \<open>u32\<close>.  \<open>as_secs_f64\<close> is exact (\<open>rat\<close>): the rounding of \<open>f64\<close> is not modelled.  The
  calendar conversion is checked against the Gregorian rules of \<open>Calendar\<close>: day 0 is
  1970-01-01, and each further day is the next date.
\<close>

record timestamp =
  secs :: int
  nanos :: u32

definition ts_zero :: timestamp where
  "ts_zero = \<lparr>secs = 0, nanos = 0\<rparr>"

definition ts_new :: "int \<Rightarrow> u32 \<Rightarrow> timestamp" where
  "ts_new s n = \<lparr>secs = s + uint (n div 1000000000), nanos = n mod 1000000000\<rparr>"

text \<open>\<open>u32::saturating_mul\<close>\<close>

definition sat_mul32 :: "u32 \<Rightarrow> u32 \<Rightarrow> u32" where
  "sat_mul32 a b = (if unat a * unat b < 2 ^ 32 then a * b else - 1)"

definition ts_from_micros :: "int \<Rightarrow> u32 \<Rightarrow> timestamp" where
  "ts_from_micros s us = ts_new s (sat_mul32 us 1000)"

definition as_secs_f64 :: "timestamp \<Rightarrow> rat" where
  "as_secs_f64 t = of_int (secs t) + of_nat (unat (nanos t)) / 1000000000"

definition delta_secs :: "timestamp \<Rightarrow> timestamp \<Rightarrow> rat" where
  "delta_secs t earlier = as_secs_f64 t - as_secs_f64 earlier"

definition ts_is_zero :: "timestamp \<Rightarrow> bool" where
  "ts_is_zero t \<longleftrightarrow> secs t = 0 \<and> nanos t = 0"

text \<open>The derived order compares seconds, then nanoseconds.\<close>

definition ts_less :: "timestamp \<Rightarrow> timestamp \<Rightarrow> bool" where
  "ts_less a b \<longleftrightarrow> secs a < secs b \<or> (secs a = secs b \<and> nanos a < nanos b)"

definition ts_min :: "timestamp \<Rightarrow> timestamp \<Rightarrow> timestamp" where
  "ts_min a b = (if ts_less b a then b else a)"

definition ts_max :: "timestamp \<Rightarrow> timestamp \<Rightarrow> timestamp" where
  "ts_max a b = (if ts_less b a then a else b)"

text \<open>Division of \<open>i64\<close> truncates towards zero.\<close>

definition tdiv :: "int \<Rightarrow> int \<Rightarrow> int" where
  "tdiv a b = (if 0 \<le> a then a div b else - ((- a) div b))"

definition civil_from_days :: "int \<Rightarrow> int \<times> int \<times> int" where
  "civil_from_days z0 =
     (let z = z0 + 719468;
          era = tdiv (if z \<ge> 0 then z else z - 146096) 146097;
          doe = z - era * 146097;
          yoe = tdiv (doe - tdiv doe 1460 + tdiv doe 36524 - tdiv doe 146096) 365;
          y = yoe + era * 400;
          doy = doe - (365 * yoe + tdiv yoe 4 - tdiv yoe 100);
          mp = tdiv (5 * doy + 2) 153;
          d = doy - tdiv (153 * mp + 2) 5 + 1;
          m = (if mp < 10 then mp + 3 else mp - 9)
      in (if m \<le> 2 then y + 1 else y, m, d))"

text \<open>\<open>div_euclid\<close> and \<open>rem_euclid\<close> by a positive number are HOL's \<open>div\<close> and \<open>mod\<close>.\<close>

definition civil_from_unix :: "int \<Rightarrow> int \<times> int \<times> int \<times> int \<times> int \<times> int" where
  "civil_from_unix unix =
     (let days = unix div 86400; rem = unix mod 86400; (y, m, d) = civil_from_days days
      in (y, m, d, rem div 3600, rem mod 3600 div 60, rem mod 60))"

definition to_rfc3339 :: "timestamp \<Rightarrow> string" where
  "to_rfc3339 t =
     (case civil_from_unix (secs t) of (y, mo, d, h, mi, s) \<Rightarrow>
        pad_int 4 y @ ''-'' @ pad_int 2 mo @ ''-'' @ pad_int 2 d @ ''T'' @
        pad_int 2 h @ '':'' @ pad_int 2 mi @ '':'' @ pad_int 2 s @ ''.'' @
        pad0 3 (show_nat (unat (nanos t) div 1000000)) @ ''Z'')"

definition to_time_of_day :: "timestamp \<Rightarrow> string" where
  "to_time_of_day t =
     (case civil_from_unix (secs t) of (_, _, _, h, mi, s) \<Rightarrow>
        pad_int 2 h @ '':'' @ pad_int 2 mi @ '':'' @ pad_int 2 s @ ''.'' @
        pad0 6 (show_nat (unat (nanos t) div 1000)))"

section \<open>Timestamps\<close>

lemma unat_ts_new_nanos: "unat (nanos (ts_new s n)) < 1000000000"
  by (simp add: ts_new_def unat_mod)

lemma ts_new_id: "unat n < 1000000000 \<Longrightarrow> ts_new s n = \<lparr>secs = s, nanos = n\<rparr>"
proof -
  assume n: "unat n < 1000000000"
  then have "unat (n div 1000000000) = 0" by (simp add: unat_div)
  then have "n div 1000000000 = 0" by (simp only: unat_eq_zero)
  moreover have "n mod 1000000000 = n" using n by (metis calculation div_mult_mod_eq mult_zero_left add_0)
  ultimately show ?thesis by (simp add: ts_new_def)
qed

text \<open>Normalisation keeps the instant.\<close>

lemma as_secs_ts_new: "as_secs_f64 (ts_new s n) = of_int s + of_nat (unat n) / 1000000000"
proof -
  let ?k = "1000000000 :: nat"
  have d: "uint (n div 1000000000) = int (unat n div ?k)"
    by (simp add: uint_div zdiv_int)
  have m: "unat (n mod 1000000000) = unat n mod ?k"
    by (simp add: unat_mod)
  have "unat n = unat n div ?k * ?k + unat n mod ?k" by simp
  then have "(of_nat (unat n) :: rat) = of_nat (unat n div ?k) * 1000000000 + of_nat (unat n mod ?k)"
    by (metis of_nat_add of_nat_mult of_nat_numeral)
  then show ?thesis
    by (simp add: as_secs_f64_def ts_new_def d m field_simps)
qed

lemma ts_less_irrefl: "\<not> ts_less a a"
  by (simp add: ts_less_def)

lemma ts_less_trans: "ts_less a b \<Longrightarrow> ts_less b c \<Longrightarrow> ts_less a c"
  by (auto simp: ts_less_def)

lemma ts_less_total: "ts_less a b \<or> a = b \<or> ts_less b a"
  by (cases a; cases b) (auto simp: ts_less_def)

section \<open>The calendar conversion\<close>

lemma tdiv_floor_era: "tdiv (if z \<ge> 0 then z else z - 146096) 146097 = z div 146097"
proof (cases "0 \<le> z")
  case False
  define q r where "q = z div 146097" and "r = z mod 146097"
  have z: "z = 146097 * q + r" and r: "0 \<le> r" "r < 146097" by (simp_all add: q_def r_def)
  have "- (z - 146096) = 146097 * (- q) + (146096 - r)" using z by simp
  then have "(- (z - 146096)) div 146097 = - q"
    using r by (intro int_div_pos_eq [of _ _ _ "146096 - r"]) auto
  with False show ?thesis by (simp add: tdiv_def q_def)
qed (simp add: tdiv_def)

lemma tdiv_nonneg: "0 \<le> a \<Longrightarrow> tdiv a b = a div b"
  by (simp add: tdiv_def)

lemma civil_from_days_era:
  "civil_from_days z = civil_of_doe ((z + 719468) div 146097) ((z + 719468) mod 146097)"
proof -
  define n where "n = z + 719468"
  define era where "era = n div 146097"
  define doe where "doe = n mod 146097"
  have doe: "0 \<le> doe" "doe < 146097" and d: "n - era * 146097 = doe"
    by (simp_all add: doe_def era_def minus_div_mult_eq_mod)
  note b = year_of_era_bounds [OF doe]
  define doy where "doy = doe - year_start (year_of_era doe)"
  have doy: "0 \<le> doy" using b by (simp add: doy_def year_start_def)
  have num: "0 \<le> doe - doe div 1460 + doe div 36524 - doe div 146096"
  proof -
    have "doe div 1460 \<le> doe div 1" using doe by (intro zdiv_mono2) auto
    moreover have "doe div 146096 \<le> doe div 36524" using doe by (intro zdiv_mono2) auto
    ultimately show ?thesis by simp
  qed
  have yoe: "tdiv (doe - tdiv doe 1460 + tdiv doe 36524 - tdiv doe 146096) 365 = year_of_era doe"
    using doe num by (simp add: tdiv_nonneg year_of_era_def)
  have y: "0 \<le> year_of_era doe" using b by simp
  have doy_eq: "doe - (365 * year_of_era doe + tdiv (year_of_era doe) 4 - tdiv (year_of_era doe) 100) = doy"
    using y by (simp add: tdiv_nonneg doy_def year_start_def)
  have mp: "tdiv (5 * doy + 2) 153 = (5 * doy + 2) div 153" using doy by (simp add: tdiv_nonneg)
  have "0 \<le> (5 * doy + 2) div 153" using doy by (simp add: pos_imp_zdiv_nonneg_iff)
  then have dm: "tdiv (153 * ((5 * doy + 2) div 153) + 2) 5 = (153 * ((5 * doy + 2) div 153) + 2) div 5"
    by (simp add: tdiv_nonneg)
  show ?thesis
    unfolding civil_from_days_def Let_def n_def [symmetric] tdiv_floor_era era_def [symmetric] d yoe
      doy_eq mp dm civil_of_doe_def doe_def [symmetric] doy_def [symmetric] month_day_def
    by simp
qed

text \<open>
  C37. The timestamp rendering uses the real calendar: day 0 of the Unix epoch is 1970-01-01, and
  for every day number, before or after the epoch, the following day number is the following
  date of the Gregorian calendar, leap years, century years and month ends included.
\<close>

theorem civil_from_days_calendar:
  "civil_from_days 0 = (1970, 1, 1) \<and> civil_from_days (z + 1) = next_date (civil_from_days z)"
proof
  show "civil_from_days 0 = (1970, 1, 1)"
    by (simp add: civil_from_days_era civil_of_doe_def year_of_era_def year_start_def month_day_def)
  define n where "n = z + 719468"
  have n: "z + 1 + 719468 = n + 1" by (simp add: n_def)
  have doe: "0 \<le> n mod 146097" "n mod 146097 < 146097" by simp_all
  have s: "(n + 1) div 146097 = n div 146097 + (if (n + 1) mod 146097 = 0 then 1 else 0)"
    by (rule div_succ) simp
  show "civil_from_days (z + 1) = next_date (civil_from_days z)"
  proof (cases "n mod 146097 < 146096")
    case True
    then have "(n + 1) mod 146097 = n mod 146097 + 1"
      by (intro int_mod_pos_eq [of _ _ "n div 146097"]) auto
    moreover from this doe have "(n + 1) mod 146097 \<noteq> 0" by arith
    ultimately show ?thesis
      using True s civil_of_doe_next [OF doe, of "n div 146097"]
      by (simp add: civil_from_days_era n n_def [symmetric])
  next
    case False
    then have "n mod 146097 = 146096" using doe by arith
    then obtain q where "n = 146097 * q + 146096" by (metis mult_div_mod_eq)
    then have "n + 1 = 146097 * (q + 1) + 0" by simp
    then have "(n + 1) mod 146097 = 0"
      by (rule int_mod_pos_eq) simp_all
    then show ?thesis
      using False s civil_of_doe_next [OF doe, of "n div 146097"]
      by (simp add: civil_from_days_era n n_def [symmetric])
  qed
qed

end
