(* ===== verification/Human.thy ===== *)
theory Human
  imports Timestamps
begin

text \<open>
  The pretty printers at the end of \<open>time.rs\<close> and the fixed-point formatting \<open>{:.n}\<close> they rest on.
  Floating-point values are exact rationals; \<open>fmt_fixed\<close> rounds the exact value half to even, which
  is what the standard library prints for a value that a \<open>f64\<close> holds exactly.
\<close>

section \<open>Fixed-point formatting\<close>

definition round_half_even :: "'a::floor_ceiling \<Rightarrow> int" where
  "round_half_even q =
     (let n = \<lfloor>q\<rfloor>; d = q - of_int n in
      if d < 1 / 2 then n else if 1 / 2 < d then n + 1 else if even n then n else n + 1)"

definition fmt_fixed :: "nat \<Rightarrow> 'a::floor_ceiling \<Rightarrow> string" where
  "fmt_fixed digits q =
     (let n = nat (round_half_even (\<bar>q\<bar> * 10 ^ digits)) in
      (if q < 0 then ''-'' else '''') @ show_nat (n div 10 ^ digits) @
      (if digits = 0 then '''' else ''.'' @ pad0 digits (show_nat (n mod 10 ^ digits))))"

section \<open>Sizes\<close>

definition UNITS :: "string list" where
  "UNITS = [''B'', ''KiB'', ''MiB'', ''GiB'', ''TiB'', ''PiB'']"

function human_scale :: "rat \<Rightarrow> nat \<Rightarrow> rat \<times> nat" where
  "human_scale v i =
     (if 1024 \<le> v \<and> i < length UNITS - 1 then human_scale (v / 1024) (i + 1) else (v, i))"
  by auto
termination by (relation "measure (\<lambda>(v, i). length UNITS - i)") auto

declare human_scale.simps [simp del]

definition human_bytes :: "nat \<Rightarrow> string" where
  "human_bytes n =
     (let (v, i) = human_scale (of_nat n) 0 in
      if i = 0 then show_nat n @ '' B'' else fmt_fixed 1 v @ '' '' @ UNITS ! i)"

section \<open>Ratios and durations\<close>

definition human_percent :: "rat \<Rightarrow> string" where
  "human_percent ratio =
     (let pct = ratio * 100 in
      if pct \<le> 0 then ''0%''
      else if 10 \<le> pct then fmt_fixed 0 pct @ ''%''
      else if 1 \<le> pct then fmt_fixed 1 pct @ ''%''
      else if 1 / 10 \<le> pct then fmt_fixed 2 pct @ ''%''
      else if 1 / 1000 \<le> pct then fmt_fixed 3 pct @ ''%''
      else ''<0.001%'')"

text \<open>\<open>x as u64\<close> truncates; the remainder of a positive \<open>f64\<close> by a constant.\<close>

definition as_u64 :: "rat \<Rightarrow> nat" where
  "as_u64 q = nat \<lfloor>q\<rfloor>"

definition f64_rem :: "rat \<Rightarrow> rat \<Rightarrow> rat" where
  "f64_rem q m = q - of_int \<lfloor>q / m\<rfloor> * m"

definition human_duration :: "rat \<Rightarrow> string" where
  "human_duration dur =
     (if dur < 1 then fmt_fixed 0 (dur * 1000) @ ''ms''
      else if dur < 60 then fmt_fixed 1 dur @ ''s''
      else if dur < 3600 then
        show_nat (as_u64 (dur / 60)) @ ''m'' @ pad0 2 (show_nat (as_u64 (f64_rem dur 60))) @ ''s''
      else show_nat (as_u64 (dur / 3600)) @ ''h'' @
        pad0 2 (show_nat (as_u64 (f64_rem dur 3600 / 60))) @ ''m'')"

lemma floor_frac [simp]: "\<lfloor>numeral a / numeral b :: rat\<rfloor> = numeral a div numeral b"
  using floor_divide_of_int_eq [of "numeral a" "numeral b", where ?'a = rat] by simp

section \<open>What the printers promise\<close>

text \<open>The scaling loop divides by the largest power of 1024 that fits, up to the last unit.\<close>

lemma human_scale_unit:
  assumes "human_scale v i = (w, j)"
  shows "i \<le> j \<and> v = w * 1024 ^ (j - i) \<and> (i < j \<longrightarrow> 1 \<le> w) \<and> (w < 1024 \<or> length UNITS - 1 \<le> j)"
  using assms
proof (induction v i rule: human_scale.induct)
  case (1 v i)
  show ?case
  proof (cases "1024 \<le> v \<and> i < length UNITS - 1")
    case True
    then have step: "human_scale (v / 1024) (i + 1) = (w, j)"
      using "1.prems" by (simp add: human_scale.simps [of v])
    note ih = "1.IH" [OF True step]
    then have j: "j - i = Suc (j - (i + 1))" by auto
    have "1 \<le> w"
    proof (cases "i + 1 < j")
      case False
      then have "v / 1024 = w" using ih by auto
      then show ?thesis using True by auto
    qed (use ih in auto)
    then show ?thesis using ih unfolding j by (auto simp: field_simps)
  next
    case False
    then show ?thesis using "1.prems" by (auto simp: human_scale.simps [of v])
  qed
qed

text \<open>A count just below a unit is rounded up to \<open>1024.0\<close> of the smaller one.\<close>

lemma human_bytes_below_unit: "human_bytes 1048575 = ''1024.0 KiB''"
  by ((simp add: human_bytes_def human_scale.simps UNITS_def fmt_fixed_def round_half_even_def
      Let_def pad0_def digit_char_def show_nat.simps), code_simp)

lemma human_duration_minute: "human_duration 90 = ''1m30s''"
  by ((simp add: human_duration_def as_u64_def f64_rem_def pad0_def digit_char_def show_nat.simps), code_simp)

lemma human_percent_small: "human_percent (4068 / 1000000) = ''0.41%''"
  by ((simp add: human_percent_def fmt_fixed_def round_half_even_def Let_def pad0_def digit_char_def show_nat.simps), code_simp)

end
