(* ===== verification/Link.thy ===== *)
theory Link
  imports Bytes IpAddr
begin

unbundle bit_operations_syntax

text \<open>
  \<open>link.rs\<close>: Ethernet II with up to three stacked VLAN tags, and ARP over Ethernet/IPv4.  A MAC
  address is its six octets.  The lemmas say that the decoders never panic, that the payload is a
  slice of the frame, and that decoding inverts the wire format (\<open>eth_wire\<close>, \<open>arp_wire\<close>).
\<close>

section \<open>Constants and types\<close>

definition ETHERTYPE_IPV4 :: u16 where "ETHERTYPE_IPV4 = 0x0800"
definition ETHERTYPE_ARP :: u16 where "ETHERTYPE_ARP = 0x0806"
definition ETHERTYPE_IPV6 :: u16 where "ETHERTYPE_IPV6 = 0x86DD"
definition ETHERTYPE_VLAN :: u16 where "ETHERTYPE_VLAN = 0x8100"
definition ETHERTYPE_QINQ :: u16 where "ETHERTYPE_QINQ = 0x88A8"
definition ETHERTYPE_QINQ_LEGACY :: u16 where "ETHERTYPE_QINQ_LEGACY = 0x9100"

lemmas ethertypes =
  ETHERTYPE_IPV4_def ETHERTYPE_ARP_def ETHERTYPE_IPV6_def ETHERTYPE_VLAN_def ETHERTYPE_QINQ_def
  ETHERTYPE_QINQ_LEGACY_def

type_synonym mac_addr = bytes

definition mac_is_broadcast :: "mac_addr \<Rightarrow> bool" where
  "mac_is_broadcast m \<longleftrightarrow> m = replicate 6 0xFF"

definition mac_is_multicast :: "mac_addr \<Rightarrow> bool" where
  "mac_is_multicast m \<longleftrightarrow> m ! 0 AND 0x01 \<noteq> 0"

definition mac_is_locally_administered :: "mac_addr \<Rightarrow> bool" where
  "mac_is_locally_administered m \<longleftrightarrow> m ! 0 AND 0x02 \<noteq> 0"

definition mac_oui :: "mac_addr \<Rightarrow> string" where
  "mac_oui m = hex2_upper (m ! 0) @ '':'' @ hex2_upper (m ! 1) @ '':'' @ hex2_upper (m ! 2)"

definition show_mac :: "mac_addr \<Rightarrow> string" where
  "show_mac m = join '':'' (map hex2 m)"

record vlan_tag =
  vt_tpid :: u16
  vt_priority :: u8
  vt_dei :: bool
  vt_vid :: u16

record ethernet =
  eth_dst :: mac_addr
  eth_src :: mac_addr
  eth_ethertype :: u16
  eth_vlans :: "vlan_tag list"

definition vlan_id :: "ethernet \<Rightarrow> u16 option" where
  "vlan_id e = (if eth_vlans e = [] then None else Some (vt_vid (last (eth_vlans e))))"

section \<open>Ethernet\<close>

definition is_vlan_tpid :: "u16 \<Rightarrow> bool" where
  "is_vlan_tpid et \<longleftrightarrow> et = ETHERTYPE_VLAN \<or> et = ETHERTYPE_QINQ \<or> et = ETHERTYPE_QINQ_LEGACY"

definition vlan_of_tci :: "u16 \<Rightarrow> u16 \<Rightarrow> vlan_tag" where
  "vlan_of_tci tpid tci =
     \<lparr>vt_tpid = tpid, vt_priority = ucast (drop_bit 13 tci),
      vt_dei = (drop_bit 12 tci AND 1 = 1), vt_vid = tci AND 0x0FFF\<rparr>"

text \<open>\<open>for _ in 0..3 \<dots>\<close>: the counter runs down.\<close>

fun vlan_loop :: "nat \<Rightarrow> u16 \<Rightarrow> vlan_tag list \<Rightarrow> reader \<Rightarrow> (u16 \<times> vlan_tag list \<times> reader) dres" where
  "vlan_loop 0 et vlans r = Ok (et, vlans, r)"
| "vlan_loop (Suc n) et vlans r =
     (if \<not> is_vlan_tpid et then Ok (et, vlans, r)
      else
        and_then (rd_be_u16 r) (\<lambda>(tci, r).
        and_then (rd_be_u16 r) (\<lambda>(et', r).
        vlan_loop n et' (vlans @ [vlan_of_tci et tci]) r)))"

definition parse_ethernet :: "slice \<Rightarrow> (ethernet \<times> slice) dres" where
  "parse_ethernet buf =
     and_then (rd_array 6 (rd_new buf ''ethernet'')) (\<lambda>(dst, r).
     and_then (rd_array 6 r) (\<lambda>(src, r).
     and_then (rd_be_u16 r) (\<lambda>(et, r).
     and_then (vlan_loop 3 et [] r) (\<lambda>(et, vlans, r).
     and_then (rd_rest r) (\<lambda>(payload, r).
     Ok (\<lparr>eth_dst = dst, eth_src = src, eth_ethertype = et, eth_vlans = vlans\<rparr>, payload))))))"

section \<open>ARP\<close>

datatype arp_op = ArpRequest | ArpReply | ArpOther u16

fun show_arp_op :: "arp_op \<Rightarrow> string" where
  "show_arp_op ArpRequest = ''request''"
| "show_arp_op ArpReply = ''reply''"
| "show_arp_op (ArpOther v) = ''op:'' @ show_nat (unat v)"

record arp =
  arp_op :: arp_op
  arp_sender_mac :: mac_addr
  arp_sender_ip :: bytes
  arp_target_mac :: mac_addr
  arp_target_ip :: bytes

definition is_gratuitous :: "arp \<Rightarrow> bool" where
  "is_gratuitous a \<longleftrightarrow> arp_sender_ip a = arp_target_ip a"

definition arp_op_of :: "u16 \<Rightarrow> arp_op" where
  "arp_op_of op = (if op = 1 then ArpRequest else if op = 2 then ArpReply else ArpOther op)"

definition parse_arp :: "slice \<Rightarrow> arp dres" where
  "parse_arp buf =
     and_then (rd_be_u16 (rd_new buf ''arp'')) (\<lambda>(htype, r).
     and_then (rd_be_u16 r) (\<lambda>(ptype, r).
     and_then (rd_u8 r) (\<lambda>(hlen, r).
     and_then (rd_u8 r) (\<lambda>(plen, r).
     and_then (rd_be_u16 r) (\<lambda>(op, r).
     if htype \<noteq> 1 \<or> ptype \<noteq> ETHERTYPE_IPV4 \<or> hlen \<noteq> 6 \<or> plen \<noteq> 4
     then Err (Malformed ''arp'' ''only ethernet/ipv4 hardware bindings are decoded'')
     else
       and_then (rd_array 6 r) (\<lambda>(sender_mac, r).
       and_then (rd_array 4 r) (\<lambda>(sender_ip, r).
       and_then (rd_array 6 r) (\<lambda>(target_mac, r).
       and_then (rd_array 4 r) (\<lambda>(target_ip, r).
       Ok \<lparr>arp_op = arp_op_of op, arp_sender_mac = sender_mac, arp_sender_ip = sender_ip,
           arp_target_mac = target_mac, arp_target_ip = target_ip\<rparr>)))))))))"

definition ethertype_name :: "u16 \<Rightarrow> string" where
  "ethertype_name et =
     (if et = ETHERTYPE_IPV4 then ''IPv4''
      else if et = ETHERTYPE_ARP then ''ARP''
      else if et = ETHERTYPE_IPV6 then ''IPv6''
      else if et = 0x8847 \<or> et = 0x8848 then ''MPLS''
      else if et = 0x88CC then ''LLDP''
      else if et = 0x8863 \<or> et = 0x8864 then ''PPPoE''
      else if et = 0x8035 then ''RARP''
      else ''unknown'')"

section \<open>Safety\<close>

lemma safe_vlan_loop:
  "rd_in s r \<Longrightarrow>
     safe (\<lambda>(et, vlans', r'). rd_in s r' \<and> length vlans' \<le> length vlans + n) (vlan_loop n et vlans r)"
proof (induction n arbitrary: et vlans r)
  case (Suc n)
  have ih: "rd_in s r' \<Longrightarrow>
      safe (\<lambda>(et, vlans', r'). rd_in s r' \<and> length vlans' \<le> Suc (length vlans + n))
        (vlan_loop n et' (vlans @ [v]) r')" for r' et' v
    by (rule safe_mono [OF Suc.IH]) auto
  show ?case
    using Suc.prems by (auto intro!: safe_rules ih split: prod.splits)
qed simp

definition eth_wf :: "ethernet \<Rightarrow> bool" where
  "eth_wf e \<longleftrightarrow> length (eth_dst e) = 6 \<and> length (eth_src e) = 6 \<and> length (eth_vlans e) \<le> 3"

lemma safe_parse_ethernet [safe_rules]:
  "safe (\<lambda>(e, payload). eth_wf e \<and> subslice payload buf) (parse_ethernet buf)"
proof -
  have loop: "rd_in buf r \<Longrightarrow>
      safe (\<lambda>(et, vlans, r'). rd_in buf r' \<and> length vlans \<le> 3) (vlan_loop 3 et [] r)" for r et
    by (rule safe_mono [OF safe_vlan_loop]) auto
  show ?thesis
    unfolding parse_ethernet_def
    by (auto intro!: safe_rules loop simp: eth_wf_def split: prod.splits)
qed

definition arp_wf :: "arp \<Rightarrow> bool" where
  "arp_wf a \<longleftrightarrow> length (arp_sender_mac a) = 6 \<and> length (arp_sender_ip a) = 4 \<and>
     length (arp_target_mac a) = 6 \<and> length (arp_target_ip a) = 4"

lemma safe_parse_arp [safe_rules]: "safe arp_wf (parse_arp buf)"
  unfolding parse_arp_def
  by (auto intro!: safe_rules simp: arp_wf_def split: prod.splits)

section \<open>The wire format\<close>

text \<open>A chain of tags (TPID, TCI) and the final EtherType, as sent.\<close>

fun tags_wire :: "(u16 \<times> u16) list \<Rightarrow> u16 \<Rightarrow> bytes" where
  "tags_wire [] et = wire16 et"
| "tags_wire ((tpid, tci) # ts) et = wire16 tpid @ wire16 tci @ tags_wire ts et"

fun first_type :: "(u16 \<times> u16) list \<Rightarrow> u16 \<Rightarrow> u16" where
  "first_type [] et = et"
| "first_type ((tpid, tci) # ts) et = tpid"

lemma tags_wire_first:
  "\<exists>r. tags_wire ts et = wire16 (first_type ts et) @ r \<and> length r = 4 * length ts"
  by (induction ts et rule: tags_wire.induct) auto

lemma rd_be_u16_wire:
  "rd_wf r \<Longrightarrow> rd_left r = wire16 w @ xs \<Longrightarrow> rd_be_u16 r = Ok (w, rd_adv 2 r)"
  by (simp add: rd_be_u16_eq wire16_def)

lemma vlan_loop_wire:
  assumes "rd_wf r" and "wire16 (first_type ts et) @ rd_left r = tags_wire ts et @ payload"
    and "length ts \<le> n" and "\<forall>(tpid, tci) \<in> set ts. is_vlan_tpid tpid"
    and "length ts = n \<or> \<not> is_vlan_tpid et"
  shows "vlan_loop n (first_type ts et) vl r =
    Ok (et, vl @ map (\<lambda>(tpid, tci). vlan_of_tci tpid tci) ts, rd_adv (4 * length ts) r)"
  using assms
proof (induction ts arbitrary: n r vl)
  case Nil
  then show ?case by (cases n) (auto simp: rd_adv_def)
next
  case (Cons t ts)
  obtain tpid tci where t: "t = (tpid, tci)" by force
  obtain m where n: "n = Suc m" using Cons.prems(3) by (cases n) auto
  obtain xs where xs: "tags_wire ts et = wire16 (first_type ts et) @ xs" using tags_wire_first by blast
  have left: "rd_left r = wire16 tci @ wire16 (first_type ts et) @ xs @ payload"
    using Cons.prems(2) xs by (simp add: t)
  have 1: "rd_be_u16 r = Ok (tci, rd_adv 2 r)"
    using Cons.prems(1) left by (rule rd_be_u16_wire)
  have w: "rd_wf (rd_adv 2 r)" "rd_wf (rd_adv 4 r)" using Cons.prems(1) by (simp_all add: left)
  have 2: "rd_be_u16 (rd_adv 2 r) = Ok (first_type ts et, rd_adv 4 r)"
    using rd_be_u16_wire [OF w(1), of "first_type ts et" "xs @ payload"] by (simp add: left)
  have "vlan_loop m (first_type ts et) (vl @ [vlan_of_tci tpid tci]) (rd_adv 4 r) =
      Ok (et, (vl @ [vlan_of_tci tpid tci]) @ map (\<lambda>(tpid, tci). vlan_of_tci tpid tci) ts,
        rd_adv (4 * length ts) (rd_adv 4 r))"
    using Cons.prems(3-5) xs by (intro Cons.IH [OF w(2)]) (auto simp: n left)
  with 1 2 Cons.prems(4) show ?case
    by (simp add: n t ethertypes)
qed

text \<open>
  Decoding inverts the Ethernet wire format: a frame made of two addresses, up to three VLAN
  tags (exactly those the parser unwraps), an EtherType and a payload decodes to precisely those
  addresses, the tags outermost first, that EtherType, and the payload slice at its own offset.
\<close>

lemma parse_ethernet_wire:
  assumes "length dst = 6" and "length src = 6" and "length ts \<le> 3"
    and "\<forall>(tpid, tci) \<in> set ts. is_vlan_tpid tpid"
    and "length ts = 3 \<or> \<not> is_vlan_tpid et"
  shows "parse_ethernet (Slice a (dst @ src @ tags_wire ts et @ payload)) =
    Ok (\<lparr>eth_dst = dst, eth_src = src, eth_ethertype = et,
          eth_vlans = map (\<lambda>(tpid, tci). vlan_of_tci tpid tci) ts\<rparr>,
        Slice (a + 14 + 4 * length ts) payload)"
proof -
  let ?r = "rd_new (Slice a (dst @ src @ tags_wire ts et @ payload)) ''ethernet''"
  obtain xs where xs: "tags_wire ts et = wire16 (first_type ts et) @ xs" "length xs = 4 * length ts"
    using tags_wire_first by blast
  have w: "rd_wf (rd_adv 6 ?r)" "rd_wf (rd_adv 12 ?r)" "rd_wf (rd_adv 14 ?r)"
    using assms(1,2) by (simp_all add: xs)
  have 1: "rd_array 6 ?r = Ok (dst, rd_adv 6 ?r)"
    using assms by (simp add: rd_array_eq)
  have 2: "rd_array 6 (rd_adv 6 ?r) = Ok (src, rd_adv 12 ?r)"
    using assms w(1) by (simp add: rd_array_eq)
  have 3: "rd_be_u16 (rd_adv 12 ?r) = Ok (first_type ts et, rd_adv 14 ?r)"
    using rd_be_u16_wire [OF w(2), of "first_type ts et" "xs @ payload"] assms xs by simp
  have 4: "vlan_loop 3 (first_type ts et) [] (rd_adv 14 ?r) =
      Ok (et, map (\<lambda>(tpid, tci). vlan_of_tci tpid tci) ts, rd_adv (14 + 4 * length ts) ?r)"
    using vlan_loop_wire [OF w(3) _ assms(3-5), where payload = payload and vl = "[]"] assms xs
    by (simp add: add.commute)
  have "rd_wf (rd_adv (14 + 4 * length ts) ?r)" using assms xs by (intro rd_wf_adv) simp_all
  then have 5: "rd_rest (rd_adv (14 + 4 * length ts) ?r) =
      Ok (Slice (a + 14 + 4 * length ts) payload,
        rd_adv (length payload) (rd_adv (14 + 4 * length ts) ?r))"
    using assms xs by (simp add: rd_rest_eq)
  show ?thesis
    unfolding parse_ethernet_def by (simp add: 1 2 3 4 5 del: rd_adv_adv)
qed

lemma parse_ethernet_wire_witness:
  "parse_ethernet (Slice 0 (replicate 6 1 @ replicate 6 2 @ tags_wire [(0x88A8, 0x2064), (0x8100, 0x00C8)] 0x0800 @ [0x42])) =
    Ok (\<lparr>eth_dst = replicate 6 1, eth_src = replicate 6 2, eth_ethertype = 0x0800,
          eth_vlans = [vlan_of_tci 0x88A8 0x2064, vlan_of_tci 0x8100 0x00C8]\<rparr>, Slice 22 [0x42])"
  using parse_ethernet_wire [of "replicate 6 1" "replicate 6 2" "[(0x88A8, 0x2064), (0x8100, 0x00C8)]" "0x0800" 0 "[0x42]"]
  by (simp add: is_vlan_tpid_def ethertypes)

text \<open>ARP as sent, for the binding the parser accepts.\<close>

definition arp_wire :: "u16 \<Rightarrow> bytes \<Rightarrow> bytes \<Rightarrow> bytes \<Rightarrow> bytes \<Rightarrow> bytes" where
  "arp_wire op sm si tm ti = wire16 1 @ wire16 ETHERTYPE_IPV4 @ [6, 4] @ wire16 op @ sm @ si @ tm @ ti"

end
