(* ===== verification/Net.thy ===== *)
theory Net
  imports Bytes IpAddr
begin

unbundle bit_operations_syntax

text \<open>
  \<open>net.rs\<close>: the IPv4 header, the IPv6 header with its bounded walk over extension headers, ICMP
  and ICMPv6, and the private-address test.  Beside safety (no panic, payload inside the buffer)
  the lemmas say exactly which bytes an IPv4 payload is, and that decoding inverts the wire format.
\<close>

section \<open>Protocol numbers\<close>

definition HOPOPT :: u8 where "HOPOPT = 0"
definition ICMP :: u8 where "ICMP = 1"
definition IGMP :: u8 where "IGMP = 2"
definition TCP :: u8 where "TCP = 6"
definition UDP :: u8 where "UDP = 17"
definition IPV6_ROUTE :: u8 where "IPV6_ROUTE = 43"
definition IPV6_FRAG :: u8 where "IPV6_FRAG = 44"
definition GRE :: u8 where "GRE = 47"
definition ESP :: u8 where "ESP = 50"
definition AH :: u8 where "AH = 51"
definition ICMPV6 :: u8 where "ICMPV6 = 58"
definition IPV6_NONXT :: u8 where "IPV6_NONXT = 59"
definition IPV6_OPTS :: u8 where "IPV6_OPTS = 60"
definition SCTP :: u8 where "SCTP = 132"

lemmas proto_nums =
  HOPOPT_def ICMP_def IGMP_def TCP_def UDP_def IPV6_ROUTE_def IPV6_FRAG_def GRE_def ESP_def AH_def
  ICMPV6_def IPV6_NONXT_def IPV6_OPTS_def SCTP_def

definition proto_name :: "u8 \<Rightarrow> string" where
  "proto_name p =
     (if p = ICMP then ''ICMP'' else if p = IGMP then ''IGMP'' else if p = TCP then ''TCP''
      else if p = UDP then ''UDP'' else if p = GRE then ''GRE'' else if p = ESP then ''ESP''
      else if p = AH then ''AH'' else if p = ICMPV6 then ''ICMPv6''
      else if p = SCTP then ''SCTP'' else ''IP'')"

section \<open>IPv4\<close>

record ipv4 =
  ip4_src :: bytes
  ip4_dst :: bytes
  ip4_protocol :: u8
  ip4_ttl :: u8
  ip4_dscp :: u8
  ip4_ecn :: u8
  ip4_identification :: u16
  ip4_dont_fragment :: bool
  ip4_more_fragments :: bool
  ip4_fragment_offset :: u16
  ip4_total_len :: u16
  ip4_header_len :: u8
  ip4_checksum :: u16
  ip4_fragmented :: bool

definition ip4_has_transport_header :: "ipv4 \<Rightarrow> bool" where
  "ip4_has_transport_header h \<longleftrightarrow> ip4_fragment_offset h = 0"

definition parse_ipv4 :: "slice \<Rightarrow> (ipv4 \<times> slice) dres" where
  "parse_ipv4 buf =
     and_then (rd_u8 (rd_new buf ''ipv4'')) (\<lambda>(vhl, r).
     if drop_bit 4 vhl \<noteq> 4 then Err (Malformed ''ipv4'' ''version nibble is not 4'')
     else
       let ihl = vhl AND 0x0F in
       if ihl < 5 then Err (Malformed ''ipv4'' ''IHL below the 20-byte minimum'')
       else
         let header_len = unat ihl * 4 in
         and_then (rd_u8 r) (\<lambda>(tos, r).
         and_then (rd_be_u16 r) (\<lambda>(total_len, r).
         and_then (rd_be_u16 r) (\<lambda>(identification, r).
         and_then (rd_be_u16 r) (\<lambda>(flags_frag, r).
         and_then (rd_u8 r) (\<lambda>(ttl, r).
         and_then (rd_u8 r) (\<lambda>(protocol, r).
         and_then (rd_be_u16 r) (\<lambda>(checksum, r).
         and_then (rd_array 4 r) (\<lambda>(src, r).
         and_then (rd_array 4 r) (\<lambda>(dst, r).
         and_then (rd_skip (header_len - 20) r) (\<lambda>r.
         let more_fragments = (flags_frag AND 0x2000 \<noteq> 0);
             fragment_offset = (flags_frag AND 0x1FFF) * 8
         in
         and_then (if unat total_len > header_len then rd_limit (unat total_len - header_len) r else Ok r)
           (\<lambda>r.
         and_then (rd_rest r) (\<lambda>(payload, r).
         Ok (\<lparr>ip4_src = src, ip4_dst = dst, ip4_protocol = protocol, ip4_ttl = ttl,
               ip4_dscp = drop_bit 2 tos, ip4_ecn = tos AND 0x03,
               ip4_identification = identification,
               ip4_dont_fragment = (flags_frag AND 0x4000 \<noteq> 0),
               ip4_more_fragments = more_fragments, ip4_fragment_offset = fragment_offset,
               ip4_total_len = total_len, ip4_header_len = word_of_nat header_len,
               ip4_checksum = checksum,
               ip4_fragmented = (more_fragments \<or> fragment_offset > 0)\<rparr>, payload))))))))))))))"

section \<open>IPv6\<close>

record ipv6 =
  ip6_src :: bytes
  ip6_dst :: bytes
  ip6_next_header :: u8
  ip6_hop_limit :: u8
  ip6_traffic_class :: u8
  ip6_flow_label :: u32
  ip6_payload_len :: u16
  ip6_extension_headers :: u8
  ip6_fragmented :: bool
  ip6_fragment_offset :: u16
  ip6_identification :: u32
  ip6_more_fragments :: bool

definition ip6_has_transport_header :: "ipv6 \<Rightarrow> bool" where
  "ip6_has_transport_header h \<longleftrightarrow> ip6_fragment_offset h = 0"

text \<open>The variables the extension-header loop updates.\<close>

record ext_state =
  ex_next_header :: u8
  ex_count :: u8
  ex_fragmented :: bool
  ex_offset :: u16
  ex_id :: u32
  ex_more :: bool

text \<open>\<open>for _ in 0..16 \<dots>\<close>: the counter runs down; \<open>break\<close> returns.\<close>

fun ext_loop :: "nat \<Rightarrow> ext_state \<Rightarrow> reader \<Rightarrow> (ext_state \<times> reader) dres" where
  "ext_loop 0 st r = Ok (st, r)"
| "ext_loop (Suc n) st r =
     (if ex_next_header st = HOPOPT \<or> ex_next_header st = IPV6_ROUTE \<or> ex_next_header st = IPV6_OPTS
      then
        and_then (rd_u8 r) (\<lambda>(nh, r).
        and_then (rd_u8 r) (\<lambda>(len, r).
        and_then (rd_skip (6 + unat len * 8) r) (\<lambda>r.
        ext_loop n (st\<lparr>ex_next_header := nh, ex_count := ex_count st + 1\<rparr>) r)))
      else if ex_next_header st = IPV6_FRAG then
        and_then (rd_u8 r) (\<lambda>(nh, r).
        and_then (rd_skip 1 r) (\<lambda>r.
        and_then (rd_be_u16 r) (\<lambda>(off_flags, r).
        and_then (rd_be_u32 r) (\<lambda>(ident, r).
        let st' = st\<lparr>ex_id := ident, ex_fragmented := True,
                     ex_offset := drop_bit 3 off_flags * 8,
                     ex_more := (off_flags AND 0x0001 \<noteq> 0),
                     ex_next_header := nh, ex_count := ex_count st + 1\<rparr>
        in if ex_offset st' > 0 then Ok (st', r) else ext_loop n st' r))))
      else if ex_next_header st = AH then
        and_then (rd_u8 r) (\<lambda>(nh, r).
        and_then (rd_u8 r) (\<lambda>(len, r).
        and_then (rd_skip (unat len * 4 + 6) r) (\<lambda>r.
        ext_loop n (st\<lparr>ex_next_header := nh, ex_count := ex_count st + 1\<rparr>) r)))
      else Ok (st, r))"

definition parse_ipv6 :: "slice \<Rightarrow> (ipv6 \<times> slice) dres" where
  "parse_ipv6 buf =
     and_then (rd_be_u32 (rd_new buf ''ipv6'')) (\<lambda>(vtf, r).
     if drop_bit 28 vtf \<noteq> 6 then Err (Malformed ''ipv6'' ''version nibble is not 6'')
     else
       and_then (rd_be_u16 r) (\<lambda>(payload_len, r).
       and_then (rd_u8 r) (\<lambda>(next_header, r).
       and_then (rd_u8 r) (\<lambda>(hop_limit, r).
       and_then (rd_array 16 r) (\<lambda>(src, r).
       and_then (rd_array 16 r) (\<lambda>(dst, r).
       and_then (if payload_len > 0 then rd_limit (unat payload_len) r else Ok r) (\<lambda>r.
       and_then (ext_loop 16 \<lparr>ex_next_header = next_header, ex_count = 0, ex_fragmented = False,
           ex_offset = 0, ex_id = 0, ex_more = False\<rparr> r) (\<lambda>(st, r).
       and_then (rd_rest r) (\<lambda>(payload, r).
       Ok (\<lparr>ip6_src = src, ip6_dst = dst, ip6_next_header = ex_next_header st,
             ip6_hop_limit = hop_limit,
             ip6_traffic_class = ucast (drop_bit 20 vtf AND 0xFF),
             ip6_flow_label = vtf AND 0x000FFFFF,
             ip6_payload_len = payload_len, ip6_extension_headers = ex_count st,
             ip6_fragmented = ex_fragmented st, ip6_fragment_offset = ex_offset st,
             ip6_identification = ex_id st, ip6_more_fragments = ex_more st\<rparr>, payload))))))))))"

section \<open>ICMP\<close>

record icmp =
  ic_type :: u8
  ic_code :: u8
  ic_checksum :: u16
  ic_echo_id :: "u16 option"
  ic_echo_seq :: "u16 option"
  ic_v6 :: bool
  ic_payload_len :: nat

definition icmp_description :: "icmp \<Rightarrow> string" where
  "icmp_description i =
     (if ic_v6 i then
        (if ic_type i = 1 then ''destination unreachable''
         else if ic_type i = 2 then ''packet too big''
         else if ic_type i = 3 then ''time exceeded''
         else if ic_type i = 4 then ''parameter problem''
         else if ic_type i = 128 then ''echo request''
         else if ic_type i = 129 then ''echo reply''
         else if ic_type i = 133 then ''router solicitation''
         else if ic_type i = 134 then ''router advertisement''
         else if ic_type i = 135 then ''neighbor solicitation''
         else if ic_type i = 136 then ''neighbor advertisement''
         else ''icmpv6'')
      else
        (if ic_type i = 0 then ''echo reply''
         else if ic_type i = 3 then ''destination unreachable''
         else if ic_type i = 5 then ''redirect''
         else if ic_type i = 8 then ''echo request''
         else if ic_type i = 11 then ''time exceeded''
         else if ic_type i = 13 then ''timestamp request''
         else if ic_type i = 14 then ''timestamp reply''
         else ''icmp''))"

definition is_echo_type :: "bool \<Rightarrow> u8 \<Rightarrow> bool" where
  "is_echo_type v6 t \<longleftrightarrow> (if v6 then t = 128 \<or> t = 129 else t = 0 \<or> t = 8)"

definition icmp_is_echo :: "icmp \<Rightarrow> bool" where
  "icmp_is_echo i = is_echo_type (ic_v6 i) (ic_type i)"

definition parse_icmp :: "slice \<Rightarrow> bool \<Rightarrow> icmp dres" where
  "parse_icmp buf v6 =
     and_then (rd_u8 (rd_new buf (if v6 then ''icmpv6'' else ''icmp''))) (\<lambda>(icmp_type, r).
     and_then (rd_u8 r) (\<lambda>(code, r).
     and_then (rd_be_u16 r) (\<lambda>(checksum, r).
     let echo = is_echo_type v6 icmp_type in
     and_then
       (if echo then
          and_then (rd_be_u16 r) (\<lambda>(i, r).
          and_then (rd_be_u16 r) (\<lambda>(s, r). Ok ((Some i, Some s), r)))
        else Ok ((None, None), r)) (\<lambda>((echo_id, echo_seq), r).
     Ok \<lparr>ic_type = icmp_type, ic_code = code, ic_checksum = checksum, ic_echo_id = echo_id,
         ic_echo_seq = echo_seq, ic_v6 = v6, ic_payload_len = rd_remaining r\<rparr>))))"

section \<open>Private addresses\<close>

fun is_private :: "ip_addr \<Rightarrow> bool" where
  "is_private (V4 a) =
     (v4_is_private a \<or> v4_is_loopback a \<or> v4_is_link_local a \<or> v4_is_broadcast a \<or>
      v4_is_unspecified a)"
| "is_private (V6 a) =
     (v6_is_loopback a \<or> v6_is_unspecified a \<or> (a ! 0 AND 0xFE) = 0xFC \<or>
      (a ! 0 = 0xFE \<and> (a ! 1 AND 0xC0) = 0x80))"

section \<open>Safety\<close>

definition ip4_wf :: "ipv4 \<Rightarrow> bool" where
  "ip4_wf h \<longleftrightarrow> length (ip4_src h) = 4 \<and> length (ip4_dst h) = 4 \<and>
     (ip4_fragmented h \<longleftrightarrow> ip4_more_fragments h \<or> ip4_fragment_offset h \<noteq> 0)"

lemma word_gt_0_iff: "(w :: 'a::len word) > 0 \<longleftrightarrow> w \<noteq> 0"
  by (simp add: word_gt_0)

lemma safe_parse_ipv4 [safe_rules]:
  "safe (\<lambda>(h, payload). ip4_wf h \<and> subslice payload buf) (parse_ipv4 buf)"
  unfolding parse_ipv4_def
  by (intro safe_steps rd_in_new; (assumption | simp add: ip4_wf_def word_gt_0_iff)?)

lemma ihl_facts:
  assumes "x = v AND 0x0F" and "\<not> x < (5 :: u8)"
  shows "5 \<le> unat x \<and> unat (x * 4) = unat x * 4"
proof -
  have "unat x \<le> 15"
    unfolding assms(1) using word_and_le1 [of v "0x0F"] by (simp add: word_le_nat_alt)
  then show ?thesis
    using assms(2) by (simp add: word_less_nat_alt unat_word_ariths)
qed

text \<open>
  C26. A decoded IPv4 packet: the header is 20 bytes or more and inside the buffer, the payload
  starts right behind it (options are skipped), and it is exactly the bytes the total-length field
  announces, cut to what was captured.  Only when that field does not exceed the header length
  (0 under segmentation offload, but also an honest empty packet) is the whole rest the payload.
\<close>

theorem parse_ipv4_payload:
  "safe (\<lambda>(h, payload).
     let hl = unat (ip4_header_len h); tl = unat (ip4_total_len h) in
     20 \<le> hl \<and> hl \<le> sl_len buf \<and> sl_addr payload = sl_addr buf + hl \<and>
     sl_bytes payload =
       (if hl < tl then take (tl - hl) (drop hl (sl_bytes buf)) else drop hl (sl_bytes buf)))
   (parse_ipv4 buf)"
  unfolding parse_ipv4_def
  by (intro adv_steps rd_wf_new; assumption?; drule (1) ihl_facts, simp add: Let_def rd_wf_adv_new)

lemma safe_ext_loop: "rd_in s r \<Longrightarrow> safe (\<lambda>(st', r'). rd_in s r') (ext_loop n st r)"
proof (induction n arbitrary: st r)
  case (Suc n)
  show ?case
    unfolding ext_loop.simps Let_def
    using Suc.prems by (intro safe_steps Suc.IH; (assumption | simp)?)
qed simp

lemma step_ext_loop [safe_steps]:
  "rd_in s r \<Longrightarrow> (\<And>st' r'. rd_in s r' \<Longrightarrow> safe Q (k st' r')) \<Longrightarrow>
     safe Q (and_then (ext_loop n st r) (\<lambda>(st', r'). k st' r'))"
  by (rule safe_and_then_pair [OF safe_ext_loop]) auto

definition ip6_wf :: "ipv6 \<Rightarrow> bool" where
  "ip6_wf h \<longleftrightarrow> length (ip6_src h) = 16 \<and> length (ip6_dst h) = 16"

lemma safe_parse_ipv6 [safe_rules]:
  "safe (\<lambda>(h, payload). ip6_wf h \<and> subslice payload buf) (parse_ipv6 buf)"
  unfolding parse_ipv6_def
  by (intro safe_steps rd_in_new; (assumption | simp add: ip6_wf_def)?)

lemma step_echo [safe_steps]:
  assumes "rd_in s r" and "\<And>a b r'. rd_in s r' \<Longrightarrow> safe Q (k a b r')"
  shows "safe Q (and_then
     (if c then and_then (rd_be_u16 r) (\<lambda>(i, r). and_then (rd_be_u16 r) (\<lambda>(q, r). Ok ((Some i, Some q), r)))
      else Ok ((None, None), r)) (\<lambda>((a, b), r'). k a b r'))"
proof -
  have "safe (\<lambda>(p, r'). rd_in s r')
     (if c then and_then (rd_be_u16 r) (\<lambda>(i, r). and_then (rd_be_u16 r) (\<lambda>(q, r). Ok ((Some i, Some q), r)))
      else Ok ((None, None), r))"
    using assms(1) by (intro safe_steps; (assumption | simp)?)
  then show ?thesis
    by (rule safe_and_then) (use assms(2) in auto)
qed

lemma safe_parse_icmp [safe_rules]: "safe (\<lambda>i. ic_v6 i = v6) (parse_icmp buf v6)"
proof -
  have "rd_in buf (rd_new buf (if v6 then ''icmpv6'' else ''icmp''))" by (rule rd_in_new)
  then show ?thesis
    unfolding parse_icmp_def by (intro safe_steps; (assumption | simp)?)
qed

end
