(* ===== verification/Transport.thy ===== *)
theory Transport
  imports Bytes
begin

unbundle bit_operations_syntax

text \<open>
  \<open>transport.rs\<close>: TCP flags, the TCP header with its best-effort option walk, UDP, and the
  port-to-service table.  The option walk is a loop over a sub-reader that may end on malformed
  input at any point; its termination measure is the number of unread option bytes.
\<close>

section \<open>TCP flags\<close>

type_synonym tcp_flags = u8

definition FIN :: u8 where "FIN = 0x01"
definition SYN :: u8 where "SYN = 0x02"
definition RST :: u8 where "RST = 0x04"
definition PSH :: u8 where "PSH = 0x08"
definition ACK :: u8 where "ACK = 0x10"
definition URG :: u8 where "URG = 0x20"
definition ECE :: u8 where "ECE = 0x40"
definition CWR :: u8 where "CWR = 0x80"

lemmas tcp_flag_bits = FIN_def SYN_def RST_def PSH_def ACK_def URG_def ECE_def CWR_def

definition fl_has :: "tcp_flags \<Rightarrow> u8 \<Rightarrow> bool" where
  "fl_has f flag \<longleftrightarrow> f AND flag \<noteq> 0"

definition fl_syn :: "tcp_flags \<Rightarrow> bool" where "fl_syn f = fl_has f SYN"
definition fl_ack :: "tcp_flags \<Rightarrow> bool" where "fl_ack f = fl_has f ACK"
definition fl_fin :: "tcp_flags \<Rightarrow> bool" where "fl_fin f = fl_has f FIN"
definition fl_rst :: "tcp_flags \<Rightarrow> bool" where "fl_rst f = fl_has f RST"

definition is_syn_only :: "tcp_flags \<Rightarrow> bool" where
  "is_syn_only f \<longleftrightarrow> fl_syn f \<and> \<not> fl_ack f"

lemmas flag_defs = is_syn_only_def fl_syn_def fl_ack_def fl_fin_def fl_rst_def fl_has_def

definition flag_names :: "(u8 \<times> string) list" where
  "flag_names =
     [(SYN, ''S''), (FIN, ''F''), (RST, ''R''), (PSH, ''P''), (ACK, ''A''), (URG, ''U''),
      (ECE, ''E''), (CWR, ''C'')]"

definition show_flags :: "tcp_flags \<Rightarrow> string" where
  "show_flags f =
     (let s = concat (map snd (filter (\<lambda>(bit, name). f AND bit \<noteq> 0) flag_names))
      in if s = [] then ''-'' else s)"

section \<open>TCP\<close>

record tcp_options =
  to_mss :: "u16 option"
  to_window_scale :: "u8 option"
  to_sack_permitted :: bool
  to_timestamps :: bool

definition default_tcp_options :: tcp_options where
  "default_tcp_options =
     \<lparr>to_mss = None, to_window_scale = None, to_sack_permitted = False, to_timestamps = False\<rparr>"

record tcp =
  tcp_src_port :: u16
  tcp_dst_port :: u16
  tcp_seq :: u32
  tcp_ack :: u32
  tcp_flags :: tcp_flags
  tcp_window :: u16
  tcp_checksum :: u16
  tcp_urgent :: u16
  tcp_data_offset :: u8
  tcp_opts :: tcp_options

text \<open>The second \<open>match kind\<close> of the loop body.\<close>

definition apply_option :: "u8 \<Rightarrow> reader \<Rightarrow> tcp_options \<Rightarrow> tcp_options dres" where
  "apply_option kind data out =
     (if kind = 2 then
        and_then (res_ok (rd_be_u16 data)) (\<lambda>v. Ok (out\<lparr>to_mss := map_option fst v\<rparr>))
      else if kind = 3 then
        and_then (res_ok (rd_u8 data)) (\<lambda>v. Ok (out\<lparr>to_window_scale := map_option fst v\<rparr>))
      else if kind = 4 then Ok (out\<lparr>to_sack_permitted := True\<rparr>)
      else if kind = 8 then Ok (out\<lparr>to_timestamps := True\<rparr>)
      else Ok out)"

function parse_tcp_options :: "reader \<Rightarrow> tcp_options \<Rightarrow> tcp_options dres" where
  "parse_tcp_options r out =
     (case rd_u8 r of
        Err _ \<Rightarrow> Ok out
      | Panic \<Rightarrow> Panic
      | Ok (kind, r1) \<Rightarrow>
          if kind = 0 then Ok out
          else if kind = 1 then parse_tcp_options r1 out
          else
            (case rd_u8 r1 of
               Err _ \<Rightarrow> Ok out
             | Panic \<Rightarrow> Panic
             | Ok (l, r2) \<Rightarrow>
                 if \<not> l \<ge> 2 then Ok out
                 else
                   (case rd_sub (unat l - 2) ''tcp option'' r2 of
                      Err _ \<Rightarrow> Ok out
                    | Panic \<Rightarrow> Panic
                    | Ok (data, r3) \<Rightarrow>
                        (case apply_option kind data out of
                           Ok out' \<Rightarrow> parse_tcp_options r3 out'
                         | Err e \<Rightarrow> Err e
                         | Panic \<Rightarrow> Panic))))"
  by pat_completeness auto
termination
  by (relation "measure (\<lambda>(r, out). rd_remaining r)")
    (auto dest!: rd_u8_progress rd_sub_progress [where l = "''tcp option''"])

declare parse_tcp_options.simps [simp del]

definition parse_tcp :: "slice \<Rightarrow> (tcp \<times> slice) dres" where
  "parse_tcp buf =
     and_then (rd_be_u16 (rd_new buf ''tcp'')) (\<lambda>(src_port, r).
     and_then (rd_be_u16 r) (\<lambda>(dst_port, r).
     and_then (rd_be_u32 r) (\<lambda>(seq, r).
     and_then (rd_be_u32 r) (\<lambda>(ack, r).
     and_then (rd_be_u16 r) (\<lambda>(offset_flags, r).
     let data_offset = ucast (drop_bit 12 offset_flags) :: u8 in
     if data_offset < 5 then Err (Malformed ''tcp'' ''data offset below the 20-byte minimum'')
     else
       let flags = ucast (offset_flags AND 0x00FF) in
       and_then (rd_be_u16 r) (\<lambda>(window, r).
       and_then (rd_be_u16 r) (\<lambda>(checksum, r).
       and_then (rd_be_u16 r) (\<lambda>(urgent, r).
       let options_len = unat data_offset * 4 - 20 in
       and_then
         (if options_len > 0 then
            and_then (rd_sub options_len ''tcp options'' r) (\<lambda>(opt_reader, r).
            and_then (parse_tcp_options opt_reader default_tcp_options) (\<lambda>options.
            Ok (options, r)))
          else Ok (default_tcp_options, r)) (\<lambda>(options, r).
       and_then (rd_rest r) (\<lambda>(payload, r).
       Ok (\<lparr>tcp_src_port = src_port, tcp_dst_port = dst_port, tcp_seq = seq, tcp_ack = ack,
             tcp_flags = flags, tcp_window = window, tcp_checksum = checksum,
             tcp_urgent = urgent, tcp_data_offset = data_offset, tcp_opts = options\<rparr>,
           payload)))))))))))"

section \<open>UDP\<close>

record udp =
  udp_src_port :: u16
  udp_dst_port :: u16
  udp_length :: u16
  udp_checksum :: u16

definition parse_udp :: "slice \<Rightarrow> (udp \<times> slice) dres" where
  "parse_udp buf =
     and_then (rd_be_u16 (rd_new buf ''udp'')) (\<lambda>(src_port, r).
     and_then (rd_be_u16 r) (\<lambda>(dst_port, r).
     and_then (rd_be_u16 r) (\<lambda>(len, r).
     and_then (rd_be_u16 r) (\<lambda>(checksum, r).
     and_then (if len \<ge> 8 then rd_limit (unat len - 8) r else Ok r) (\<lambda>r.
     and_then (rd_rest r) (\<lambda>(payload, r).
     Ok (\<lparr>udp_src_port = src_port, udp_dst_port = dst_port, udp_length = len,
           udp_checksum = checksum\<rparr>, payload)))))))"

section \<open>Services\<close>

definition service_name :: "u16 \<Rightarrow> bool \<Rightarrow> string option" where
  "service_name port tcp =
     (if port \<in> {20, 21} \<and> tcp then Some ''ftp''
      else if port = 22 \<and> tcp then Some ''ssh''
      else if port = 23 \<and> tcp then Some ''telnet''
      else if port \<in> {25, 587} \<and> tcp then Some ''smtp''
      else if port = 53 then Some ''dns''
      else if port \<in> {67, 68} \<and> \<not> tcp then Some ''dhcp''
      else if port = 69 \<and> \<not> tcp then Some ''tftp''
      else if port \<in> {80, 8080, 8000} \<and> tcp then Some ''http''
      else if port = 88 then Some ''kerberos''
      else if port = 110 \<and> tcp then Some ''pop3''
      else if port = 123 \<and> \<not> tcp then Some ''ntp''
      else if port = 135 \<and> tcp then Some ''msrpc''
      else if port \<in> {137, 138} \<and> \<not> tcp then Some ''netbios''
      else if port \<in> {139, 445} \<and> tcp then Some ''smb''
      else if port = 143 \<and> tcp then Some ''imap''
      else if port \<in> {161, 162} \<and> \<not> tcp then Some ''snmp''
      else if port = 389 then Some ''ldap''
      else if port \<in> {443, 8443} \<and> tcp then Some ''https''
      else if port = 443 \<and> \<not> tcp then Some ''quic''
      else if port = 514 \<and> \<not> tcp then Some ''syslog''
      else if port = 636 \<and> tcp then Some ''ldaps''
      else if port = 1433 \<and> tcp then Some ''mssql''
      else if port = 1521 \<and> tcp then Some ''oracle''
      else if port = 3306 \<and> tcp then Some ''mysql''
      else if port = 3389 \<and> tcp then Some ''rdp''
      else if port \<in> {5060, 5061} then Some ''sip''
      else if port = 5432 \<and> tcp then Some ''postgres''
      else if port = 5353 \<and> \<not> tcp then Some ''mdns''
      else if port \<in> {5985, 5986} \<and> tcp then Some ''winrm''
      else if port = 6379 \<and> tcp then Some ''redis''
      else if port = 9200 \<and> tcp then Some ''elasticsearch''
      else if port = 27017 \<and> tcp then Some ''mongodb''
      else None)"

definition is_cleartext_service :: "u16 \<Rightarrow> bool \<Rightarrow> string option" where
  "is_cleartext_service port tcp =
     (case service_name port tcp of
        None \<Rightarrow> None
      | Some s \<Rightarrow>
          if s \<in> {''ftp'', ''telnet'', ''http'', ''pop3'', ''imap'', ''smtp'', ''tftp'', ''syslog'', ''snmp''}
          then Some s else None)"

section \<open>Safety\<close>

lemma safe_apply_option: "rd_in s data \<Longrightarrow> safe (\<lambda>_. True) (apply_option kind data out)"
  by (auto simp: apply_option_def intro!: safe_and_then [where P = "\<lambda>_. True"]
      safe_mono [OF safe_res_ok] dest: safe_rd_be_u16 safe_rd_u8)

lemma safe_parse_tcp_options: "rd_in s r \<Longrightarrow> safe (\<lambda>_. True) (parse_tcp_options r out)"
proof (induction r out arbitrary: s rule: parse_tcp_options.induct)
  case (1 r out)
  note step = parse_tcp_options.simps [of r out]
  show ?case
  proof (cases "rd_u8 r")
    case (Ok p)
    then obtain kind r1 where a: "rd_u8 r = Ok (kind, r1)" by (cases p) auto
    with 1(3) have in1: "rd_in s r1" using safe_OkD [OF safe_rd_u8 a] by simp
    show ?thesis
    proof (cases "kind = 0 \<or> kind = 1")
      case True
      with 1(1) [OF a refl] in1 show ?thesis by (auto simp: step a)
    next
      case False
      show ?thesis
      proof (cases "rd_u8 r1")
        case (Ok p2)
        then obtain l r2 where b: "rd_u8 r1 = Ok (l, r2)" by (cases p2) auto
        with in1 have in2: "rd_in s r2" using safe_OkD [OF safe_rd_u8 b] by simp
        show ?thesis
        proof (cases "rd_sub (unat l - 2) ''tcp option'' r2")
          case (Ok p3)
          then obtain data r3 where c: "rd_sub (unat l - 2) ''tcp option'' r2 = Ok (data, r3)"
            by (cases p3) auto
          obtain s' where d: "rd_in s' data" "rd_in s r3"
            using safe_OkD [OF safe_rd_sub [OF in2] c] by auto
          show ?thesis
            using 1(2) [OF a refl _ _ b refl _ c refl] safe_apply_option [OF d(1), of kind out] False d
            by (cases "apply_option kind data out") (auto simp: step a b c)
        qed (use False safe_not_Panic [OF safe_rd_sub [OF in2]] in \<open>auto simp: step a b\<close>)
      qed (use False safe_not_Panic [OF safe_rd_u8 [OF in1]] in \<open>auto simp: step a\<close>)
    qed
  qed (use safe_not_Panic [OF safe_rd_u8 [OF 1(3)]] in \<open>auto simp: step\<close>)
qed

lemma step_tcp_options:
  assumes "rd_in s r" and "\<And>opts r'. rd_in s r' \<Longrightarrow> safe Q (k opts r')"
  shows "safe Q (and_then
     (if c then and_then (rd_sub n l r) (\<lambda>(opt_reader, r).
        and_then (parse_tcp_options opt_reader d) (\<lambda>options. Ok (options, r)))
      else Ok (d, r)) (\<lambda>(opts, r'). k opts r'))"
proof -
  have "safe (\<lambda>(opts, r'). rd_in s r')
     (if c then and_then (rd_sub n l r) (\<lambda>(opt_reader, r).
        and_then (parse_tcp_options opt_reader d) (\<lambda>options. Ok (options, r)))
      else Ok (d, r))"
    using assms(1) by (intro safe_steps safe_and_then [OF safe_parse_tcp_options]; (assumption | simp)?)
  then show ?thesis by (rule safe_and_then_pair) (use assms(2) in auto)
qed

lemma safe_parse_tcp [safe_rules]: "safe (\<lambda>(t, payload). subslice payload buf) (parse_tcp buf)"
  unfolding parse_tcp_def Let_def
  by (intro step_rd_be_u16 [OF rd_in_new] step_tcp_options safe_steps; (assumption | simp)?)

lemma safe_parse_udp [safe_rules]: "safe (\<lambda>(u, payload). subslice payload buf) (parse_udp buf)"
  unfolding parse_udp_def
  by (intro step_rd_be_u16 [OF rd_in_new] safe_steps; (assumption | simp)?)

section \<open>Exact payloads\<close>

lemma adv_tcp_options:
  assumes "rd_wf r" and "\<And>opts. rd_wf (rd_adv n r) \<Longrightarrow> safe Q (k opts (rd_adv n r))"
  shows "safe Q (and_then
     (if n > 0 then and_then (rd_sub n l r) (\<lambda>(opt_reader, r).
        and_then (parse_tcp_options opt_reader d) (\<lambda>options. Ok (options, r)))
      else Ok (d, r)) (\<lambda>(opts, r'). k opts r'))"
proof (cases "n = 0")
  case True
  with assms show ?thesis by (simp add: rd_adv_def)
next
  case False
  show ?thesis
  proof (cases "length (rd_left r) < n")
    case True
    with False show ?thesis by (simp add: rd_sub_eq [OF assms(1)])
  next
    case short: False
    with assms(1) have w: "rd_wf (rd_adv n r)" by (simp add: rd_wf_adv_iff)
    let ?d = "rd_new (Slice (sl_addr (rd_buf r) + rd_pos r) (take n (rd_left r))) l"
    have "safe (\<lambda>_. True) (parse_tcp_options ?d d)" by (rule safe_parse_tcp_options [OF rd_in_new])
    with assms(2) [OF w] False short show ?thesis
      by (cases "parse_tcp_options ?d d") (simp_all add: rd_sub_eq [OF assms(1)])
  qed
qed

text \<open>
  A decoded TCP segment: the header is as long as the data-offset field says (20 bytes or more,
  options included), it lies inside the segment, and the payload is everything behind it.
\<close>

lemma parse_tcp_payload:
  "safe (\<lambda>(t, payload).
     let hl = unat (tcp_data_offset t) * 4 in
     20 \<le> hl \<and> hl \<le> sl_len buf \<and> payload = Slice (sl_addr buf + hl) (drop hl (sl_bytes buf)))
   (parse_tcp buf)"
  unfolding parse_tcp_def Let_def
  by (intro adv_tcp_options adv_steps rd_wf_new; assumption?;
      simp add: Let_def rd_wf_adv_new not_less word_le_nat_alt)

text \<open>
  A decoded UDP datagram: the payload starts behind the 8-byte header and is what the length
  field covers, cut to the captured bytes; a length below 8 (segmentation offload) means the rest.
\<close>

lemma parse_udp_payload:
  "safe (\<lambda>(u, payload).
     8 \<le> sl_len buf \<and> sl_addr payload = sl_addr buf + 8 \<and>
     sl_bytes payload =
       (if 8 \<le> unat (udp_length u) then take (unat (udp_length u) - 8) (drop 8 (sl_bytes buf))
        else drop 8 (sl_bytes buf)))
   (parse_udp buf)"
  unfolding parse_udp_def
  by (intro adv_steps rd_wf_new; assumption?; simp add: Let_def rd_wf_adv_new word_le_nat_alt)

end
