(* ===== verification/Dns.thy ===== *)
theory Dns
  imports Bytes IpAddr
begin

unbundle bit_operations_syntax

text \<open>
  \<open>proto/dns.rs\<close>: DNS messages with name decompression.  The decompression loop is the part that
  attacker-made input tries to keep running: its termination measure is the jumps and labels still
  allowed.  Every index and slice of the code is a possible \<open>Panic\<close> of the model, and the safety
  lemmas show none is reached.
\<close>

section \<open>Messages\<close>

record dns_question =
  dq_name :: string
  dq_qtype :: u16
  dq_qclass :: u16

record dns_record =
  dr_name :: string
  dr_rtype :: u16
  dr_ttl :: u32
  dr_data :: string

record dns_message =
  dm_transaction_id :: u16
  dm_is_response :: bool
  dm_opcode :: u8
  dm_rcode :: u8
  dm_recursion_desired :: bool
  dm_truncated :: bool
  dm_questions :: "dns_question list"
  dm_answers :: "dns_record list"
  dm_authority_count :: u16
  dm_additional_count :: u16

definition primary_name :: "dns_message \<Rightarrow> string option" where
  "primary_name m = (case dm_questions m of [] \<Rightarrow> None | q # _ \<Rightarrow> Some (dq_name q))"

definition rcode_name :: "dns_message \<Rightarrow> string" where
  "rcode_name m =
     (if dm_rcode m = 0 then ''NOERROR'' else if dm_rcode m = 1 then ''FORMERR''
      else if dm_rcode m = 2 then ''SERVFAIL'' else if dm_rcode m = 3 then ''NXDOMAIN''
      else if dm_rcode m = 4 then ''NOTIMP'' else if dm_rcode m = 5 then ''REFUSED''
      else ''OTHER'')"

definition qtype_name :: "u16 \<Rightarrow> string" where
  "qtype_name t =
     (if t = 1 then ''A'' else if t = 2 then ''NS'' else if t = 5 then ''CNAME''
      else if t = 6 then ''SOA'' else if t = 12 then ''PTR'' else if t = 15 then ''MX''
      else if t = 16 then ''TXT'' else if t = 28 then ''AAAA'' else if t = 33 then ''SRV''
      else if t = 35 then ''NAPTR'' else if t = 43 then ''DS'' else if t = 48 then ''DNSKEY''
      else if t = 65 then ''HTTPS'' else if t = 99 then ''SPF'' else if t = 251 then ''IXFR''
      else if t = 252 then ''AXFR'' else if t = 255 then ''ANY'' else ''TYPE'')"

section \<open>Names\<close>

text \<open>
  The loop of \<open>read_name\<close>: the labels so far, the offset behind the first pointer, and the number
  of jumps.  It returns the labels and the offset where the name ends at its original position.
\<close>

function name_loop ::
  "bytes \<Rightarrow> nat \<Rightarrow> bytes list \<Rightarrow> nat option \<Rightarrow> nat \<Rightarrow> (bytes list \<times> nat) dres" where
  "name_loop msg offset labels after jumps =
     (if offset \<ge> length msg then Err (Truncated ''dns name'' 1 0)
      else and_then (index msg offset) (\<lambda>len.
        if len AND 0xC0 = 0xC0 then
          (if offset + 1 \<ge> length msg then Err (Malformed ''dns name'' ''truncated pointer'')
           else and_then (index msg (offset + 1)) (\<lambda>low.
             let target = push_bit 8 (unat (len AND 0x3F)) OR unat low;
                 after' = (case after of None \<Rightarrow> Some (offset + 2) | Some a \<Rightarrow> Some a);
                 jumps' = jumps + 1
             in if jumps' > 16 \<or> target \<ge> length msg \<or> target \<ge> offset
                then Err (Malformed ''dns name'' ''cyclic compression pointer'')
                else name_loop msg target labels after' jumps'))
        else if len AND 0xC0 \<noteq> 0 then Err (Malformed ''dns name'' ''reserved label type'')
        else if len = 0 then
          Ok (labels, case after of None \<Rightarrow> offset + 1 | Some a \<Rightarrow> a)
        else
          let l = unat len in
          if offset + 1 + l > length msg
          then Err (Truncated ''dns name'' l (length msg - (offset + 1)))
          else and_then (sub_list msg (offset + 1) (offset + 1 + l)) (\<lambda>label.
            let labels' = labels @ [label] in
            if length labels' > 127 then Err (Malformed ''dns name'' ''too many labels'')
            else name_loop msg (offset + 1 + l) labels' after jumps)))"
  by pat_completeness auto
termination
  by (relation "measure (\<lambda>(msg, offset, labels, after, jumps). (16 - jumps) + (127 - length labels))") auto

declare name_loop.simps [simp del]

definition join_labels :: "bytes list \<Rightarrow> string" where
  "join_labels labels =
     (if labels = [] then ''.'' else join ''.'' (map from_utf8_lossy labels))"

definition read_name :: "bytes \<Rightarrow> nat \<Rightarrow> (string \<times> nat) dres" where
  "read_name msg start =
     and_then (name_loop msg start [] None 0) (\<lambda>(labels, next). Ok (join_labels labels, next))"

section \<open>Records\<close>

text \<open>The character strings of a TXT record: \<open>while i < rdata.len()\<close>.\<close>

function txt_parts :: "bytes \<Rightarrow> nat \<Rightarrow> string list dres" where
  "txt_parts rdata i =
     (if i < length rdata then
        and_then (index rdata i) (\<lambda>b.
        let len = unat b in
        if i + 1 + len > length rdata then Ok []
        else
          and_then (sub_list rdata (i + 1) (i + 1 + len)) (\<lambda>s.
          and_then (txt_parts rdata (i + (1 + len))) (\<lambda>ps.
          Ok (from_utf8_lossy s # ps))))
      else Ok [])"
  by pat_completeness auto
termination
  by (relation "measure (\<lambda>(rdata, i). length rdata - i)") auto

declare txt_parts.simps [simp del]

text \<open>\<open>.unwrap_or_else(|_| "<malformed>".into())\<close> on a name.\<close>

definition name_or_malformed :: "((string \<times> nat) \<Rightarrow> string) \<Rightarrow> (string \<times> nat) dres \<Rightarrow> string dres" where
  "name_or_malformed f m =
     (case m of Ok p \<Rightarrow> Ok (f p) | Err _ \<Rightarrow> Ok ''<malformed>'' | Panic \<Rightarrow> Panic)"

definition render_rdata :: "bytes \<Rightarrow> u16 \<Rightarrow> bytes \<Rightarrow> nat \<Rightarrow> string dres" where
  "render_rdata msg rtype rdata rdata_start =
     (if rtype = 1 \<and> length rdata = 4 then Ok (show_ip (V4 rdata))
      else if rtype = 28 \<and> length rdata = 16 then Ok (show_ip (V6 rdata))
      else if rtype = 2 \<or> rtype = 5 \<or> rtype = 12 then
        name_or_malformed fst (read_name msg rdata_start)
      else if rtype = 15 \<and> length rdata > 2 then
        name_or_malformed
          (\<lambda>(n, _). n @ '' pref='' @ show_nat (unat (be16 (rdata ! 0) (rdata ! 1))))
          (read_name msg (rdata_start + 2))
      else if rtype = 16 then and_then (txt_parts rdata 0) (\<lambda>parts. Ok (join '' '' parts))
      else Ok (''<'' @ show_nat (length rdata) @ '' bytes>''))"

definition read_record :: "slice \<Rightarrow> nat \<Rightarrow> (dns_record \<times> nat) dres" where
  "read_record msg offset =
     and_then (read_name (sl_bytes msg) offset) (\<lambda>(name, after_name).
     and_then (sl_drop msg (min after_name (sl_len msg))) (\<lambda>tail.
     and_then (rd_be_u16 (rd_new tail ''dns record'')) (\<lambda>(rtype, r).
     and_then (rd_be_u16 r) (\<lambda>(cls, r).
     and_then (rd_be_u32 r) (\<lambda>(ttl, r).
     and_then (rd_be_u16 r) (\<lambda>(rdlength, r).
     let rdata_start = after_name + 10 in
     and_then (rd_take (unat rdlength) r) (\<lambda>(rdata, r).
     and_then (render_rdata (sl_bytes msg) rtype (sl_bytes rdata) rdata_start) (\<lambda>data.
     Ok (\<lparr>dr_name = name, dr_rtype = rtype, dr_ttl = ttl, dr_data = data\<rparr>,
         rdata_start + unat rdlength)))))))))"

section \<open>Whole messages\<close>

fun read_questions ::
  "nat \<Rightarrow> slice \<Rightarrow> nat \<Rightarrow> dns_question list \<Rightarrow> (dns_question list \<times> nat) dres" where
  "read_questions 0 buf offset qs = Ok (qs, offset)"
| "read_questions (Suc n) buf offset qs =
     and_then (read_name (sl_bytes buf) offset) (\<lambda>(name, next).
     and_then (sl_drop buf next) (\<lambda>tail.
     and_then (rd_be_u16 (rd_new tail ''dns question'')) (\<lambda>(qtype, q).
     and_then (rd_be_u16 q) (\<lambda>(qclass, q).
     read_questions n buf (next + 4)
       (qs @ [\<lparr>dq_name = name, dq_qtype = qtype, dq_qclass = qclass\<rparr>])))))"

fun read_answers ::
  "nat \<Rightarrow> slice \<Rightarrow> nat \<Rightarrow> dns_record list \<Rightarrow> dns_record list dres" where
  "read_answers 0 buf offset rs = Ok rs"
| "read_answers (Suc n) buf offset rs =
     (case read_record buf offset of
        Ok (rec, next) \<Rightarrow> read_answers n buf next (rs @ [rec])
      | Err _ \<Rightarrow> Ok rs
      | Panic \<Rightarrow> Panic)"

definition parse_strict :: "slice \<Rightarrow> dns_message dres" where
  "parse_strict buf =
     and_then (rd_be_u16 (rd_new buf ''dns'')) (\<lambda>(transaction_id, r).
     and_then (rd_be_u16 r) (\<lambda>(flags, r).
     and_then (rd_be_u16 r) (\<lambda>(qdcount, r).
     and_then (rd_be_u16 r) (\<lambda>(ancount, r).
     and_then (rd_be_u16 r) (\<lambda>(nscount, r).
     and_then (rd_be_u16 r) (\<lambda>(arcount, r).
     let opcode = ucast (drop_bit 11 flags AND 0x0F) :: u8 in
     if opcode > 5 then Err (Malformed ''dns'' ''reserved opcode'')
     else if qdcount > 64 \<or> ancount > 512 then
       Err (Malformed ''dns'' ''implausible record counts'')
     else
       and_then (read_questions (unat qdcount) buf (rd_pos r) []) (\<lambda>(questions, offset).
       and_then (read_answers (unat ancount) buf offset []) (\<lambda>answers.
       Ok \<lparr>dm_transaction_id = transaction_id, dm_is_response = (flags AND 0x8000 \<noteq> 0),
           dm_opcode = opcode, dm_rcode = ucast (flags AND 0x000F),
           dm_recursion_desired = (flags AND 0x0100 \<noteq> 0),
           dm_truncated = (flags AND 0x0200 \<noteq> 0),
           dm_questions = questions, dm_answers = answers,
           dm_authority_count = nscount, dm_additional_count = arcount\<rparr>))))))))"

definition dns_parse :: "slice \<Rightarrow> dns_message option dres" where
  "dns_parse buf = res_ok (parse_strict buf)"

definition parent_domain :: "string \<Rightarrow> string" where
  "parent_domain name =
     (let labels = split_on CHR ''.'' (trim_end_matches CHR ''.'' name) in
      if length labels \<le> 2 then join ''.'' labels
      else join ''.'' (drop (length labels - 2) labels))"

section \<open>Safety and bounds of name decompression\<close>

lemma label_len: "(b :: u8) AND 0xC0 = 0 \<Longrightarrow> unat b < 64"
proof -
  assume z: "b AND 0xC0 = 0"
  have "(0xC0 OR 0x3F :: u8) = -1" by simp
  then have "b = b AND (0xC0 OR 0x3F)" by (metis bit.conj_one_right)
  also have "\<dots> = (b AND 0xC0) OR (b AND 0x3F)" by (rule bit.conj_disj_distrib)
  finally have "b = b AND 0x3F" using z by simp
  then have "b \<le> 0x3F" by (metis word_and_le1)
  then show ?thesis by (simp add: word_le_nat_alt)
qed

definition label_ok :: "bytes \<Rightarrow> bool" where
  "label_ok l \<longleftrightarrow> 0 < length l \<and> length l < 64"

definition name_bound :: "nat \<Rightarrow> bytes \<Rightarrow> nat \<Rightarrow> nat option \<Rightarrow> bool" where
  "name_bound start msg offset after \<longleftrightarrow>
     (case after of None \<Rightarrow> start \<le> offset | Some a \<Rightarrow> start < a \<and> a \<le> length msg)"

lemma safe_name_loop:
  assumes "name_bound start msg offset after" and "length labels \<le> 127" and "\<forall>l \<in> set labels. label_ok l"
  shows "safe (\<lambda>(ls, next). length ls \<le> 127 \<and> (\<forall>l \<in> set ls. label_ok l) \<and> start < next \<and> next \<le> length msg)
    (name_loop msg offset labels after jumps)"
  using assms
proof (induction msg offset labels after jumps rule: name_loop.induct)
  case (1 msg offset labels after jumps)
  show ?case
  proof (cases "offset < length msg")
    case False
    then show ?thesis by (simp add: name_loop.simps [of msg offset])
  next
    case True
    let ?len = "msg ! offset"
    have ix: "index msg offset = Ok ?len" using True by simp
    consider (ptr) "?len AND 0xC0 = 0xC0" | (bad) "?len AND 0xC0 \<noteq> 0xC0" "?len AND 0xC0 \<noteq> 0"
      | (zero) "?len = 0" | (label) "?len AND 0xC0 = 0" "?len \<noteq> 0" by auto
    then show ?thesis
    proof cases
      case ptr
      show ?thesis
        using 1(1) [OF _ ix ptr] 1(3-5) True ptr
        by (auto simp: name_loop.simps [of msg offset] Let_def name_bound_def split: option.splits)
    next
      case bad
      then show ?thesis using True by (simp add: name_loop.simps [of msg offset])
    next
      case zero
      then show ?thesis using True 1(3-5)
        by (auto simp: name_loop.simps [of msg offset] name_bound_def split: option.splits)
    next
      case label
      let ?l = "unat ?len"
      show ?thesis
      proof (cases "offset + 1 + ?l > length msg")
        case True
        then show ?thesis using label \<open>offset < length msg\<close>
          by (simp add: name_loop.simps [of msg offset] Let_def)
      next
        case fits: False
        let ?x = "take ?l (drop (offset + 1) msg)"
        have sl: "sub_list msg (offset + 1) (offset + 1 + ?l) = Ok ?x"
          using fits by simp
        have ok: "label_ok ?x"
          using label label_len [of ?len] fits by (simp add: label_ok_def word_gt_0 unat_gt_0)
        have nb: "name_bound start msg (offset + 1 + ?l) after"
          using 1(3) by (simp add: name_bound_def split: option.splits)
        have ih: "length (labels @ [?x]) \<le> 127 \<Longrightarrow>
            safe (\<lambda>(ls, next). length ls \<le> 127 \<and> (\<forall>l \<in> set ls. label_ok l) \<and> start < next \<and> next \<le> length msg)
              (name_loop msg (offset + 1 + ?l) (labels @ [?x]) after jumps)"
          using 1(2) [OF _ ix _ _ _ refl fits sl refl _ nb] 1(5) True label ok by simp
        have "name_loop msg offset labels after jumps =
            (if length (labels @ [?x]) > 127 then Err (Malformed ''dns name'' ''too many labels'')
             else name_loop msg (offset + 1 + ?l) (labels @ [?x]) after jumps)"
          using True label fits sl by (simp add: name_loop.simps [of msg offset] Let_def)
        with ih show ?thesis by simp
      qed
    qed
  qed
qed

lemma safe_read_name [safe_rules]:
  "safe (\<lambda>(name, next). start < next \<and> next \<le> length msg) (read_name msg start)"
  unfolding read_name_def
  by (rule safe_and_then [OF safe_name_loop [of start]]) (auto simp: name_bound_def)

lemma safe_txt_parts: "safe (\<lambda>_. True) (txt_parts rdata i)"
proof (induction rdata i rule: txt_parts.induct)
  case (1 rdata i)
  show ?case
  proof (cases "i < length rdata \<and> i + 1 + unat (rdata ! i) \<le> length rdata")
    case True
    then show ?thesis
      using 1 [OF _ index_Ok refl _ sub_list_Ok]
      by (auto simp: txt_parts.simps [of rdata i] Let_def intro!: safe_and_then [where P = "\<lambda>_. True"])
  qed (auto simp: txt_parts.simps [of rdata i] Let_def)
qed

lemma safe_name_or_malformed: "safe P m \<Longrightarrow> safe (\<lambda>_. True) (name_or_malformed f m)"
  by (cases m) (auto simp: name_or_malformed_def)

lemma safe_render_rdata: "safe (\<lambda>_. True) (render_rdata msg rtype rdata start)"
  unfolding render_rdata_def
  by (auto intro!: safe_if safe_name_or_malformed [OF safe_read_name]
      safe_and_then [OF safe_txt_parts] split: prod.splits)

lemma safe_sl_drop: "a \<le> sl_len s \<Longrightarrow> safe (\<lambda>_. True) (sl_drop s a)"
  by (simp add: sl_drop_def)

lemma step_new_be_u16:
  "(\<And>v r'. rd_in b r' \<Longrightarrow> safe Q (k v r')) \<Longrightarrow>
     safe Q (and_then (rd_be_u16 (rd_new b l)) (\<lambda>(v, r'). k v r'))"
  by (rule step_rd_be_u16 [OF rd_in_new])

lemma safe_read_record: "safe (\<lambda>_. True) (read_record msg offset)"
  unfolding read_record_def
  by (intro safe_and_then_pair [OF safe_read_name] safe_and_then [OF safe_sl_drop]
      step_new_be_u16 safe_steps safe_and_then [OF safe_render_rdata]; (assumption | simp)?)

lemma safe_read_questions:
  "safe (\<lambda>(qs', offset'). length qs' = length qs + n) (read_questions n buf offset qs)"
proof (induction n arbitrary: offset qs)
  case (Suc n)
  have "safe (\<lambda>(qs', offset'). length qs' = length qs + Suc n)
      (and_then (sl_drop buf nxt) (\<lambda>tail.
       and_then (rd_be_u16 (rd_new tail ''dns question'')) (\<lambda>(qtype, q).
       and_then (rd_be_u16 q) (\<lambda>(qclass, q).
       read_questions n buf (nxt + 4)
         (qs @ [\<lparr>dq_name = name, dq_qtype = qtype, dq_qclass = qclass\<rparr>])))))"
    if "nxt \<le> sl_len buf" for name nxt
    using safe_sl_drop [OF that]
    by (rule safe_and_then) (intro step_new_be_u16 safe_steps safe_mono [OF Suc.IH]; auto)
  then show ?case
    by (auto simp: sl_len_def intro!: safe_and_then [OF safe_read_name])
qed simp

lemma safe_read_answers: "safe (\<lambda>rs'. length rs' \<le> length rs + n) (read_answers n buf offset rs)"
proof (induction n arbitrary: offset rs)
  case (Suc n)
  show ?case
  proof (cases "read_record buf offset")
    case (Ok p)
    then show ?thesis using safe_mono [OF Suc.IH] by (cases p) fastforce
  qed (use safe_not_Panic [OF safe_read_record [of buf offset]] in auto)
qed simp

lemma safe_parse_strict:
  "safe (\<lambda>m. length (dm_questions m) \<le> 64 \<and> length (dm_answers m) \<le> 512) (parse_strict buf)"
  unfolding parse_strict_def Let_def
  by (intro step_new_be_u16 step_rd_be_u16 safe_if_cond safe_Err safe_Ok_step
      safe_and_then_pair [OF safe_read_questions] safe_and_then [OF safe_read_answers]; assumption?)
    (simp add: word_le_nat_alt not_less)

text \<open>
  DNS decoding is total on arbitrary bytes: no index, slice or decompression step panics, the
  name loop always ends, and an accepted message carries at most 64 questions and 512 answers.
\<close>

lemma dns_parse_strict_safe:
  "safe (\<lambda>m. length (dm_questions m) \<le> 64 \<and> length (dm_answers m) \<le> 512) (parse_strict buf)"
  by (rule safe_parse_strict)

section \<open>Names on the wire\<close>

definition label_wire :: "bytes \<Rightarrow> bytes" where
  "label_wire l = word_of_nat (length l) # l"

definition labels_wire :: "bytes list \<Rightarrow> bytes" where
  "labels_wire ls = concat (map label_wire ls)"

text \<open>A compression pointer to offset \<open>t\<close>.\<close>

definition pointer_wire :: "nat \<Rightarrow> bytes" where
  "pointer_wire t = [0xC0 OR word_of_nat (t div 256), word_of_nat (t mod 256)]"

lemma length_labels_wire_Cons [simp]:
  "length (labels_wire (l # ls)) = Suc (length l) + length (labels_wire ls)"
  by (simp add: labels_wire_def label_wire_def)

lemma len_byte:
  assumes "label_ok l"
  shows "unat (word_of_nat (length l) :: u8) = length l" and "word_of_nat (length l) AND 0xC0 = (0 :: u8)"
    and "word_of_nat (length l) \<noteq> (0 :: u8)"
proof -
  from assms have "length l < 64" "0 < length l" by (simp_all add: label_ok_def)
  then show 1: "unat (word_of_nat (length l) :: u8) = length l"
    by (simp add: unat_of_nat)
  then show "word_of_nat (length l) \<noteq> (0 :: u8)" using \<open>0 < length l\<close> by auto
  have "word_of_nat (length l) AND 0xC0 = ((word_of_nat (length l) AND mask 6) AND 0xC0 :: u8)"
    using word_and_mask_self [of "word_of_nat (length l) :: u8" 6] \<open>length l < 64\<close> 1 by simp
  also have "\<dots> = word_of_nat (length l) AND (mask 6 AND 0xC0)" by (rule and.assoc)
  also have "mask 6 AND 0xC0 = (0 :: u8)" by (simp add: mask_eq_exp_minus_1)
  finally show "word_of_nat (length l) AND 0xC0 = (0 :: u8)" by simp
qed

lemma drop_nth: "drop n xs = y # ys \<Longrightarrow> n < length xs \<and> xs ! n = y \<and> drop (Suc n) xs = ys"
  by (metis Cons_nth_drop_Suc drop_eq_Nil list.distinct(1) list.inject not_le)

lemma drop_append_len: "drop s m = xs @ ys \<Longrightarrow> drop (s + length xs) m = ys"
  by (metis add.commute append_eq_conv_conj drop_drop)

lemma name_loop_label:
  assumes "drop offset msg = label_wire l @ rest" and "label_ok l" and "length labels < 127"
  shows "name_loop msg offset labels after jumps =
    name_loop msg (offset + Suc (length l)) (labels @ [l]) after jumps"
proof -
  have d: "offset < length msg" "msg ! offset = word_of_nat (length l)" "drop (Suc offset) msg = l @ rest"
    using drop_nth [of offset msg] assms(1) by (simp_all add: label_wire_def)
  have "length (drop (Suc offset) msg) = length l + length rest" by (simp add: d(3))
  then have n: "Suc (offset + length l) \<le> length msg" using d(1) by simp
  have "sub_list msg (Suc offset) (Suc (offset + length l)) = Ok l"
    using n d(3) by simp
  with d n assms(3) show ?thesis
    by (simp add: name_loop.simps [of msg offset] len_byte [OF assms(2)] Let_def)
qed

lemma name_loop_labels:
  assumes "drop offset msg = labels_wire ls @ rest" and "\<forall>l \<in> set ls. label_ok l"
    and "length labels + length ls \<le> 127"
  shows "name_loop msg offset labels after jumps =
    name_loop msg (offset + length (labels_wire ls)) (labels @ ls) after jumps"
  using assms
proof (induction ls arbitrary: offset labels)
  case (Cons l ls)
  have d: "drop offset msg = label_wire l @ labels_wire ls @ rest"
    using Cons.prems(1) by (simp add: labels_wire_def)
  have "drop (offset + Suc (length l)) msg = drop (Suc (length l)) (drop offset msg)"
    by (simp add: add.commute)
  also have "\<dots> = labels_wire ls @ rest" by (simp add: d label_wire_def)
  finally have "drop (offset + Suc (length l)) msg = labels_wire ls @ rest" .
  from Cons.IH [OF this, of "labels @ [l]"] Cons.prems
  show ?case by (simp add: name_loop_label [OF d] algebra_simps)
qed (simp add: labels_wire_def)

lemma name_loop_zero:
  "drop offset msg = 0 # rest \<Longrightarrow>
     name_loop msg offset labels after jumps = Ok (labels, case after of None \<Rightarrow> offset + 1 | Some a \<Rightarrow> a)"
  using drop_nth [of offset msg 0 rest] by (simp add: name_loop.simps [of msg offset])

lemma pointer_bits:
  assumes "t < 2 ^ 14"
  shows "(0xC0 OR word_of_nat (t div 256)) AND 0xC0 = (0xC0 :: u8)"
    and "push_bit 8 (unat ((0xC0 OR word_of_nat (t div 256)) AND 0x3F :: u8)) OR
      unat (word_of_nat (t mod 256) :: u8) = t"
proof -
  let ?h = "word_of_nat (t div 256) :: u8"
  show "(0xC0 OR ?h) AND 0xC0 = 0xC0" by (simp add: bit.conj_disj_distrib2 and.commute)
  have h: "t div 256 < 64" using assms by simp
  then have u: "unat ?h = t div 256" by (simp add: unat_of_nat)
  have "(0xC0 OR ?h) AND 0x3F = ?h AND 0x3F" by (simp add: bit.conj_disj_distrib2)
  also have "\<dots> = ?h"
    using word_and_mask_self [of ?h 6] h u by (simp add: mask_eq_exp_minus_1)
  finally show "push_bit 8 (unat ((0xC0 OR ?h) AND 0x3F :: u8)) OR unat (word_of_nat (t mod 256) :: u8) = t"
    using h by (simp add: u unat_of_nat push_bit_or_nat)
qed

lemma name_loop_pointer:
  assumes "drop offset msg = pointer_wire t @ rest" and "t < 2 ^ 14" and "t < offset" and "jumps < 16"
  shows "name_loop msg offset labels after jumps =
    name_loop msg t labels (case after of None \<Rightarrow> Some (offset + 2) | Some a \<Rightarrow> Some a) (jumps + 1)"
proof -
  have d: "offset < length msg" "msg ! offset = 0xC0 OR word_of_nat (t div 256)"
    "Suc offset < length msg" "msg ! Suc offset = word_of_nat (t mod 256)"
    using drop_nth [of offset msg] drop_nth [of "Suc offset" msg] assms(1)
    by (simp_all add: pointer_wire_def)
  with pointer_bits [OF assms(2)] assms(3,4) show ?thesis
    by (simp add: name_loop.simps [of msg offset labels] Let_def)
qed

text \<open>
  C20. Name decompression: labels that end in a compression pointer decode to those labels followed by
  the labels found at the target, and parsing continues right behind the pointer, not behind the
  target.
\<close>

theorem read_name_compressed:
  assumes "drop start msg = labels_wire ls @ pointer_wire t @ rest"
    and "drop t msg = labels_wire us @ 0 # rest'"
    and "\<forall>l \<in> set (ls @ us). label_ok l" and "length ls + length us \<le> 127"
    and "t < 2 ^ 14" and "t < start + length (labels_wire ls)"
  shows "read_name msg start = Ok (join_labels (ls @ us), start + length (labels_wire ls) + 2)"
proof -
  let ?p = "start + length (labels_wire ls)"
  have "drop ?p msg = pointer_wire t @ rest"
    using assms(1) by (rule drop_append_len)
  then have "name_loop msg ?p ls None 0 = name_loop msg t ls (Some (?p + 2)) 1"
    using assms(5,6) by (simp add: name_loop_pointer)
  moreover have "name_loop msg start [] None 0 = name_loop msg ?p ls None 0"
    using name_loop_labels [OF assms(1)] assms(3,4) by simp
  moreover have "name_loop msg t ls (Some (?p + 2)) 1 =
      name_loop msg (t + length (labels_wire us)) (ls @ us) (Some (?p + 2)) 1"
    using name_loop_labels [OF assms(2)] assms(3,4) by simp
  moreover have "drop (t + length (labels_wire us)) msg = 0 # rest'"
    using assms(2) by (rule drop_append_len)
  ultimately show ?thesis
    by (simp add: read_name_def name_loop_zero)
qed

theorem read_name_compressed_witness:
  "read_name ([0, 3] @ bytes_of ''com'' @ [0, 2] @ bytes_of ''ab'' @ [0xC0, 1]) 6 =
     Ok (join_labels [bytes_of ''ab'', bytes_of ''com''], 11)"
  using read_name_compressed [of 6 "[0, 3] @ bytes_of ''com'' @ [0, 2] @ bytes_of ''ab'' @ [0xC0, 1]"
      "[bytes_of ''ab'']" 1 "[]" "[bytes_of ''com'']" "[2] @ bytes_of ''ab'' @ [0xC0, 1]"]
  by (simp add: labels_wire_def label_wire_def pointer_wire_def label_ok_def bytes_of_def)

section \<open>Grouping by parent domain\<close>

lemma join_not_Nil_labels: "\<forall>p \<in> set ps. c \<notin> set p \<Longrightarrow> ps \<noteq> [] \<Longrightarrow> last ps \<noteq> [] \<Longrightarrow>
    trim_end_matches c (join [c] ps) = join [c] ps"
proof (rule trim_end_matches_id, goal_cases)
  case 1
  then have "join [c] ps \<noteq> [] \<and> last (join [c] ps) = last (last ps)"
  proof (induction ps)
    case (Cons p ps)
    then show ?case by (cases "ps = []") (auto simp: join_Cons)
  qed simp
  then show ?case using 1 by (metis last_in_set)
qed

text \<open>
  The parent domain of a name is its last two labels: prefixing labels does not change it.
\<close>

lemma parent_domain_last_two:
  assumes "a \<noteq> []" and "b \<noteq> []" and "CHR ''.'' \<notin> set a" and "CHR ''.'' \<notin> set b"
    and "\<forall>p \<in> set ps. CHR ''.'' \<notin> set p"
  shows "parent_domain (join ''.'' (ps @ [a, b])) = a @ ''.'' @ b"
proof -
  have "trim_end_matches CHR ''.'' (join ''.'' (ps @ [a, b])) = join ''.'' (ps @ [a, b])"
    using assms by (intro join_not_Nil_labels) auto
  moreover have "split_on CHR ''.'' (join ''.'' (ps @ [a, b])) = ps @ [a, b]"
    using assms by (intro split_on_join) auto
  ultimately show ?thesis by (simp add: parent_domain_def Let_def)
qed

lemma parent_domain_last_two_witness:
  "parent_domain (join ''.'' ([''x'', ''y''] @ [''evil'', ''com''])) = ''evil'' @ ''.'' @ ''com''"
  using parent_domain_last_two [of "''evil''" "''com''" "[''x'', ''y'']"] by simp

end
