(* ===== verification/Http.thy ===== *)
theory Http
  imports Bytes
begin

text \<open>
  \<open>proto/http.rs\<close>: HTTP/1.x start line and header extraction from the start of a payload.  String
  slicing panics off a character boundary in Rust, so \<open>truncate\<close> is modelled with that panic and
  shown free of it.
\<close>

section \<open>Messages\<close>

definition METHODS :: "string list" where
  "METHODS =
     [''GET'', ''POST'', ''HEAD'', ''PUT'', ''DELETE'', ''OPTIONS'', ''PATCH'', ''TRACE'', ''CONNECT'']"

definition KEPT_HEADERS :: "string list" where
  "KEPT_HEADERS =
     [''host'', ''user-agent'', ''server'', ''content-type'', ''content-length'', ''location'',
      ''referer'', ''x-forwarded-for'']"

datatype http_kind = Request | Response

record http_message =
  hm_kind :: http_kind
  hm_version :: string
  hm_method :: "string option"
  hm_uri :: "string option"
  hm_status :: "u16 option"
  hm_reason :: "string option"
  hm_host :: "string option"
  hm_user_agent :: "string option"
  hm_server :: "string option"
  hm_content_type :: "string option"
  hm_content_length :: "nat option"
  hm_location :: "string option"
  hm_referer :: "string option"
  hm_has_authorization :: bool
  hm_has_cookie :: bool
  hm_header_count :: nat
  hm_complete :: bool

definition unwrap_or :: "'a \<Rightarrow> 'a option \<Rightarrow> 'a" where
  "unwrap_or d x = (case x of None \<Rightarrow> d | Some v \<Rightarrow> v)"

definition http_summary :: "http_message \<Rightarrow> string" where
  "http_summary m =
     (case hm_kind m of
        Request \<Rightarrow>
          unwrap_or ''?'' (hm_method m) @ '' '' @ unwrap_or '''' (hm_host m) @
          unwrap_or '''' (hm_uri m)
      | Response \<Rightarrow>
          trim_end
            (unwrap_or '''' (map_option (\<lambda>s. show_nat (unat s)) (hm_status m)) @ '' '' @
             unwrap_or '''' (hm_content_type m)))"

definition empty_message :: http_message where
  "empty_message =
     \<lparr>hm_kind = Request, hm_version = [], hm_method = None, hm_uri = None, hm_status = None,
      hm_reason = None, hm_host = None, hm_user_agent = None, hm_server = None,
      hm_content_type = None, hm_content_length = None, hm_location = None, hm_referer = None,
      hm_has_authorization = False, hm_has_cookie = False, hm_header_count = 0,
      hm_complete = False\<rparr>"

section \<open>The header block\<close>

definition CRLF2 :: bytes where "CRLF2 = [0x0D, 0x0A, 0x0D, 0x0A]"

text \<open>\<open>hay.windows(4).position(|w| w == b"\r\n\r\n")\<close>\<close>

fun find_window :: "bytes \<Rightarrow> bytes \<Rightarrow> nat option" where
  "find_window pat [] = None"
| "find_window pat (b # bs) =
     (if has_prefix pat (b # bs) then Some 0 else map_option Suc (find_window pat bs))"

definition find_header_end :: "bytes \<Rightarrow> (nat \<times> bool, decode_error) res" where
  "find_header_end payload =
     and_then (sub_list payload 0 (min (length payload) (16 * 1024))) (\<lambda>hay.
     case find_window CRLF2 hay of
       Some p \<Rightarrow> Ok (p + 2, True)
     | None \<Rightarrow> Ok (length hay, False))"

section \<open>Truncation at a character boundary\<close>

definition is_char_boundary :: "string \<Rightarrow> nat \<Rightarrow> bool" where
  "is_char_boundary s i \<longleftrightarrow>
     i = 0 \<or> i = length s \<or> (i < length s \<and> \<not> is_cont (byte_of (s ! i)))"

text \<open>\<open>&s[..end]\<close>\<close>

definition str_to :: "string \<Rightarrow> nat \<Rightarrow> (string, decode_error) res" where
  "str_to s stop = (if is_char_boundary s stop then Ok (take stop s) else Panic)"

fun floor_boundary :: "string \<Rightarrow> nat \<Rightarrow> nat" where
  "floor_boundary s 0 = 0"
| "floor_boundary s (Suc n) = (if is_char_boundary s (Suc n) then Suc n else floor_boundary s n)"

definition ellipsis :: string where
  "ellipsis = [CHR 0xE2, CHR 0x80, CHR 0xA6]"

definition truncate :: "string \<Rightarrow> nat \<Rightarrow> (string, decode_error) res" where
  "truncate s mx =
     (if length s \<le> mx then Ok s
      else and_then (str_to s (floor_boundary s mx)) (\<lambda>p. Ok (p @ ellipsis)))"

section \<open>Parsing\<close>

text \<open>The start line: a response (\<open>HTTP/\<close> first) or a request.\<close>

definition parse_start :: "string \<Rightarrow> (http_message option, decode_error) res" where
  "parse_start start =
     (case strip_prefix ''HTTP/'' start of
        Some rest \<Rightarrow>
          (case splitn 3 CHR '' '' rest of
             v # s # others \<Rightarrow>
               (case parse_uint 65535 s of
                  None \<Rightarrow> Ok None
                | Some status \<Rightarrow>
                    if \<not> (100 \<le> status \<and> status \<le> 599) then Ok None
                    else
                      and_then
                        (case others of [] \<Rightarrow> Ok None
                         | s # _ \<Rightarrow> and_then (truncate s 120) (\<lambda>t. Ok (Some t))) (\<lambda>reason.
                      Ok (Some (empty_message
                        \<lparr>hm_kind := Response, hm_version := ''HTTP/'' @ v,
                         hm_status := Some (word_of_nat status), hm_reason := reason\<rparr>))))
           | _ \<Rightarrow> Ok None)
      | None \<Rightarrow>
          (case split_on CHR '' '' start of
             method # others \<Rightarrow>
               if method \<notin> set METHODS then Ok None
               else
                 (case others of
                    uri # version # _ \<Rightarrow>
                      if \<not> has_prefix ''HTTP/1.'' version then Ok None
                      else
                        and_then (truncate uri 512) (\<lambda>u.
                        Ok (Some (empty_message
                          \<lparr>hm_kind := Request, hm_version := version, hm_method := Some method,
                           hm_uri := Some u\<rparr>)))
                  | _ \<Rightarrow> Ok None)
           | [] \<Rightarrow> Ok None))"

definition store_header :: "string \<Rightarrow> string \<Rightarrow> http_message \<Rightarrow> http_message" where
  "store_header name value msg =
     (if name = ''host'' then msg\<lparr>hm_host := Some value\<rparr>
      else if name = ''user-agent'' then msg\<lparr>hm_user_agent := Some value\<rparr>
      else if name = ''server'' then msg\<lparr>hm_server := Some value\<rparr>
      else if name = ''content-type'' then msg\<lparr>hm_content_type := Some value\<rparr>
      else if name = ''content-length'' then
        msg\<lparr>hm_content_length := parse_uint (2 ^ 64 - 1) value\<rparr>
      else if name = ''location'' then msg\<lparr>hm_location := Some value\<rparr>
      else if name = ''referer'' then msg\<lparr>hm_referer := Some value\<rparr>
      else msg)"

definition count_header :: "string \<Rightarrow> http_message \<Rightarrow> http_message" where
  "count_header name msg =
     (let msg = msg\<lparr>hm_header_count := hm_header_count msg + 1\<rparr> in
      if name = ''authorization'' \<or> name = ''proxy-authorization''
      then msg\<lparr>hm_has_authorization := True\<rparr>
      else if name = ''cookie'' \<or> name = ''set-cookie'' then msg\<lparr>hm_has_cookie := True\<rparr>
      else msg)"

fun header_lines :: "string list \<Rightarrow> http_message \<Rightarrow> (http_message, decode_error) res" where
  "header_lines [] msg = Ok msg"
| "header_lines (line # lines) msg =
     (case split_once CHR '':'' line of
        None \<Rightarrow> header_lines lines msg
      | Some (n, v) \<Rightarrow>
          let name = to_ascii_lowercase (trim n); value = trim v; msg = count_header name msg in
          if name \<notin> set KEPT_HEADERS then header_lines lines msg
          else and_then (truncate value 256) (\<lambda>value. header_lines lines (store_header name value msg)))"

definition http_parse :: "bytes \<Rightarrow> (http_message option, decode_error) res" where
  "http_parse payload =
     and_then (find_header_end payload) (\<lambda>(head_end, complete).
     and_then (sub_list payload 0 head_end) (\<lambda>head.
     case from_utf8 head of
       None \<Rightarrow> Ok None
     | Some text \<Rightarrow>
         (case filter (\<lambda>l. l \<noteq> []) (split_crlf text) of
            [] \<Rightarrow> Ok None
          | start # lines \<Rightarrow>
              and_then (parse_start start) (\<lambda>m.
              case m of
                None \<Rightarrow> Ok None
              | Some msg \<Rightarrow>
                  and_then (header_lines lines msg) (\<lambda>msg.
                  Ok (Some (msg\<lparr>hm_complete := complete\<rparr>)))))))"

section \<open>Safety and bounds\<close>

lemma floor_boundary_ok: "is_char_boundary s (floor_boundary s n) \<and> floor_boundary s n \<le> n"
  by (induction n) (auto simp: is_char_boundary_def)

lemma safe_truncate: "safe (\<lambda>t. length t \<le> mx + 3) (truncate s mx)"
  using floor_boundary_ok [of s mx]
  by (auto simp: truncate_def str_to_def ellipsis_def)

lemma truncate_short: "length s \<le> mx \<Longrightarrow> truncate s mx = Ok s"
  by (simp add: truncate_def)

definition opt_le :: "nat \<Rightarrow> string option \<Rightarrow> bool" where
  "opt_le n x \<longleftrightarrow> (case x of None \<Rightarrow> True | Some s \<Rightarrow> length s \<le> n)"

lemma opt_le_simps [simp]: "opt_le n None" "opt_le n (Some s) \<longleftrightarrow> length s \<le> n"
  by (simp_all add: opt_le_def)

text \<open>What a message may retain: every stored string is bounded.\<close>

definition http_bounded :: "http_message \<Rightarrow> bool" where
  "http_bounded m \<longleftrightarrow>
     opt_le 515 (hm_uri m) \<and> opt_le 123 (hm_reason m) \<and> opt_le 259 (hm_host m) \<and>
     opt_le 259 (hm_user_agent m) \<and> opt_le 259 (hm_server m) \<and> opt_le 259 (hm_content_type m) \<and>
     opt_le 259 (hm_location m) \<and> opt_le 259 (hm_referer m) \<and>
     (\<forall>x \<in> set_option (hm_method m). x \<in> set METHODS) \<and>
     (\<forall>c \<in> set_option (hm_content_length m). c < 2 ^ 64)"

lemma http_bounded_empty: "http_bounded empty_message"
  by (simp add: http_bounded_def empty_message_def)

lemma safe_parse_start: "safe (\<lambda>m. \<forall>x \<in> set_option m. http_bounded x) (parse_start start)"
  using http_bounded_empty
  by (auto simp: parse_start_def http_bounded_def
      intro!: safe_and_then [OF safe_truncate] safe_and_then [where P = "opt_le 123"]
      split: option.splits list.splits)

lemma http_bounded_flags [simp]:
  "http_bounded (m\<lparr>hm_has_authorization := b\<rparr>) = http_bounded m"
  "http_bounded (m\<lparr>hm_has_cookie := b\<rparr>) = http_bounded m"
  "http_bounded (m\<lparr>hm_header_count := n\<rparr>) = http_bounded m"
  "http_bounded (m\<lparr>hm_complete := b\<rparr>) = http_bounded m"
  by (simp_all add: http_bounded_def)

lemma http_bounded_fields:
  assumes "http_bounded m" and "length v \<le> 259"
  shows "http_bounded (m\<lparr>hm_host := Some v\<rparr>)" "http_bounded (m\<lparr>hm_user_agent := Some v\<rparr>)"
    "http_bounded (m\<lparr>hm_server := Some v\<rparr>)" "http_bounded (m\<lparr>hm_content_type := Some v\<rparr>)"
    "http_bounded (m\<lparr>hm_location := Some v\<rparr>)" "http_bounded (m\<lparr>hm_referer := Some v\<rparr>)"
    "http_bounded (m\<lparr>hm_content_length := parse_uint 18446744073709551615 v\<rparr>)"
  using assms parse_uint_le [of 18446744073709551615 v] by (auto simp: http_bounded_def)

lemma http_bounded_count: "http_bounded m \<Longrightarrow> http_bounded (count_header n m)"
  by (simp add: count_header_def Let_def)

lemma http_bounded_store: "http_bounded m \<Longrightarrow> length v \<le> 259 \<Longrightarrow> http_bounded (store_header n v m)"
  unfolding store_header_def by (simp add: http_bounded_fields)

lemma safe_header_lines: "http_bounded msg \<Longrightarrow> safe http_bounded (header_lines lines msg)"
proof (induction lines arbitrary: msg)
  case (Cons line lines)
  then show ?case
    by (auto simp: Let_def http_bounded_count http_bounded_store
        intro!: safe_and_then [OF safe_truncate] split: option.splits)
qed simp

lemma find_window_Some: "find_window pat bs = Some p \<Longrightarrow> p + length pat \<le> length bs"
proof (induction bs arbitrary: p)
  case (Cons b bs)
  show ?case
  proof (cases "has_prefix pat (b # bs)")
    case True
    then have "length (take (length pat) (b # bs)) = length pat" by (simp add: has_prefix_def)
    with True Cons.prems show ?thesis by (simp only: length_take find_window.simps if_True option.inject)
  next
    case False
    with Cons show ?thesis by auto
  qed
qed simp

lemma safe_find_header_end:
  "safe (\<lambda>(head_end, complete). head_end \<le> length payload) (find_header_end payload)"
  using find_window_Some [of CRLF2 "take (min (length payload) (16 * 1024)) payload"]
  by (force simp: find_header_end_def CRLF2_def split: option.splits)

lemma safe_http_parse: "safe (pred_option http_bounded) (http_parse payload)"
proof -
  have "safe (pred_option http_bounded)
     (case from_utf8 head of
       None \<Rightarrow> Ok None
     | Some text \<Rightarrow>
         (case filter (\<lambda>l. l \<noteq> []) (split_crlf text) of
            [] \<Rightarrow> Ok None
          | start # lines \<Rightarrow>
              and_then (parse_start start) (\<lambda>m.
              case m of
                None \<Rightarrow> Ok None
              | Some msg \<Rightarrow>
                  and_then (header_lines lines msg) (\<lambda>msg.
                  Ok (Some (msg\<lparr>hm_complete := complete\<rparr>))))))" for head complete
    by (auto simp: option.pred_set
        intro!: safe_and_then [OF safe_parse_start] safe_and_then [OF safe_header_lines] split: option.splits list.splits)
  then show ?thesis
    unfolding http_parse_def
    by (intro safe_and_then_pair [OF safe_find_header_end] safe_and_then [where P = "\<lambda>_. True"]) auto
qed

lemma no_err_truncate [no_err_rules]: "no_err (truncate s mx)"
  by (simp add: truncate_def str_to_def)

lemma no_err_header_lines [no_err_rules]: "no_err (header_lines lines msg)"
proof (induction lines arbitrary: msg)
  case (Cons line lines)
  show ?case
    unfolding header_lines.simps by (intro no_err_rules Cons.IH)
qed simp

lemma no_err_http_parse [no_err_rules]: "no_err (http_parse payload)"
  unfolding http_parse_def find_header_end_def parse_start_def by (intro no_err_rules)

text \<open>
  HTTP parsing is total on arbitrary bytes, multi-byte text included: no slice falls off a
  buffer or a character boundary, and whatever message comes out retains only bounded strings, a
  method of the known list, and a content length of 64 bits.
\<close>

lemma http_parse_safe:
  "returns (pred_option http_bounded) (http_parse payload)"
  by (rule returnsI [OF safe_http_parse no_err_http_parse])

section \<open>Framing\<close>

definition CRLF :: string where "CRLF = [CHR 0x0D, CHR 0x0A]"

definition header_block :: "string list \<Rightarrow> string" where
  "header_block lines = concat (map (\<lambda>l. l @ CRLF) lines)"

definition line_ok :: "string \<Rightarrow> bool" where
  "line_ok l \<longleftrightarrow> l \<noteq> [] \<and> CHR 0x0D \<notin> set l"

lemma byte_of_CR [simp]: "byte_of CHR 0x0D = 0x0D" "byte_of CHR 0x0A = 0x0A"
  by (simp_all add: byte_of_def)

lemma byte_of_eq_CR: "byte_of c = 0x0D \<longleftrightarrow> c = CHR 0x0D"
  by (metis byte_of_CR(1) chr_byte_of)

lemma bytes_of_append [simp]: "bytes_of (a @ b) = bytes_of a @ bytes_of b"
  by (simp add: bytes_of_def)

lemma find_window_skip:
  "CHR 0x0D \<notin> set l \<Longrightarrow>
     find_window CRLF2 (bytes_of l @ xs) = map_option (\<lambda>n. length l + n) (find_window CRLF2 xs)"
proof (induction l)
  case (Cons c l)
  then have "\<not> has_prefix CRLF2 (byte_of c # bytes_of l @ xs)"
    using byte_of_eq_CR [of c] by (auto simp: has_prefix_def CRLF2_def)
  with Cons show ?case by (simp add: bytes_of_def option.map_comp o_def)
qed (cases "find_window CRLF2 xs"; simp add: bytes_of_def)

lemma find_window_CRLF:
  "x \<noteq> 0x0D \<Longrightarrow>
     find_window CRLF2 (0x0D # 0x0A # x # xs) = map_option (\<lambda>n. 2 + n) (find_window CRLF2 (x # xs))"
  by (simp add: has_prefix_def CRLF2_def option.map_comp o_def)

lemma find_window_block:
  "\<forall>l \<in> set (start # lines). line_ok l \<Longrightarrow>
     find_window CRLF2 (bytes_of (header_block (start # lines)) @ bytes_of CRLF @ body) =
       Some (length (header_block (start # lines)) - 2)"
proof (induction lines arbitrary: start)
  case Nil
  then show ?case
    by (simp add: header_block_def line_ok_def find_window_skip CRLF_def bytes_of_def [of "[_, _]"])
      (simp add: bytes_of_def CRLF2_def has_prefix_def)
next
  case (Cons l lines)
  from Cons.prems obtain c cs where l: "l = c # cs" "c \<noteq> CHR 0x0D"
    by (cases l) (auto simp: line_ok_def)
  let ?rest = "bytes_of (header_block (l # lines)) @ bytes_of CRLF @ body"
  have hd: "?rest = byte_of c # tl ?rest" by (simp add: header_block_def l bytes_of_def)
  have "find_window CRLF2 (0x0D # 0x0A # ?rest) = map_option (\<lambda>n. 2 + n) (find_window CRLF2 ?rest)"
    using l byte_of_eq_CR [of c] by (subst (1 2) hd, intro find_window_CRLF) simp
  also have "find_window CRLF2 ?rest = Some (length (header_block (l # lines)) - 2)"
    using Cons.IH [of l] Cons.prems by simp
  also have "map_option (\<lambda>n. 2 + n) \<dots> = Some (length (header_block (l # lines)))"
    by (simp add: header_block_def CRLF_def)
  finally have "find_window CRLF2 (bytes_of start @ 0x0D # 0x0A # ?rest) =
      Some (length start + length (header_block (l # lines)))"
    using Cons.prems by (simp add: find_window_skip line_ok_def)
  moreover have "bytes_of (header_block (start # l # lines)) @ bytes_of CRLF @ body =
      bytes_of start @ 0x0D # 0x0A # ?rest"
    by (simp add: header_block_def CRLF_def bytes_of_def)
  ultimately show ?case by (simp add: header_block_def CRLF_def)
qed

lemma split_crlf_line: "CHR 0x0D \<notin> set l \<Longrightarrow> split_crlf (l @ CHR 0x0D # CHR 0x0A # xs) = l # split_crlf xs"
proof (induction l)
  case (Cons c l)
  then show ?case by (cases l) auto
qed simp

lemma split_crlf_block:
  "\<forall>l \<in> set lines. line_ok l \<Longrightarrow> filter (\<lambda>l. l \<noteq> []) (split_crlf (header_block lines)) = lines"
  by (induction lines) (auto simp: header_block_def line_ok_def CRLF_def split_crlf_line)

lemma http_parse_block:
  assumes "\<forall>l \<in> set (start # lines). line_ok l"
    and "length (header_block (start # lines)) + 2 \<le> 16384"
    and "utf8_valid (bytes_of (header_block (start # lines)))"
  shows "http_parse (bytes_of (header_block (start # lines) @ CRLF) @ body) =
    and_then (parse_start start) (\<lambda>m. case m of
        None \<Rightarrow> Ok None
      | Some msg \<Rightarrow> and_then (header_lines lines msg) (\<lambda>msg. Ok (Some (msg\<lparr>hm_complete := True\<rparr>))))"
proof -
  let ?b = "header_block (start # lines)"
  let ?p = "bytes_of (?b @ CRLF) @ body"
  let ?hay = "take (min (length ?p) 16384) ?p"
  have l2: "length CRLF = 2" by (simp add: CRLF_def)
  then have len: "length ?b + 2 \<le> length ?p" by simp
  have hay: "?hay = bytes_of ?b @ bytes_of CRLF @ take (min (length ?p) 16384 - (length ?b + 2)) body"
    using assms(2) l2 len by simp
  have "find_window CRLF2 ?hay = Some (length ?b - 2)"
    unfolding hay by (rule find_window_block [OF assms(1)])
  moreover have "2 \<le> length ?b" by (simp add: header_block_def l2)
  ultimately have "find_header_end ?p = Ok (length ?b, True)"
    by (simp add: find_header_end_def)
  moreover have "from_utf8 (bytes_of ?b) = Some ?b" using assms(3) by (simp add: from_utf8_def)
  moreover have "filter (\<lambda>l. l \<noteq> []) (split_crlf ?b) = start # lines"
    using split_crlf_block [OF assms(1)] .
  ultimately show ?thesis
    by (simp add: http_parse_def del: split_crlf.simps)
qed

text \<open>
  C23. Framing: a header block that fits the 16 KiB window is read line by line exactly as sent, the
  message is marked complete, and the bytes behind the blank line have no influence.
\<close>

theorem http_parse_framing:
  assumes "\<forall>l \<in> set (start # lines). line_ok l"
    and "length (header_block (start # lines)) + 2 \<le> 16384"
    and "utf8_valid (bytes_of (header_block (start # lines)))"
  shows "http_parse (bytes_of (header_block (start # lines) @ CRLF) @ body) =
    and_then (parse_start start) (\<lambda>m. case m of
        None \<Rightarrow> Ok None
      | Some msg \<Rightarrow> and_then (header_lines lines msg) (\<lambda>msg. Ok (Some (msg\<lparr>hm_complete := True\<rparr>))))"
  by (rule http_parse_block [OF assms])

theorem http_parse_framing_witness:
  "http_parse (bytes_of (header_block [''GET /x HTTP/1.1'', ''Host: a.b'', ''Cookie: s''] @ CRLF) @ [0xFF, 1]) =
    Ok (Some (empty_message\<lparr>hm_version := ''HTTP/1.1'', hm_method := Some ''GET'', hm_uri := Some ''/x'',
      hm_host := Some ''a.b'', hm_has_cookie := True, hm_header_count := 2, hm_complete := True\<rparr>))"
proof -
  have "\<forall>l \<in> set (''GET /x HTTP/1.1'' # [''Host: a.b'', ''Cookie: s'']). line_ok l"
    and "length (header_block (''GET /x HTTP/1.1'' # [''Host: a.b'', ''Cookie: s''])) + 2 \<le> 16384"
    and "utf8_valid (bytes_of (header_block (''GET /x HTTP/1.1'' # [''Host: a.b'', ''Cookie: s''])))"
    by code_simp+
  note framed = http_parse_framing [OF this, of "[0xFF, 1]"]
  have "parse_start ''GET /x HTTP/1.1'' =
      Ok (Some (empty_message\<lparr>hm_version := ''HTTP/1.1'', hm_method := Some ''GET'', hm_uri := Some ''/x''\<rparr>))"
    by code_simp
  moreover have "header_lines [''Host: a.b'', ''Cookie: s'']
      (empty_message\<lparr>hm_version := ''HTTP/1.1'', hm_method := Some ''GET'', hm_uri := Some ''/x''\<rparr>) =
      Ok (empty_message\<lparr>hm_version := ''HTTP/1.1'', hm_method := Some ''GET'', hm_uri := Some ''/x'',
      hm_host := Some ''a.b'', hm_has_cookie := True, hm_header_count := 2\<rparr>)"
    by code_simp
  ultimately show ?thesis using framed by simp
qed

end
