(* ===== verification/Tls.thy ===== *)
theory Tls
  imports Bytes
begin

unbundle bit_operations_syntax

text \<open>
  \<open>proto/tls.rs\<close> and \<open>hex\<close> of \<open>proto/mod.rs\<close>: ClientHello and ServerHello with SNI, ALPN, the
  negotiated version and the JA3 string.  MD5 is a third-party crate, so it is the parameter
  \<open>md5\<close> of the parser.  The loops run over sub-readers; each one's measure is what is left to read.
\<close>

text \<open>\<open>proto::hex\<close>\<close>

definition hex :: "bytes \<Rightarrow> string" where
  "hex bs = concat (map hex2 bs)"

lemma length_hex: "length (hex bs) = 2 * length bs"
  by (induction bs) (simp_all add: hex_def hex2_def)

section \<open>Hellos\<close>

definition CONTENT_TYPE_HANDSHAKE :: u8 where "CONTENT_TYPE_HANDSHAKE = 22"
definition HANDSHAKE_CLIENT_HELLO :: u8 where "HANDSHAKE_CLIENT_HELLO = 1"
definition HANDSHAKE_SERVER_HELLO :: u8 where "HANDSHAKE_SERVER_HELLO = 2"
definition EXT_SERVER_NAME :: u16 where "EXT_SERVER_NAME = 0"
definition EXT_SUPPORTED_GROUPS :: u16 where "EXT_SUPPORTED_GROUPS = 10"
definition EXT_EC_POINT_FORMATS :: u16 where "EXT_EC_POINT_FORMATS = 11"
definition EXT_ALPN :: u16 where "EXT_ALPN = 16"
definition EXT_SUPPORTED_VERSIONS :: u16 where "EXT_SUPPORTED_VERSIONS = 43"

lemmas tls_consts = CONTENT_TYPE_HANDSHAKE_def HANDSHAKE_CLIENT_HELLO_def
  HANDSHAKE_SERVER_HELLO_def EXT_SERVER_NAME_def EXT_SUPPORTED_GROUPS_def
  EXT_EC_POINT_FORMATS_def EXT_ALPN_def EXT_SUPPORTED_VERSIONS_def

datatype tls_kind = Client | Server

record tls_hello =
  th_kind :: tls_kind
  th_record_version :: u16
  th_negotiated_version :: u16
  th_sni :: "string option"
  th_alpn :: "string list"
  th_cipher_suites :: "u16 list"
  th_extensions :: "u16 list"
  th_ja3 :: string
  th_ja3_md5 :: string
  th_session_id_len :: nat
  th_complete :: bool

definition version_name :: "u16 \<Rightarrow> string" where
  "version_name v =
     (if v = 0x0300 then ''SSL 3.0'' else if v = 0x0301 then ''TLS 1.0''
      else if v = 0x0302 then ''TLS 1.1'' else if v = 0x0303 then ''TLS 1.2''
      else if v = 0x0304 then ''TLS 1.3'' else ''unknown'')"

definition is_obsolete_version :: "tls_hello \<Rightarrow> bool" where
  "is_obsolete_version h \<longleftrightarrow>
     0x0300 \<le> th_negotiated_version h \<and> th_negotiated_version h \<le> 0x0302"

definition is_grease :: "u16 \<Rightarrow> bool" where
  "is_grease v \<longleftrightarrow> v AND 0x0F0F = 0x0A0A \<and> drop_bit 8 v = v AND 0x00FF"

definition join_u16 :: "u16 list \<Rightarrow> string" where
  "join_u16 v = join ''-'' (map (\<lambda>x. show_nat (unat x)) v)"

section \<open>Loops over sub-readers\<close>

lemma rd_be_u16_progress: "rd_be_u16 r = Ok (v, r') \<Longrightarrow> rd_remaining r' + 2 = rd_remaining r"
  by (auto simp: rd_be_u16_def rd_array_def rd_need_def rd_remaining_def split: if_splits)

lemma rd_take_progress: "rd_take n r = Ok (s, r') \<Longrightarrow> rd_remaining r' \<le> rd_remaining r"
  by (auto simp: rd_take_def rd_need_def rd_remaining_def split: if_splits)

text \<open>\<open>while cs.remaining() >= 2\<close> of the cipher list.\<close>

function read_ciphers :: "reader \<Rightarrow> u16 list \<Rightarrow> u16 list dres" where
  "read_ciphers r out =
     (if rd_remaining r \<ge> 2 then
        and_then (rd_be_u16 r) (\<lambda>(v, r').
        read_ciphers r' (if \<not> is_grease v then out @ [v] else out))
      else Ok out)"
  by pat_completeness auto
termination
  by (relation "measure (\<lambda>(r, out). rd_remaining r)") (auto dest: rd_be_u16_progress)

declare read_ciphers.simps [simp del]

text \<open>\<open>while let Ok(v) = data.be_u16()\<close> of the supported groups.\<close>

function read_group_list :: "reader \<Rightarrow> u16 list \<Rightarrow> u16 list dres" where
  "read_group_list r out =
     (case rd_be_u16 r of
        Ok (v, r') \<Rightarrow> read_group_list r' (if \<not> is_grease v then out @ [v] else out)
      | Err _ \<Rightarrow> Ok out
      | Panic \<Rightarrow> Panic)"
  by pat_completeness auto
termination
  by (relation "measure (\<lambda>(r, out). rd_remaining r)") (auto dest!: rd_be_u16_progress)

declare read_group_list.simps [simp del]

fun read_formats :: "nat \<Rightarrow> reader \<Rightarrow> u8 list \<Rightarrow> u8 list dres" where
  "read_formats 0 r out = Ok out"
| "read_formats (Suc n) r out =
     (case rd_u8 r of
        Ok (v, r') \<Rightarrow> read_formats n r' (out @ [v])
      | Err _ \<Rightarrow> Ok out
      | Panic \<Rightarrow> Panic)"

text \<open>\<open>while list.remaining() >= 3\<close> of \<open>read_sni\<close>.\<close>

function sni_loop :: "reader \<Rightarrow> string option dres" where
  "sni_loop r =
     (if rd_remaining r \<ge> 3 then
        and_then (rd_u8 r) (\<lambda>(name_type, r1).
        and_then (rd_be_u16 r1) (\<lambda>(len, r2).
        and_then (rd_take (unat len) r2) (\<lambda>(bs, r3).
        if name_type = 0 then Ok (Some (from_utf8_lossy (sl_bytes bs))) else sni_loop r3)))
      else Ok None)"
  by pat_completeness auto
termination
  by (relation "measure rd_remaining") (auto dest!: rd_be_u16_progress rd_u8_progress rd_take_progress)

declare sni_loop.simps [simp del]

definition read_sni :: "reader \<Rightarrow> string option dres" where
  "read_sni r =
     and_then (rd_be_u16 r) (\<lambda>(list_len, r).
     and_then (rd_sub (min (unat list_len) (rd_remaining r)) ''sni list'' r) (\<lambda>(list, r).
     sni_loop list))"

function alpn_loop :: "reader \<Rightarrow> string list \<Rightarrow> string list dres" where
  "alpn_loop r out =
     (if rd_remaining r \<ge> 1 then
        and_then (rd_u8 r) (\<lambda>(len, r1).
        and_then (rd_take (unat len) r1) (\<lambda>(bs, r2).
        alpn_loop r2 (out @ [from_utf8_lossy (sl_bytes bs)])))
      else Ok out)"
  by pat_completeness auto
termination
  by (relation "measure (\<lambda>(r, out). rd_remaining r)") (auto dest!: rd_u8_progress rd_take_progress)

declare alpn_loop.simps [simp del]

definition read_alpn :: "reader \<Rightarrow> string list dres" where
  "read_alpn r =
     and_then (rd_be_u16 r) (\<lambda>(list_len, r).
     and_then (rd_sub (min (unat list_len) (rd_remaining r)) ''alpn list'' r) (\<lambda>(list, r).
     alpn_loop list []))"

function best_version :: "reader \<Rightarrow> u16 \<Rightarrow> u16 dres" where
  "best_version r best =
     (if rd_remaining r \<ge> 2 then
        and_then (rd_be_u16 r) (\<lambda>(v, r').
        best_version r' (if \<not> is_grease v \<and> v > best then v else best))
      else Ok best)"
  by pat_completeness auto
termination
  by (relation "measure (\<lambda>(r, best). rd_remaining r)") (auto dest: rd_be_u16_progress)

declare best_version.simps [simp del]

definition read_supported_versions :: "reader \<Rightarrow> tls_kind \<Rightarrow> u16 dres" where
  "read_supported_versions r kind =
     (case kind of
        Server \<Rightarrow> and_then (rd_be_u16 r) (\<lambda>(v, r). Ok v)
      | Client \<Rightarrow>
          and_then (rd_u8 r) (\<lambda>(len, r).
          and_then (rd_sub (min (unat len) (rd_remaining r)) ''supported versions'' r) (\<lambda>(list, r).
          best_version list 0)))"

section \<open>Extensions\<close>

text \<open>The variables the extension loop fills.\<close>

record ext_acc =
  xa_sni :: "string option"
  xa_alpn :: "string list"
  xa_extensions :: "u16 list"
  xa_groups :: "u16 list"
  xa_formats :: "u8 list"
  xa_version :: u16

text \<open>\<open>if let Ok(v) = m\<close>\<close>

definition if_ok :: "'a dres \<Rightarrow> ('a \<Rightarrow> 'b dres) \<Rightarrow> 'b \<Rightarrow> 'b dres" where
  "if_ok m f d = (case m of Ok v \<Rightarrow> f v | Err _ \<Rightarrow> Ok d | Panic \<Rightarrow> Panic)"

definition apply_ext :: "tls_kind \<Rightarrow> u16 \<Rightarrow> reader \<Rightarrow> ext_acc \<Rightarrow> ext_acc dres" where
  "apply_ext kind ext_type data a =
     (if ext_type = EXT_SERVER_NAME then
        if_ok (read_sni data) (\<lambda>name. Ok (a\<lparr>xa_sni := name\<rparr>)) a
      else if ext_type = EXT_ALPN then
        if_ok (read_alpn data) (\<lambda>list. Ok (a\<lparr>xa_alpn := list\<rparr>)) a
      else if ext_type = EXT_SUPPORTED_GROUPS then
        if_ok (rd_be_u16 data) (\<lambda>(_, data).
          and_then (read_group_list data (xa_groups a)) (\<lambda>gs. Ok (a\<lparr>xa_groups := gs\<rparr>))) a
      else if ext_type = EXT_EC_POINT_FORMATS then
        if_ok (rd_u8 data) (\<lambda>(len, data).
          and_then (read_formats (unat len) data (xa_formats a)) (\<lambda>fs. Ok (a\<lparr>xa_formats := fs\<rparr>))) a
      else if ext_type = EXT_SUPPORTED_VERSIONS then
        if_ok (read_supported_versions data kind)
          (\<lambda>v. Ok (a\<lparr>xa_version := max v (xa_version a)\<rparr>)) a
      else Ok a)"

function ext_walk :: "tls_kind \<Rightarrow> reader \<Rightarrow> ext_acc \<Rightarrow> ext_acc dres" where
  "ext_walk kind r a =
     (if rd_remaining r \<ge> 4 then
        and_then (rd_be_u16 r) (\<lambda>(ext_type, r1).
        and_then (rd_be_u16 r1) (\<lambda>(ext_len, r2).
        (case rd_sub (unat ext_len) ''tls extension'' r2 of
           Err _ \<Rightarrow> Ok a
         | Panic \<Rightarrow> Panic
         | Ok (data, r3) \<Rightarrow>
             if is_grease ext_type then ext_walk kind r3 a
             else
               and_then (apply_ext kind ext_type data (a\<lparr>xa_extensions := xa_extensions a @ [ext_type]\<rparr>))
                 (\<lambda>a'. ext_walk kind r3 a'))))
      else Ok a)"
  by pat_completeness auto
termination
  by (relation "measure (\<lambda>(kind, r, a). rd_remaining r)")
    (auto dest!: rd_be_u16_progress rd_sub_progress [where l = "''tls extension''"])

declare ext_walk.simps [simp del]

section \<open>The hello\<close>

text \<open>Cipher suites and compression: a list for the client, the one selected for the server.\<close>

definition hello_ciphers :: "tls_kind \<Rightarrow> reader \<Rightarrow> (u16 list \<times> reader) dres" where
  "hello_ciphers kind r =
     (case kind of
        Client \<Rightarrow>
          and_then (rd_be_u16 r) (\<lambda>(cs_len, r).
          and_then (rd_sub (unat cs_len) ''tls ciphers'' r) (\<lambda>(cs, r).
          and_then (read_ciphers cs []) (\<lambda>cipher_suites.
          and_then (rd_u8 r) (\<lambda>(comp_len, r).
          and_then (rd_skip (unat comp_len) r) (\<lambda>r.
          Ok (cipher_suites, r))))))
      | Server \<Rightarrow>
          and_then (rd_be_u16 r) (\<lambda>(v, r).
          and_then (rd_skip 1 r) (\<lambda>r.
          Ok ([v], r))))"

definition hello_extensions :: "tls_kind \<Rightarrow> u16 \<Rightarrow> reader \<Rightarrow> ext_acc dres" where
  "hello_extensions kind legacy_version r =
     (let a = \<lparr>xa_sni = None, xa_alpn = [], xa_extensions = [], xa_groups = [], xa_formats = [],
                xa_version = legacy_version\<rparr> in
      if rd_remaining r \<ge> 2 then
        and_then (rd_be_u16 r) (\<lambda>(ext_total, r).
        and_then (rd_sub (min (unat ext_total) (rd_remaining r)) ''tls extensions'' r) (\<lambda>(exts, r).
        ext_walk kind exts a))
      else Ok a)"

definition ja3_string :: "tls_kind \<Rightarrow> u16 \<Rightarrow> u16 list \<Rightarrow> ext_acc \<Rightarrow> string" where
  "ja3_string kind legacy_version cipher_suites a =
     (case kind of
        Client \<Rightarrow>
          show_nat (unat legacy_version) @ '','' @ join_u16 cipher_suites @ '','' @
          join_u16 (xa_extensions a) @ '','' @ join_u16 (xa_groups a) @ '','' @
          join ''-'' (map (\<lambda>v. show_nat (unat v)) (xa_formats a))
      | Server \<Rightarrow>
          show_nat (unat legacy_version) @ '','' @ join_u16 cipher_suites @ '','' @
          join_u16 (xa_extensions a))"

definition hello_kind :: "u8 \<Rightarrow> tls_kind option" where
  "hello_kind msg_type =
     (if msg_type = HANDSHAKE_CLIENT_HELLO then Some Client
      else if msg_type = HANDSHAKE_SERVER_HELLO then Some Server else None)"

definition tls_parse_strict :: "(bytes \<Rightarrow> bytes) \<Rightarrow> slice \<Rightarrow> tls_hello option dres" where
  "tls_parse_strict md5 payload =
     (let r = rd_new payload ''tls record'' in
      and_then (rd_peek_u8 r) (\<lambda>ct.
      if ct \<noteq> CONTENT_TYPE_HANDSHAKE then Ok None
      else
        and_then (rd_skip 1 r) (\<lambda>r.
        and_then (rd_be_u16 r) (\<lambda>(record_version, r).
        and_then (rd_be_u16 r) (\<lambda>(record_len, r).
        let available = min (unat record_len) (rd_remaining r);
            complete = (unat record_len \<le> rd_remaining r)
        in
        and_then (rd_sub available ''tls handshake'' r) (\<lambda>(rec, r).
        and_then (rd_u8 rec) (\<lambda>(msg_type, rec).
        case hello_kind msg_type of
          None \<Rightarrow> Ok None
        | Some kind \<Rightarrow>
            and_then (rd_be_u24 rec) (\<lambda>(len, rec).
            and_then (rd_be_u16 rec) (\<lambda>(legacy_version, rec).
            and_then (rd_skip 32 rec) (\<lambda>rec.
            and_then (rd_u8 rec) (\<lambda>(session_id_len, rec).
            and_then (rd_skip (unat session_id_len) rec) (\<lambda>rec.
            and_then (hello_ciphers kind rec) (\<lambda>(cipher_suites, rec).
            and_then (hello_extensions kind legacy_version rec) (\<lambda>a.
            let ja3 = ja3_string kind legacy_version cipher_suites a in
            Ok (Some \<lparr>th_kind = kind, th_record_version = record_version,
              th_negotiated_version = xa_version a, th_sni = xa_sni a, th_alpn = xa_alpn a,
              th_cipher_suites = cipher_suites, th_extensions = xa_extensions a,
              th_ja3 = ja3, th_ja3_md5 = hex (md5 (bytes_of ja3)),
              th_session_id_len = unat session_id_len, th_complete = complete\<rparr>)))))))))))))))"

definition tls_parse :: "(bytes \<Rightarrow> bytes) \<Rightarrow> slice \<Rightarrow> tls_hello option dres" where
  "tls_parse md5 payload =
     (case tls_parse_strict md5 payload of
        Ok h \<Rightarrow> Ok h | Err _ \<Rightarrow> Ok None | Panic \<Rightarrow> Panic)"

section \<open>What the loops compute\<close>

fun u16s :: "bytes \<Rightarrow> u16 list" where
  "u16s (a # b # bs) = be16 a b # u16s bs"
| "u16s _ = []"

lemma rd_be_u16_Cons:
  "rd_wf r \<Longrightarrow> rd_left r = a # b # bs \<Longrightarrow>
     rd_be_u16 r = Ok (be16 a b, rd_adv 2 r) \<and> rd_wf (rd_adv 2 r) \<and> rd_left (rd_adv 2 r) = bs"
  by (simp add: rd_be_u16_eq)

lemma read_ciphers_eq:
  "rd_wf r \<Longrightarrow> rd_left r = bs \<Longrightarrow>
     read_ciphers r out = Ok (out @ filter (\<lambda>v. \<not> is_grease v) (u16s bs))"
proof (induction bs arbitrary: r out rule: u16s.induct)
  case (1 a b bs)
  note s = rd_be_u16_Cons [OF 1(2,3)]
  from 1(1) [of "rd_adv 2 r"] s 1(3) show ?case
    by (simp add: read_ciphers.simps [of r] rd_remaining_left del: rd_left_adv)
qed (simp_all add: read_ciphers.simps rd_remaining_left)

lemma u16s_append: "even (length xs) \<Longrightarrow> u16s (xs @ ys) = u16s xs @ u16s ys"
  by (induction xs rule: u16s.induct) auto

text \<open>
  Inserting a GREASE value (RFC 8701) anywhere in the wire's cipher list leaves the list that is
  kept, and so its part of the JA3 string, exactly as it was.
\<close>

lemma grease_insertion:
  assumes "is_grease (be16 a b)" and "even (length xs)"
  shows "read_ciphers (rd_new (Slice p (xs @ a # b # ys)) l) [] = read_ciphers (rd_new (Slice q (xs @ ys)) l) []"
  using assms by (simp add: read_ciphers_eq u16s_append)

lemma grease_insertion_witness:
  "read_ciphers (rd_new (Slice 0 ([0x13, 0x01] @ 0x7A # 0x7A # [0xC0, 0x2B])) ''tls ciphers'') [] =
   read_ciphers (rd_new (Slice 0 ([0x13, 0x01] @ [0xC0, 0x2B])) ''tls ciphers'') []"
  using grease_insertion [of "0x7A" "0x7A" "[0x13, 0x01]"] by (simp add: is_grease_def be16_def)

section \<open>Safety\<close>

lemma safe_cases: "safe P m \<Longrightarrow> (\<And>x. P x \<Longrightarrow> safe Q (f x)) \<Longrightarrow> Q d \<Longrightarrow> safe Q (if_ok m f d)"
  by (cases m) (auto simp: if_ok_def)

lemma safe_read_ciphers: "rd_in s r \<Longrightarrow> safe (\<lambda>cs. \<forall>v \<in> set cs. \<not> is_grease v) (read_ciphers r [])"
  by (simp add: read_ciphers_eq [OF rd_in_wf refl])

text \<open>Steps that also say the reader gets shorter, for the loops.\<close>

lemma loop_u8:
  "rd_in s r \<Longrightarrow> (\<And>v r'. rd_in s r' \<Longrightarrow> rd_remaining r' < rd_remaining r \<Longrightarrow> safe Q (k v r')) \<Longrightarrow>
     safe Q (and_then (rd_u8 r) (\<lambda>(v, r'). k v r'))"
  by (rule safe_and_then_pair [where P = "\<lambda>(v, r'). rd_in s r' \<and> rd_remaining r' < rd_remaining r"])
    (use safe_rd_u8 [of s r] rd_u8_progress [of r] in \<open>auto simp: safe_def split: res.splits\<close>)

lemma loop_be_u16:
  "rd_in s r \<Longrightarrow> (\<And>v r'. rd_in s r' \<Longrightarrow> rd_remaining r' < rd_remaining r \<Longrightarrow> safe Q (k v r')) \<Longrightarrow>
     safe Q (and_then (rd_be_u16 r) (\<lambda>(v, r'). k v r'))"
  by (rule safe_and_then_pair [where P = "\<lambda>(v, r'). rd_in s r' \<and> rd_remaining r' < rd_remaining r"])
    (use safe_rd_be_u16 [of s r] rd_be_u16_progress [of r] in \<open>force simp: safe_def split: res.splits\<close>)+

lemma loop_take:
  "rd_in s r \<Longrightarrow> (\<And>v r'. rd_in s r' \<Longrightarrow> rd_remaining r' \<le> rd_remaining r \<Longrightarrow> safe Q (k v r')) \<Longrightarrow>
     safe Q (and_then (rd_take n r) (\<lambda>(v, r'). k v r'))"
  by (rule safe_and_then_pair [where P = "\<lambda>(v, r'). rd_in s r' \<and> rd_remaining r' \<le> rd_remaining r"])
    (use safe_rd_take [of s r n] rd_take_progress [of n r] in \<open>auto simp: safe_def split: res.splits\<close>)

lemmas loop_steps = loop_u8 loop_be_u16 loop_take

lemma safe_read_groups: "rd_in s r \<Longrightarrow> safe (\<lambda>_. True) (read_group_list r out)"
proof (induction "rd_remaining r" arbitrary: r out rule: less_induct)
  case less
  show ?case
  proof (cases "rd_be_u16 r")
    case (Ok p)
    then obtain v r' where p: "rd_be_u16 r = Ok (v, r')" by (cases p) auto
    with less.prems have "rd_in s r'" using safe_OkD [OF safe_rd_be_u16 p] by simp
    with less.hyps [of r'] rd_be_u16_progress [OF p] show ?thesis
      by (simp add: read_group_list.simps [of r] p)
  qed (use safe_not_Panic [OF safe_rd_be_u16 [OF less.prems]] in \<open>auto simp: read_group_list.simps [of r]\<close>)
qed

lemma safe_read_formats: "rd_in s r \<Longrightarrow> safe (\<lambda>_. True) (read_formats n r out)"
proof (induction n arbitrary: r out)
  case (Suc n)
  then show ?case using safe_rd_u8 [of s r] by (auto split: res.splits)
qed simp

lemma safe_sni_loop: "rd_in s r \<Longrightarrow> safe (\<lambda>_. True) (sni_loop r)"
proof (induction "rd_remaining r" arbitrary: r rule: less_induct)
  case less
  show ?case
    using less.prems by (subst sni_loop.simps) (intro loop_steps safe_steps less.hyps; (assumption | simp)?)
qed

lemma safe_alpn_loop: "rd_in s r \<Longrightarrow> safe (\<lambda>_. True) (alpn_loop r out)"
proof (induction "rd_remaining r" arbitrary: r out rule: less_induct)
  case less
  show ?case
    using less.prems by (subst alpn_loop.simps) (intro loop_steps safe_steps less.hyps; (assumption | simp)?)
qed

lemma safe_best_version: "rd_in s r \<Longrightarrow> safe (\<lambda>_. True) (best_version r best)"
proof (induction "rd_remaining r" arbitrary: r best rule: less_induct)
  case less
  show ?case
    using less.prems
    by (subst best_version.simps) (intro loop_steps safe_steps less.hyps; (assumption | simp)?)
qed

lemma safe_read_sni: "rd_in s r \<Longrightarrow> safe (\<lambda>_. True) (read_sni r)"
  unfolding read_sni_def by (intro safe_steps safe_sni_loop; assumption)

lemma safe_read_alpn: "rd_in s r \<Longrightarrow> safe (\<lambda>_. True) (read_alpn r)"
  unfolding read_alpn_def by (intro safe_steps safe_alpn_loop; assumption)

lemma safe_read_supported_versions: "rd_in s r \<Longrightarrow> safe (\<lambda>_. True) (read_supported_versions r kind)"
  unfolding read_supported_versions_def
  by (cases kind; simp; intro safe_steps safe_best_version; (assumption | simp)?)

text \<open>No GREASE in the extension list, and the negotiated version never drops.\<close>

definition acc_ok :: "u16 \<Rightarrow> ext_acc \<Rightarrow> bool" where
  "acc_ok v a \<longleftrightarrow> (\<forall>e \<in> set (xa_extensions a). \<not> is_grease e) \<and> v \<le> xa_version a"

lemma safe_apply_ext:
  assumes "rd_in s data" and "acc_ok v a"
  shows "safe (acc_ok v) (apply_ext kind t data a)"
  unfolding apply_ext_def using assms
  by (auto simp: acc_ok_def le_max_iff_disj
      intro!: safe_cases [OF safe_read_sni] safe_cases [OF safe_read_alpn] safe_cases [OF safe_rd_be_u16]
        safe_cases [OF safe_rd_u8] safe_cases [OF safe_read_supported_versions]
        safe_and_then [OF safe_read_groups] safe_and_then [OF safe_read_formats])

lemma safe_ext_walk: "rd_in s r \<Longrightarrow> acc_ok v a \<Longrightarrow> safe (acc_ok v) (ext_walk kind r a)"
proof (induction "rd_remaining r" arbitrary: r a rule: less_induct)
  case less
  have inner: "safe (acc_ok v)
      (case rd_sub (unat ext_len) ''tls extension'' r2 of
           Err _ \<Rightarrow> Ok a
         | Panic \<Rightarrow> Panic
         | Ok (data, r3) \<Rightarrow>
             if is_grease ext_type then ext_walk kind r3 a
             else
               and_then (apply_ext kind ext_type data (a\<lparr>xa_extensions := xa_extensions a @ [ext_type]\<rparr>))
                 (\<lambda>a'. ext_walk kind r3 a'))"
    if r2: "rd_in s r2" and lt: "rd_remaining r2 < rd_remaining r" for ext_type ext_len r2
  proof (cases "rd_sub (unat ext_len) ''tls extension'' r2")
    case (Ok p)
    then obtain data r3 where p: "rd_sub (unat ext_len) ''tls extension'' r2 = Ok (data, r3)" by (cases p) auto
    then obtain s' where s: "rd_in s' data" "rd_in s r3" using safe_OkD [OF safe_rd_sub [OF r2] p] by auto
    have ih: "acc_ok v a' \<Longrightarrow> safe (acc_ok v) (ext_walk kind r3 a')" for a'
      using rd_sub_progress [OF p] lt s(2) by (intro less.hyps) auto
    have "acc_ok v (a\<lparr>xa_extensions := xa_extensions a @ [ext_type]\<rparr>)" if "\<not> is_grease ext_type"
      using less.prems(2) that by (simp add: acc_ok_def)
    with p ih less.prems(2) show ?thesis
      by (auto intro!: safe_and_then [OF safe_apply_ext [OF s(1)]])
  qed (use less.prems(2) safe_not_Panic [OF safe_rd_sub [OF r2]] in auto)
  show ?case
    using less.prems
    by (subst ext_walk.simps) (intro loop_steps safe_if_step safe_Ok_step inner; (assumption | simp)?)
qed

lemma safe_hello_ciphers:
  "rd_in s r \<Longrightarrow>
     safe (\<lambda>(cs, r'). rd_in s r' \<and> (kind = Client \<longrightarrow> (\<forall>v \<in> set cs. \<not> is_grease v))) (hello_ciphers kind r)"
  unfolding hello_ciphers_def
  by (cases kind; simp; intro safe_steps safe_and_then [OF safe_read_ciphers]; (assumption | simp)?)

lemma step_hello_ciphers:
  assumes "rd_in s r" and "\<And>cs r'. rd_in s r' \<Longrightarrow> (kind = Client \<Longrightarrow> \<forall>v \<in> set cs. \<not> is_grease v) \<Longrightarrow> safe Q (k cs r')"
  shows "safe Q (and_then (hello_ciphers kind r) (\<lambda>(cs, r'). k cs r'))"
  by (rule safe_and_then_pair [OF safe_hello_ciphers [OF assms(1)]]) (auto intro: assms(2))

lemma safe_hello_extensions: "rd_in s r \<Longrightarrow> safe (acc_ok v) (hello_extensions kind v r)"
  unfolding hello_extensions_def Let_def
  by (intro safe_steps safe_ext_walk; (assumption | simp add: acc_ok_def)?)

definition hello_ok :: "(bytes \<Rightarrow> bytes) \<Rightarrow> tls_hello \<Rightarrow> bool" where
  "hello_ok md5 h \<longleftrightarrow>
     (\<forall>e \<in> set (th_extensions h). \<not> is_grease e) \<and>
     (th_kind h = Client \<longrightarrow> (\<forall>c \<in> set (th_cipher_suites h). \<not> is_grease c)) \<and>
     th_ja3_md5 h = hex (md5 (bytes_of (th_ja3 h))) \<and> th_session_id_len h < 256"

lemma safe_tls_parse: "safe (pred_option (hello_ok md5)) (tls_parse md5 payload)"
proof -
  have "safe (pred_option (hello_ok md5))
     (case hello_kind msg_type of
          None \<Rightarrow> Ok None
        | Some kind \<Rightarrow>
            and_then (rd_be_u24 rec) (\<lambda>(len, rec).
            and_then (rd_be_u16 rec) (\<lambda>(legacy_version, rec).
            and_then (rd_skip 32 rec) (\<lambda>rec.
            and_then (rd_u8 rec) (\<lambda>(session_id_len, rec).
            and_then (rd_skip (unat session_id_len) rec) (\<lambda>rec.
            and_then (hello_ciphers kind rec) (\<lambda>(cipher_suites, rec).
            and_then (hello_extensions kind legacy_version rec) (\<lambda>a.
            let ja3 = ja3_string kind legacy_version cipher_suites a in
            Ok (Some \<lparr>th_kind = kind, th_record_version = record_version,
              th_negotiated_version = xa_version a, th_sni = xa_sni a, th_alpn = xa_alpn a,
              th_cipher_suites = cipher_suites, th_extensions = xa_extensions a,
              th_ja3 = ja3, th_ja3_md5 = hex (md5 (bytes_of ja3)),
              th_session_id_len = unat session_id_len, th_complete = complete\<rparr>)))))))))"
    if "rd_in s rec" for s msg_type rec record_version complete
  proof (cases "hello_kind msg_type")
    case (Some kind)
    then show ?thesis
      unfolding Some option.case Let_def using that
      by (intro safe_steps step_hello_ciphers safe_and_then [OF safe_hello_extensions];
          (assumption | simp add: hello_ok_def acc_ok_def unat_u8_less)?)
  qed simp
  then have "safe (pred_option (hello_ok md5)) (tls_parse_strict md5 payload)"
    unfolding tls_parse_strict_def Let_def
    by (intro safe_and_then [OF safe_rd_peek_u8] step_rd_skip [OF rd_in_new] safe_steps; (assumption | simp)?)
  then show ?thesis
    by (cases "tls_parse_strict md5 payload") (auto simp: tls_parse_def)
qed

lemma no_err_tls_parse [no_err_rules]: "no_err (tls_parse md5 payload)"
  by (simp add: tls_parse_def split: res.splits)

text \<open>
  TLS decoding is total on arbitrary bytes: nothing panics and every loop ends; an accepted hello
  lists no GREASE extension, a ClientHello no GREASE cipher, and the JA3 digest is the hash of the
  JA3 string that is kept beside it.
\<close>

lemma tls_parse_safe:
  "returns (pred_option (hello_ok md5)) (tls_parse md5 payload)"
  by (rule returnsI [OF safe_tls_parse no_err_tls_parse])

end
