(* ===== verification/Entropy.thy ===== *)
theory Entropy
  imports Complex_Main RustStd
begin

text \<open>
  \<open>shannon_entropy\<close> of \<open>proto/mod.rs\<close>, over the real numbers (the code's \<open>f64\<close> logarithm is not a
  rational function).  The lemmas bound it: by Gibbs' inequality a string of \<open>n\<close> bytes has at most
  \<open>log 2 n\<close> bits per character.
\<close>

section \<open>The score\<close>

text \<open>The histogram \<open>counts\<close>, indexed by byte value.\<close>

definition byte_counts :: "bytes \<Rightarrow> nat list" where
  "byte_counts bs = map (\<lambda>i. count_list bs (word_of_nat i)) [0..<256]"

definition shannon_entropy :: "string \<Rightarrow> real" where
  "shannon_entropy s =
     (if s = [] then 0
      else
        let counts = byte_counts (bytes_of s); len = real (length s) in
        sum_list (map (\<lambda>c. let p = real c / len in - p * log 2 p) (filter (\<lambda>c. 0 < c) counts)))"

section \<open>Gibbs' inequality\<close>

lemma entropy_term:
  assumes "0 < c" and "0 < n" and "0 < (k :: real)"
  shows "- (c / n) * ln (c / n) \<le> (c / n) * ln k + (1 / k - c / n)"
proof -
  have "ln (n / (c * k)) \<le> n / (c * k) - 1" using assms by (intro ln_le_minus_one) simp
  moreover have "ln (n / (c * k)) = - ln (c / n) - ln k"
    using assms by (simp add: ln_div ln_mult)
  ultimately have "(c / n) * (- ln (c / n) - ln k) \<le> (c / n) * (n / (c * k) - 1)"
    using assms by (intro mult_left_mono) auto
  moreover have "(c / n) * (n / (c * k) - 1) = 1 / k - c / n"
    using assms by (simp add: field_simps)
  ultimately show ?thesis by (simp add: algebra_simps)
qed

lemma sum_list_affine:
  "sum_list (map (\<lambda>c. real c / n * a + (1 / k - real c / n)) xs) =
     real (sum_list xs) / n * a + real (length xs) / k - real (sum_list xs) / n"
  by (induction xs) (simp_all add: add_divide_distrib distrib_right)

lemma sum_list_divide: "sum_list (map (\<lambda>c. f c / d) xs) = sum_list (map f xs) / (d :: real)"
  by (induction xs) (simp_all add: add_divide_distrib)

lemma gibbs:
  fixes cs :: "nat list"
  assumes "\<forall>c \<in> set cs. 0 < c" and "cs \<noteq> []"
  shows "sum_list (map (\<lambda>c. - (real c / real (sum_list cs)) * ln (real c / real (sum_list cs))) cs) \<le>
    ln (real (length cs))"
proof -
  let ?n = "real (sum_list cs)" and ?k = "real (length cs)"
  have "0 < sum_list cs" using assms by (cases cs) auto
  then have n: "0 < ?n" and k: "0 < ?k" using assms(2) by auto
  have "sum_list (map (\<lambda>c. - (real c / ?n) * ln (real c / ?n)) cs) \<le>
      sum_list (map (\<lambda>c. real c / ?n * ln ?k + (1 / ?k - real c / ?n)) cs)"
    using assms(1) n k by (intro sum_list_mono entropy_term) auto
  also have "\<dots> = ln ?k" unfolding sum_list_affine using n k by (simp only: divide_self)
  finally show ?thesis .
qed

section \<open>Bounds\<close>

lemma sum_byte_counts: "sum_list (byte_counts bs) = length bs"
proof (induction bs)
  case Nil
  show ?case by (simp add: byte_counts_def sum_list_triv)
next
  case (Cons b bs)
  have u: "unat (word_of_nat i :: u8) = i" if "i < 256" for i
    using that by (simp add: unsigned_of_nat take_bit_nat_eq_self)
  have "sum_list (byte_counts (b # bs)) =
      (\<Sum>i \<in> {0..<256}. (if i = unat b then 1 else 0) + count_list bs (word_of_nat i))"
    unfolding byte_counts_def interv_sum_list_conv_sum_set_nat set_upt
    by (rule sum.cong) (auto simp: u)
  also have "\<dots> = 1 + sum_list (byte_counts bs)"
    using unsigned_less [of b, where ?'a = nat]
    by (simp add: byte_counts_def interv_sum_list_conv_sum_set_nat sum.distrib)
  finally show ?case using Cons by simp
qed

lemma length_le_sum: "\<forall>c \<in> set cs. 0 < (c :: nat) \<Longrightarrow> length cs \<le> sum_list cs"
  by (induction cs) auto

lemma sum_filter_pos: "sum_list (filter (\<lambda>c. 0 < c) cs) = (sum_list cs :: nat)"
  by (induction cs) auto

lemma entropy_upper_lower:
  "0 \<le> shannon_entropy s \<and> shannon_entropy s \<le> log 2 (real (max 1 (length s))) \<and> shannon_entropy s \<le> 8"
proof (cases "s = []")
  case False
  let ?cs = "filter (\<lambda>c. 0 < c) (byte_counts (bytes_of s))"
  have n: "sum_list ?cs = length s" by (simp add: sum_filter_pos sum_byte_counts)
  have cs: "?cs \<noteq> []" using n False by (metis length_0_conv sum_list.Nil)
  have pos: "\<forall>c \<in> set ?cs. 0 < c" by simp
  have len: "1 \<le> length ?cs" "length ?cs \<le> length s" "length ?cs \<le> 256"
  proof -
    show "1 \<le> length ?cs" using cs by (simp only: Suc_le_eq One_nat_def length_greater_0_conv) blast
    show "length ?cs \<le> length s" using length_le_sum [OF pos] n by simp
    show "length ?cs \<le> 256"
      using length_filter_le [of "\<lambda>c. 0 < c" "byte_counts (bytes_of s)"] by (simp add: byte_counts_def)
  qed
  have H: "shannon_entropy s =
      sum_list (map (\<lambda>c. - (real c / real (sum_list ?cs)) * ln (real c / real (sum_list ?cs))) ?cs) / ln 2"
    unfolding n by (simp add: shannon_entropy_def False Let_def log_def flip: sum_list_divide)
  have up: "shannon_entropy s \<le> log 2 (real (length ?cs))"
    unfolding H log_def using gibbs [OF pos cs] by (simp add: divide_right_mono)
  have "0 \<le> sum_list (map (\<lambda>c. - (real c / real (sum_list ?cs)) * ln (real c / real (sum_list ?cs))) ?cs)"
  proof (rule sum_list_nonneg, clarsimp)
    fix c assume c: "c \<in> set (byte_counts (bytes_of s))" "0 < c"
    then have "c \<le> sum_list ?cs" by (intro member_le_sum_list) (use c in auto)
    then show "real c * ln (real c / real (sum_list ?cs)) / real (sum_list ?cs) \<le> 0"
      using c(2) by (intro divide_nonpos_nonneg mult_nonneg_nonpos) auto
  qed
  then have low: "0 \<le> shannon_entropy s" unfolding H by simp
  have mono: "log 2 (real (length ?cs)) \<le> log 2 y" if "real (length ?cs) \<le> y" for y
    using that len(1) by (intro log_mono) auto
  have "log 2 (real (length ?cs)) \<le> log 2 (real (max 1 (length s)))" "log 2 (real (length ?cs)) \<le> log 2 256"
    by (rule mono; use len in simp)+
  moreover have "log 2 (256 :: real) = 8" using log_pow_cancel [of "2 :: real" 8] by simp
  ultimately show ?thesis using up low by linarith
qed (simp add: shannon_entropy_def)

lemmas entropy_upper = entropy_upper_lower [THEN conjunct2, THEN conjunct1]
lemmas entropy_upper8 = entropy_upper_lower [THEN conjunct2, THEN conjunct2]

text \<open>
  The entropy of a string is never negative, never more than \<open>log 2\<close> of its length, and never
  more than 8 bits per character.
\<close>

lemma entropy_bounds:
  "0 \<le> shannon_entropy s \<and> shannon_entropy s \<le> log 2 (real (max 1 (length s))) \<and> shannon_entropy s \<le> 8"
  by (rule entropy_upper_lower)

end
