(* ===== verification/Packet.thy ===== *)
theory Packet
  imports Link Net Transport Dns Http Tls Timestamps
begin

unbundle bit_operations_syntax

text \<open>
  \<open>packet.rs\<close>: the top-level decoder, from a captured frame to a layered view.  Whatever a layer
  cannot parse becomes a warning on the packet; the layers below stay.  A frame is a slice, so that
  \<open>offset_in\<close>, pointer subtraction in the code, is what it says.  The main facts: decoding never
  panics, and for TCP and UDP the recorded offset and length give back exactly the payload the
  transport parser saw.
\<close>

section \<open>Types\<close>

datatype link_type =
    LtNull | LtEthernet | LtRaw | LtLinuxSll | LtLinuxSll2 | LtLoop | LtOther u32

definition link_type_from :: "u32 \<Rightarrow> link_type" where
  "link_type_from v =
     (if v = 0 then LtNull else if v = 1 then LtEthernet
      else if v = 12 \<or> v = 14 \<or> v = 101 then LtRaw
      else if v = 108 then LtLoop else if v = 113 then LtLinuxSll
      else if v = 276 then LtLinuxSll2 else LtOther v)"

fun link_type_name :: "link_type \<Rightarrow> string" where
  "link_type_name LtNull = ''NULL/BSD loopback''"
| "link_type_name LtEthernet = ''Ethernet''"
| "link_type_name LtRaw = ''Raw IP''"
| "link_type_name LtLinuxSll = ''Linux cooked v1''"
| "link_type_name LtLinuxSll2 = ''Linux cooked v2''"
| "link_type_name LtLoop = ''OpenBSD loopback''"
| "link_type_name (LtOther v) = ''LINKTYPE_'' @ show_nat (unat v)"

record packet_meta =
  pm_index :: nat
  pm_timestamp :: timestamp
  pm_captured_len :: u32
  pm_wire_len :: u32

definition pm_is_truncated :: "packet_meta \<Rightarrow> bool" where
  "pm_is_truncated m \<longleftrightarrow> pm_captured_len m < pm_wire_len m"

datatype network_layer = NetIpv4 ipv4 | NetIpv6 ipv6 | NetArp arp | NetNone
datatype transport_layer = TrTcp tcp | TrUdp udp | TrIcmp icmp | TrNone
datatype app_layer = AppDns dns_message | AppHttp http_message | AppTls tls_hello | AppNone

record decoded_packet =
  pk_meta :: packet_meta
  pk_link :: "ethernet option"
  pk_network :: network_layer
  pk_transport :: transport_layer
  pk_app :: app_layer
  pk_payload_len :: nat
  pk_payload_offset :: nat
  pk_ip_payload :: "(nat \<times> nat) option"
  pk_warnings :: "string list"

text \<open>\<open>frame.get(a..b).unwrap_or(&[])\<close>\<close>

definition get_range :: "'a list \<Rightarrow> nat \<Rightarrow> nat \<Rightarrow> 'a list" where
  "get_range xs a b = (if a \<le> b \<and> b \<le> length xs then take (b - a) (drop a xs) else [])"

definition pk_payload :: "decoded_packet \<Rightarrow> bytes \<Rightarrow> bytes" where
  "pk_payload p frame =
     get_range frame (pk_payload_offset p) (pk_payload_offset p + pk_payload_len p)"

definition fragment_bytes :: "decoded_packet \<Rightarrow> bytes \<Rightarrow> bytes" where
  "fragment_bytes p frame =
     (case pk_ip_payload p of
        Some (off, len) \<Rightarrow> get_range frame off (off + len)
      | None \<Rightarrow> [])"

definition src_ip :: "decoded_packet \<Rightarrow> ip_addr option" where
  "src_ip p = (case pk_network p of
     NetIpv4 h \<Rightarrow> Some (V4 (ip4_src h)) | NetIpv6 h \<Rightarrow> Some (V6 (ip6_src h)) | _ \<Rightarrow> None)"

definition dst_ip :: "decoded_packet \<Rightarrow> ip_addr option" where
  "dst_ip p = (case pk_network p of
     NetIpv4 h \<Rightarrow> Some (V4 (ip4_dst h)) | NetIpv6 h \<Rightarrow> Some (V6 (ip6_dst h)) | _ \<Rightarrow> None)"

definition ip_protocol :: "decoded_packet \<Rightarrow> u8 option" where
  "ip_protocol p = (case pk_network p of
     NetIpv4 h \<Rightarrow> Some (ip4_protocol h) | NetIpv6 h \<Rightarrow> Some (ip6_next_header h) | _ \<Rightarrow> None)"

definition pk_ports :: "decoded_packet \<Rightarrow> (u16 \<times> u16) option" where
  "pk_ports p = (case pk_transport p of
     TrTcp t \<Rightarrow> Some (tcp_src_port t, tcp_dst_port t)
   | TrUdp u \<Rightarrow> Some (udp_src_port u, udp_dst_port u) | _ \<Rightarrow> None)"

definition src_mac :: "decoded_packet \<Rightarrow> mac_addr option" where
  "src_mac p = map_option eth_src (pk_link p)"

definition protocol_label :: "decoded_packet \<Rightarrow> string" where
  "protocol_label p =
     (case pk_app p of
        AppDns _ \<Rightarrow> ''DNS'' | AppHttp _ \<Rightarrow> ''HTTP'' | AppTls _ \<Rightarrow> ''TLS''
      | AppNone \<Rightarrow>
          (case pk_transport p of
             TrTcp _ \<Rightarrow> ''TCP'' | TrUdp _ \<Rightarrow> ''UDP''
           | TrIcmp i \<Rightarrow> if ic_v6 i then ''ICMPv6'' else ''ICMP''
           | TrNone \<Rightarrow>
               (case pk_network p of
                  NetArp _ \<Rightarrow> ''ARP''
                | NetIpv4 h \<Rightarrow> proto_name (ip4_protocol h)
                | NetIpv6 h \<Rightarrow> proto_name (ip6_next_header h)
                | NetNone \<Rightarrow>
                    (case pk_link p of None \<Rightarrow> ''?'' | Some e \<Rightarrow> ethertype_name (eth_ethertype e)))))"

text \<open>\<open>{:<6}\<close>\<close>

definition pad_right :: "nat \<Rightarrow> string \<Rightarrow> string" where
  "pad_right w s = s @ replicate (w - length s) CHR '' ''"

definition summary_endpoints :: "decoded_packet \<Rightarrow> string" where
  "summary_endpoints p =
     (case (src_ip p, dst_ip p, pk_ports p) of
        (Some s, Some d, Some (sp, dp)) \<Rightarrow>
          show_ip s @ '':'' @ show_nat (unat sp) @ '' > '' @ show_ip d @ '':'' @ show_nat (unat dp)
      | (Some s, Some d, None) \<Rightarrow> show_ip s @ '' > '' @ show_ip d
      | _ \<Rightarrow>
          (case pk_network p of
             NetArp a \<Rightarrow> show_ipv4 (arp_sender_ip a) @ '' > '' @ show_ipv4 (arp_target_ip a)
           | _ \<Rightarrow>
               (case pk_link p of
                  Some e \<Rightarrow> show_mac (eth_src e) @ '' > '' @ show_mac (eth_dst e)
                | None \<Rightarrow> ''?'')))"

definition summary_detail :: "decoded_packet \<Rightarrow> string" where
  "summary_detail p =
     (case pk_app p of
        AppDns d \<Rightarrow>
          (let q = unwrap_or ''?'' (primary_name d) in
           if dm_is_response d then '' DNS response '' @ q @ '' '' @ rcode_name d
           else '' DNS query '' @ q)
      | AppHttp h \<Rightarrow> '' '' @ http_summary h
      | AppTls t \<Rightarrow>
          '' TLS '' @ version_name (th_negotiated_version t) @ '' '' @
          unwrap_or ''(no sni)'' (th_sni t)
      | AppNone \<Rightarrow>
          (case pk_transport p of
             TrTcp t \<Rightarrow>
               '' ['' @ show_flags (tcp_flags t) @ ''] seq='' @ show_nat (unat (tcp_seq t)) @
               '' win='' @ show_nat (unat (tcp_window t))
           | _ \<Rightarrow> []))"

definition pk_summary :: "decoded_packet \<Rightarrow> string" where
  "pk_summary p =
     to_time_of_day (pm_timestamp (pk_meta p)) @ '' '' @ pad_right 6 (protocol_label p) @ '' '' @
     summary_endpoints p @ '' len='' @ show_nat (unat (pm_wire_len (pk_meta p))) @ summary_detail p"

section \<open>Application payloads\<close>

definition is_dns_port :: "u16 \<Rightarrow> bool" where
  "is_dns_port p \<longleftrightarrow> p = 53 \<or> p = 5353 \<or> p = 5355"

text \<open>The payload behind a TCP length prefix, when the prefix accounts for all of it.\<close>

definition dns_prefixed :: "slice \<Rightarrow> bool \<Rightarrow> slice option dres" where
  "dns_prefixed payload tcp =
     (if tcp \<and> sl_len payload > 2 then
        and_then (index (sl_bytes payload) 0) (\<lambda>b0.
        and_then (index (sl_bytes payload) 1) (\<lambda>b1.
        let declared = unat (be16 b0 b1) in
        if declared = sl_len payload - 2
        then and_then (sl_drop payload 2) (\<lambda>s. Ok (Some s)) else Ok None))
      else Ok None)"

definition app_from_payload ::
  "(bytes \<Rightarrow> bytes) \<Rightarrow> u16 \<times> u16 \<Rightarrow> slice \<Rightarrow> bool \<Rightarrow> app_layer dres" where
  "app_from_payload md5 ports payload tcp =
     (if sl_bytes payload = [] then Ok AppNone
      else
        and_then
          (if is_dns_port (fst ports) \<or> is_dns_port (snd ports) then
             and_then (dns_prefixed payload tcp) (\<lambda>prefixed.
             and_then (case prefixed of None \<Rightarrow> Ok None | Some s \<Rightarrow> dns_parse s) (\<lambda>m.
             case m of None \<Rightarrow> dns_parse payload | Some msg \<Rightarrow> Ok (Some msg)))
           else Ok None) (\<lambda>decoded.
        case decoded of
          Some msg \<Rightarrow> Ok (AppDns msg)
        | None \<Rightarrow>
            if \<not> tcp then Ok AppNone
            else
              and_then (tls_parse md5 payload) (\<lambda>hello.
              case hello of
                Some h \<Rightarrow> Ok (AppTls h)
              | None \<Rightarrow>
                  and_then (http_parse (sl_bytes payload)) (\<lambda>msg.
                  case msg of Some m \<Rightarrow> Ok (AppHttp m) | None \<Rightarrow> Ok AppNone))))"

section \<open>Decoding\<close>

definition push_warning :: "string \<Rightarrow> decoded_packet \<Rightarrow> decoded_packet" where
  "push_warning w p = p\<lparr>pk_warnings := pk_warnings p @ [w]\<rparr>"

definition warn :: "decoded_packet \<Rightarrow> decode_error \<Rightarrow> decoded_packet dres" where
  "warn p e = Ok (push_warning (show_error e) p)"

definition offset_in :: "slice \<Rightarrow> slice \<Rightarrow> nat" where
  "offset_in whole part = sl_addr part - sl_addr whole"

definition decode_app ::
  "(bytes \<Rightarrow> bytes) \<Rightarrow> decoded_packet \<Rightarrow> u16 \<times> u16 \<Rightarrow> slice \<Rightarrow> bool \<Rightarrow> decoded_packet dres" where
  "decode_app md5 pkt ports payload tcp =
     and_then (app_from_payload md5 ports payload tcp) (\<lambda>a. Ok (pkt\<lparr>pk_app := a\<rparr>))"

definition decode_transport ::
  "(bytes \<Rightarrow> bytes) \<Rightarrow> decoded_packet \<Rightarrow> u8 \<Rightarrow> slice \<Rightarrow> slice \<Rightarrow> bool \<Rightarrow> decoded_packet dres" where
  "decode_transport md5 pkt protocol l4 frame decode_app_layer =
     (if protocol = TCP then
        match_res (parse_tcp l4)
          (\<lambda>(tcp, payload).
             let pkt = pkt\<lparr>pk_transport := TrTcp tcp, pk_payload_len := sl_len payload,
                           pk_payload_offset := offset_in frame payload\<rparr> in
             if decode_app_layer
             then decode_app md5 pkt (tcp_src_port tcp, tcp_dst_port tcp) payload True
             else Ok pkt)
          (warn pkt)
      else if protocol = UDP then
        match_res (parse_udp l4)
          (\<lambda>(udp, payload).
             let pkt = pkt\<lparr>pk_transport := TrUdp udp, pk_payload_len := sl_len payload,
                           pk_payload_offset := offset_in frame payload\<rparr> in
             if decode_app_layer
             then decode_app md5 pkt (udp_src_port udp, udp_dst_port udp) payload False
             else Ok pkt)
          (warn pkt)
      else if protocol = ICMP \<or> protocol = ICMPV6 then
        match_res (parse_icmp l4 (protocol = ICMPV6))
          (\<lambda>icmp. Ok (pkt\<lparr>pk_payload_len := ic_payload_len icmp, pk_transport := TrIcmp icmp\<rparr>))
          (warn pkt)
      else Ok (pkt\<lparr>pk_payload_len := sl_len l4\<rparr>))"

text \<open>The common tail of the two IP branches.\<close>

definition decode_ip_payload ::
  "(bytes \<Rightarrow> bytes) \<Rightarrow> decoded_packet \<Rightarrow> network_layer \<Rightarrow> u8 \<Rightarrow> bool \<Rightarrow> bool \<Rightarrow> slice \<Rightarrow> slice \<Rightarrow>
     decoded_packet dres" where
  "decode_ip_payload md5 pkt net proto can_decode_transport fragmented payload frame =
     (let pkt = (if fragmented
                 then pkt\<lparr>pk_ip_payload := Some (offset_in frame payload, sl_len payload)\<rparr> else pkt);
          pkt = pkt\<lparr>pk_network := net\<rparr>
      in if can_decode_transport
         then decode_transport md5 pkt proto payload frame (\<not> fragmented)
         else Ok (pkt\<lparr>pk_payload_len := sl_len payload\<rparr>))"

definition decode_network ::
  "(bytes \<Rightarrow> bytes) \<Rightarrow> decoded_packet \<Rightarrow> u16 \<Rightarrow> slice \<Rightarrow> slice \<Rightarrow> decoded_packet dres" where
  "decode_network md5 pkt ethertype l3 frame =
     (if ethertype = ETHERTYPE_IPV4 then
        match_res (parse_ipv4 l3)
          (\<lambda>(ip, payload). decode_ip_payload md5 pkt (NetIpv4 ip) (ip4_protocol ip)
             (ip4_has_transport_header ip) (ip4_fragmented ip) payload frame)
          (warn pkt)
      else if ethertype = ETHERTYPE_IPV6 then
        match_res (parse_ipv6 l3)
          (\<lambda>(ip, payload). decode_ip_payload md5 pkt (NetIpv6 ip) (ip6_next_header ip)
             (ip6_has_transport_header ip) (ip6_fragmented ip) payload frame)
          (warn pkt)
      else if ethertype = ETHERTYPE_ARP then
        match_res (parse_arp l3) (\<lambda>arp. Ok (pkt\<lparr>pk_network := NetArp arp\<rparr>)) (warn pkt)
      else Ok pkt)"

definition empty_packet :: "packet_meta \<Rightarrow> decoded_packet" where
  "empty_packet meta =
     \<lparr>pk_meta = meta, pk_link = None, pk_network = NetNone, pk_transport = TrNone, pk_app = AppNone,
      pk_payload_len = 0, pk_payload_offset = 0, pk_ip_payload = None, pk_warnings = []\<rparr>"

text \<open>\<open>u32::from_ne_bytes\<close> on the little-endian targets the program is built for.\<close>

definition le32 :: "u8 \<Rightarrow> u8 \<Rightarrow> u8 \<Rightarrow> u8 \<Rightarrow> u32" where
  "le32 a b c d = be32 d c b a"

text \<open>
  The link layer: either the packet with a warning (the early \<open>return pkt\<close>), or the packet, the
  EtherType and the layer-3 bytes.
\<close>

definition decode_link ::
  "decoded_packet \<Rightarrow> slice \<Rightarrow> link_type \<Rightarrow> (decoded_packet + decoded_packet \<times> u16 \<times> slice) dres" where
  "decode_link pkt bs lt =
     (let stop = (\<lambda>w. Ok (Inl (push_warning w pkt))) in
      case lt of
        LtEthernet \<Rightarrow>
          match_res (parse_ethernet bs)
            (\<lambda>(eth, rest). Ok (Inr (pkt\<lparr>pk_link := Some eth\<rparr>, eth_ethertype eth, rest)))
            (\<lambda>e. stop (show_error e))
      | LtRaw \<Rightarrow>
          (case sl_bytes bs of
             b # _ \<Rightarrow>
               if drop_bit 4 b = 4 then Ok (Inr (pkt, ETHERTYPE_IPV4, bs))
               else if drop_bit 4 b = 6 then Ok (Inr (pkt, ETHERTYPE_IPV6, bs))
               else stop ''raw link: unrecognised IP version''
           | [] \<Rightarrow> stop ''raw link: unrecognised IP version'')
      | LtOther v \<Rightarrow> stop (''unsupported link type LINKTYPE_'' @ show_nat (unat v))
      | LtLinuxSll \<Rightarrow>
          if sl_len bs < 16 then stop ''linux cooked header: truncated''
          else
            and_then (index (sl_bytes bs) 14) (\<lambda>x.
            and_then (index (sl_bytes bs) 15) (\<lambda>y.
            and_then (sl_drop bs 16) (\<lambda>rest. Ok (Inr (pkt, be16 x y, rest)))))
      | LtLinuxSll2 \<Rightarrow>
          if sl_len bs < 20 then stop ''linux cooked v2 header: truncated''
          else
            and_then (index (sl_bytes bs) 0) (\<lambda>x.
            and_then (index (sl_bytes bs) 1) (\<lambda>y.
            and_then (sl_drop bs 20) (\<lambda>rest. Ok (Inr (pkt, be16 x y, rest)))))
      | _ \<Rightarrow>
          if sl_len bs < 4 then stop ''loopback header: truncated''
          else
            and_then (index (sl_bytes bs) 0) (\<lambda>a.
            and_then (index (sl_bytes bs) 1) (\<lambda>b.
            and_then (index (sl_bytes bs) 2) (\<lambda>c.
            and_then (index (sl_bytes bs) 3) (\<lambda>d.
            let af = le32 a b c d in
            if af = 2 then
              and_then (sl_drop bs 4) (\<lambda>rest. Ok (Inr (pkt, ETHERTYPE_IPV4, rest)))
            else if af = 24 \<or> af = 28 \<or> af = 30 then
              and_then (sl_drop bs 4) (\<lambda>rest. Ok (Inr (pkt, ETHERTYPE_IPV6, rest)))
            else stop (''loopback header: unknown address family '' @ show_nat (unat af)))))))"

definition decode ::
  "(bytes \<Rightarrow> bytes) \<Rightarrow> packet_meta \<Rightarrow> slice \<Rightarrow> link_type \<Rightarrow> decoded_packet dres" where
  "decode md5 meta bs lt =
     and_then (decode_link (empty_packet meta) bs lt) (\<lambda>r.
     case r of
       Inl pkt \<Rightarrow> Ok pkt
     | Inr (pkt, ethertype, l3) \<Rightarrow> decode_network md5 pkt ethertype l3 bs)"

section \<open>Safety and payload recovery\<close>

lemma get_range_offset_in:
  assumes "subslice part whole"
  shows "get_range (sl_bytes whole) (offset_in whole part) (offset_in whole part + sl_len part) = sl_bytes part"
    and "offset_in whole part + sl_len part \<le> sl_len whole"
proof -
  show "offset_in whole part + sl_len part \<le> sl_len whole"
    using assms by (auto simp: subslice_def offset_in_def)
  then show "get_range (sl_bytes whole) (offset_in whole part) (offset_in whole part + sl_len part) = sl_bytes part"
    using assms by (auto simp: subslice_def offset_in_def get_range_def sl_len_def diff_le_mono)
qed

text \<open>What a decoded packet promises about the frame it came from.\<close>

definition transport_ok :: "slice \<Rightarrow> decoded_packet \<Rightarrow> bool" where
  "transport_ok frame pkt =
     (case pk_transport pkt of
        TrTcp t \<Rightarrow> (\<exists>l4 p. subslice l4 frame \<and> parse_tcp l4 = Ok (t, p) \<and>
          pk_payload pkt (sl_bytes frame) = sl_bytes p)
      | TrUdp u \<Rightarrow> (\<exists>l4 p. subslice l4 frame \<and> parse_udp l4 = Ok (u, p) \<and>
          pk_payload pkt (sl_bytes frame) = sl_bytes p)
      | _ \<Rightarrow> pk_app pkt = AppNone \<and> pk_payload_offset pkt = 0)"

definition packet_ok :: "slice \<Rightarrow> decoded_packet \<Rightarrow> bool" where
  "packet_ok frame pkt \<longleftrightarrow>
     transport_ok frame pkt \<and>
     (case pk_ip_payload pkt of None \<Rightarrow> True
      | Some (off, len) \<Rightarrow> pk_app pkt = AppNone \<and> off + len \<le> sl_len frame)"

text \<open>A packet whose transport layer has not been reached.\<close>

definition blank :: "slice \<Rightarrow> decoded_packet \<Rightarrow> bool" where
  "blank frame p \<longleftrightarrow> pk_transport p = TrNone \<and> pk_app p = AppNone \<and> pk_payload_offset p = 0 \<and>
     (case pk_ip_payload p of None \<Rightarrow> True | Some (off, len) \<Rightarrow> off + len \<le> sl_len frame)"

lemma blank_ok: "blank frame p \<Longrightarrow> packet_ok frame p"
  by (auto simp: blank_def packet_ok_def transport_ok_def split: option.splits)

lemma blank_update [simp]:
  "blank frame (p\<lparr>pk_link := l\<rparr>) = blank frame p"
  "blank frame (p\<lparr>pk_network := n\<rparr>) = blank frame p"
  "blank frame (p\<lparr>pk_payload_len := k\<rparr>) = blank frame p"
  "blank frame (push_warning w p) = blank frame p"
  by (simp_all add: blank_def push_warning_def)

lemma blank_empty [simp]: "blank frame (empty_packet m)"
  by (simp add: blank_def empty_packet_def)

lemma safe_warn: "blank frame p \<Longrightarrow> safe (packet_ok frame) (warn p e)"
  by (simp add: warn_def blank_ok)

lemma safe_dns_prefixed: "safe (\<lambda>_. True) (dns_prefixed payload tcp)"
proof -
  have "index (sl_bytes payload) 0 = (Ok (sl_bytes payload ! 0) :: u8 dres)"
    and "index (sl_bytes payload) 1 = (Ok (sl_bytes payload ! 1) :: u8 dres)" if "2 < sl_len payload"
    using that unfolding sl_len_def by (intro index_Ok; linarith)+
  then show ?thesis by (simp add: dns_prefixed_def Let_def sl_drop_def)
qed

lemma safe_dns_parse: "safe (\<lambda>_. True) (dns_parse buf)"
  using safe_parse_strict [of buf] by (cases "parse_strict buf") (auto simp: dns_parse_def)

lemma safe_app_from_payload: "safe (\<lambda>_. True) (app_from_payload md5 ports payload tcp)"
  unfolding app_from_payload_def
  by (intro safe_if_step safe_case_option safe_Ok_step safe_dns_parse
      safe_and_then [where P = "\<lambda>_. True", OF safe_dns_prefixed]
      safe_and_then [where P = "\<lambda>_. True", OF safe_mono [OF safe_tls_parse]]
      safe_and_then [where P = "\<lambda>_. True", OF safe_mono [OF safe_http_parse]]
      safe_and_then [where P = "\<lambda>_. True"]; simp?)

lemma safe_decode_app:
  assumes "packet_ok frame pkt" and "pk_ip_payload pkt = None" and "pk_transport pkt = TrTcp t \<or> pk_transport pkt = TrUdp u"
  shows "safe (packet_ok frame) (decode_app md5 pkt ports payload tcp)"
  unfolding decode_app_def
  by (rule safe_and_then [OF safe_app_from_payload])
    (use assms in \<open>auto simp: packet_ok_def transport_ok_def pk_payload_def\<close>)

lemma safe_decode_transport:
  assumes "blank frame pkt" and "subslice l4 frame" and "app \<longleftrightarrow> pk_ip_payload pkt = None"
  shows "safe (packet_ok frame) (decode_transport md5 pkt protocol l4 frame app)"
proof -
  have tcp: "packet_ok frame (pkt\<lparr>pk_transport := TrTcp t, pk_payload_len := sl_len p,
      pk_payload_offset := offset_in frame p\<rparr>)"
    if "parse_tcp l4 = Ok (t, p)" "subslice p l4" for t p
    using assms that get_range_offset_in [OF subslice_trans [OF that(2) assms(2)]]
    by (auto simp: packet_ok_def transport_ok_def blank_def pk_payload_def split: option.splits)
  have udp: "packet_ok frame (pkt\<lparr>pk_transport := TrUdp u, pk_payload_len := sl_len p,
      pk_payload_offset := offset_in frame p\<rparr>)"
    if "parse_udp l4 = Ok (u, p)" "subslice p l4" for u p
    using assms that get_range_offset_in [OF subslice_trans [OF that(2) assms(2)]]
    by (auto simp: packet_ok_def transport_ok_def blank_def pk_payload_def split: option.splits)
  have icmp: "packet_ok frame (pkt\<lparr>pk_payload_len := n, pk_transport := TrIcmp i\<rparr>)" for n i
    using assms(1) by (auto simp: packet_ok_def transport_ok_def blank_def split: option.splits)
  show ?thesis
    unfolding decode_transport_def Let_def
    by (intro safe_if_step safe_match_res [OF safe_parse_tcp] safe_match_res [OF safe_parse_udp]
          safe_match_res [OF safe_parse_icmp] safe_warn [OF assms(1)] safe_Ok_step icmp)
      (use assms tcp udp in \<open>auto intro!: safe_decode_app blank_ok\<close>)
qed

lemma safe_decode_ip_payload:
  assumes "blank frame pkt" and "pk_ip_payload pkt = None" and "subslice payload frame"
  shows "safe (packet_ok frame) (decode_ip_payload md5 pkt net proto can fragmented payload frame)"
proof -
  have "blank frame (pkt\<lparr>pk_ip_payload := Some (offset_in frame payload, sl_len payload), pk_network := net\<rparr>)"
    using assms(1) get_range_offset_in(2) [OF assms(3)] by (simp add: blank_def)
  moreover have "blank frame (pkt\<lparr>pk_network := net\<rparr>)" using assms(1) by simp
  ultimately show ?thesis
    using assms(2,3) by (auto simp: decode_ip_payload_def Let_def intro!: safe_decode_transport blank_ok)
qed

lemma safe_decode_network:
  assumes "blank frame pkt" and "pk_ip_payload pkt = None" and "subslice l3 frame"
  shows "safe (packet_ok frame) (decode_network md5 pkt ethertype l3 frame)"
  unfolding decode_network_def
  by (intro safe_if_step safe_match_res [OF safe_parse_ipv4] safe_match_res [OF safe_parse_ipv6]
        safe_match_res [OF safe_parse_arp] safe_warn [OF assms(1)] safe_Ok_step)
    (use assms in \<open>auto intro!: safe_decode_ip_payload blank_ok dest: subslice_trans\<close>)

lemma safe_decode_link:
  "safe (\<lambda>r. case r of Inl p \<Rightarrow> blank bs p
     | Inr (p, et, l3) \<Rightarrow> blank bs p \<and> pk_ip_payload p = None \<and> subslice l3 bs)
   (decode_link (empty_packet m) bs lt)"
proof -
  have ix: "index (sl_bytes bs) i = (Ok (sl_bytes bs ! i) :: u8 dres)" if "n \<le> sl_len bs" "i < n" for i n
    using that unfolding sl_len_def by (intro index_Ok) linarith
  have dr: "sl_drop bs n = (Ok (Slice (sl_addr bs + n) (drop n (sl_bytes bs))) :: slice dres)
      \<and> subslice (Slice (sl_addr bs + n) (drop n (sl_bytes bs))) bs" if "n \<le> sl_len bs" for n
    using that by (simp add: sl_drop_def subslice_sl_drop)
  have none: "pk_ip_payload (empty_packet m) = None" by (simp add: empty_packet_def)
  show ?thesis
  proof (cases lt)
    case LtEthernet
    then show ?thesis
      by (auto simp: decode_link_def none intro!: safe_match_res [OF safe_parse_ethernet])
  next
    case LtRaw
    then show ?thesis by (auto simp: decode_link_def none split: list.splits)
  next
    case (LtOther v)
    then show ?thesis by (simp add: decode_link_def)
  qed (use ix [of 4] ix [of 16] ix [of 20] dr [of 4] dr [of 16] dr [of 20] in
      \<open>auto simp: decode_link_def none Let_def not_less\<close>)
qed

lemma safe_decode: "safe (packet_ok bs) (decode md5 meta bs lt)"
  unfolding decode_def
  by (rule safe_and_then [OF safe_decode_link])
    (auto intro!: safe_decode_network blank_ok split: sum.splits)

section \<open>No error escapes\<close>

lemma no_err_app_from_payload [no_err_rules]: "no_err (app_from_payload md5 ports payload tcp)"
  unfolding app_from_payload_def dns_prefixed_def dns_parse_def by (intro no_err_rules)

lemma no_err_decode_transport [no_err_rules]:
  "no_err (decode_transport md5 pkt protocol l4 frame app)"
  unfolding decode_transport_def decode_app_def warn_def by (intro no_err_rules)

lemma no_err_decode_network [no_err_rules]: "no_err (decode_network md5 pkt ethertype l3 frame)"
  unfolding decode_network_def decode_ip_payload_def warn_def by (intro no_err_rules)

lemma no_err_decode_link [no_err_rules]: "no_err (decode_link pkt bs lt)"
  unfolding decode_link_def by (cases lt; simp only: link_type.case Let_def; intro no_err_rules)

lemma no_err_decode: "no_err (decode md5 meta bs lt)"
proof -
  have "no_err (case r of Inl pkt \<Rightarrow> Ok pkt
      | Inr (pkt, ethertype, l3) \<Rightarrow> decode_network md5 pkt ethertype l3 bs)" for r
    by (simp add: no_err_decode_network split: sum.splits prod.splits)
  then show ?thesis unfolding decode_def by (intro no_err_rules)
qed

lemma returns_app_from_payload: "returns (\<lambda>_. True) (app_from_payload md5 ports payload tcp)"
  by (rule returnsI [OF safe_app_from_payload no_err_app_from_payload])

text \<open>
  C3. Decoding is total on arbitrary bytes, whatever the link type: no index, slice or arithmetic step
  of any layer panics.  In the packet that comes out, a TCP or UDP layer is the parse of a slice of
  the frame and the recorded offset and length recover exactly the payload that parse left; only
  then is an application layer present, and never on a fragment, whose recorded layer-3 range lies
  inside the frame.
\<close>

theorem decode_safe: "returns (packet_ok bs) (decode md5 meta bs lt)"
  by (rule returnsI [OF safe_decode no_err_decode])

end
