(* ===== verification/Flow.thy ===== *)
theory Flow
  imports Packet
begin

unbundle bit_operations_syntax

text \<open>
  \<open>flow.rs\<close>: bidirectional flows.  The key is the canonical 5-tuple (lower endpoint first), so both
  directions of a conversation fold into one record; a flow knows who opened it from a bare SYN or,
  failing that, from the shape of the ports.  The table is a hash map; its invariant \<open>table_ok\<close>
  says every flow sits under its own key, its caps hold and its times are ordered.  The \<open>f64\<close>
  arithmetic is modelled by exact rationals, an infinite ratio by \<open>None\<close>.
\<close>

section \<open>Keys\<close>

datatype flow_key =
  FlowKey (fk_a_ip: ip_addr) (fk_a_port: u16) (fk_b_ip: ip_addr) (fk_b_port: u16) (fk_protocol: u8)

text \<open>The derived order: field by field.\<close>

definition fk_tuple :: "flow_key \<Rightarrow> ip_addr \<times> u16 \<times> ip_addr \<times> u16 \<times> u8" where
  "fk_tuple k = (fk_a_ip k, fk_a_port k, fk_b_ip k, fk_b_port k, fk_protocol k)"

instantiation flow_key :: linorder
begin

definition less_eq_flow_key :: "flow_key \<Rightarrow> flow_key \<Rightarrow> bool" where
  "less_eq_flow_key a b \<longleftrightarrow> fk_tuple a \<le> fk_tuple b"

definition less_flow_key :: "flow_key \<Rightarrow> flow_key \<Rightarrow> bool" where
  "less_flow_key a b \<longleftrightarrow> fk_tuple a < fk_tuple b"

instance
proof
  fix x y z :: flow_key
  show "x < y \<longleftrightarrow> x \<le> y \<and> \<not> y \<le> x" by (auto simp: less_eq_flow_key_def less_flow_key_def)
  show "x \<le> x" by (simp add: less_eq_flow_key_def)
  show "x \<le> y \<Longrightarrow> y \<le> z \<Longrightarrow> x \<le> z" by (auto simp: less_eq_flow_key_def)
  show "x \<le> y \<Longrightarrow> y \<le> x \<Longrightarrow> x = y"
    by (cases x; cases y) (auto simp: less_eq_flow_key_def fk_tuple_def)
  show "x \<le> y \<or> y \<le> x" by (auto simp: less_eq_flow_key_def)
qed

end

datatype direction = AToB | BToA

fun opposite :: "direction \<Rightarrow> direction" where
  "opposite AToB = BToA"
| "opposite BToA = AToB"

definition canonical ::
  "ip_addr \<Rightarrow> u16 \<Rightarrow> ip_addr \<Rightarrow> u16 \<Rightarrow> u8 \<Rightarrow> flow_key \<times> direction" where
  "canonical sip sport dip dport protocol =
     (if (sip, sport) \<le> (dip, dport)
      then (FlowKey sip sport dip dport protocol, AToB)
      else (FlowKey dip dport sip sport protocol, BToA))"

definition from_packet :: "decoded_packet \<Rightarrow> (flow_key \<times> direction) option" where
  "from_packet pkt =
     (case src_ip pkt of None \<Rightarrow> None | Some s \<Rightarrow>
      (case dst_ip pkt of None \<Rightarrow> None | Some d \<Rightarrow>
      (case ip_protocol pkt of None \<Rightarrow> None | Some protocol \<Rightarrow>
      (let (sp, dp) = unwrap_or (0, 0) (pk_ports pkt) in
      Some (canonical s sp d dp protocol)))))"

definition show_flow_key :: "flow_key \<Rightarrow> string" where
  "show_flow_key k =
     (if fk_a_port k = 0 \<and> fk_b_port k = 0
      then show_ip (fk_a_ip k) @ '' <-> '' @ show_ip (fk_b_ip k) @ '' '' @ proto_name (fk_protocol k)
      else show_ip (fk_a_ip k) @ '':'' @ show_nat (unat (fk_a_port k)) @ '' <-> '' @
        show_ip (fk_b_ip k) @ '':'' @ show_nat (unat (fk_b_port k)) @ '' '' @
        proto_name (fk_protocol k))"

section \<open>Per-direction statistics\<close>

definition MAX_TIMESTAMP_SAMPLES :: nat where "MAX_TIMESTAMP_SAMPLES = 8192"

record direction_stats =
  ds_packets :: nat
  ds_bytes :: nat
  ds_payload_bytes :: nat
  ds_tcp_flags_seen :: u8
  ds_timestamps :: "rat list"
  ds_samples_truncated :: bool

definition ds_default :: direction_stats where
  "ds_default =
     \<lparr>ds_packets = 0, ds_bytes = 0, ds_payload_bytes = 0, ds_tcp_flags_seen = 0,
      ds_timestamps = [], ds_samples_truncated = False\<rparr>"

definition ds_observe :: "decoded_packet \<Rightarrow> direction_stats \<Rightarrow> direction_stats" where
  "ds_observe pkt s =
     (let s = s\<lparr>ds_packets := ds_packets s + 1,
               ds_bytes := ds_bytes s + unat (pm_wire_len (pk_meta pkt)),
               ds_payload_bytes := ds_payload_bytes s + pk_payload_len pkt,
               ds_tcp_flags_seen := (case pk_transport pkt of
                  TrTcp t \<Rightarrow> ds_tcp_flags_seen s OR tcp_flags t
                | _ \<Rightarrow> ds_tcp_flags_seen s)\<rparr>
      in if length (ds_timestamps s) < MAX_TIMESTAMP_SAMPLES
         then s\<lparr>ds_timestamps := ds_timestamps s @ [as_secs_f64 (pm_timestamp (pk_meta pkt))]\<rparr>
         else s\<lparr>ds_samples_truncated := True\<rparr>)"

section \<open>Flows\<close>

datatype flow_scope = ScopeInternal | ScopeOutbound | ScopeInbound | ScopeExternal

fun show_flow_scope :: "flow_scope \<Rightarrow> string" where
  "show_flow_scope ScopeInternal = ''internal''"
| "show_flow_scope ScopeOutbound = ''outbound''"
| "show_flow_scope ScopeInbound = ''inbound''"
| "show_flow_scope ScopeExternal = ''external''"

record flow =
  fl_key :: flow_key
  fl_first_seen :: timestamp
  fl_last_seen :: timestamp
  fl_a_to_b :: direction_stats
  fl_b_to_a :: direction_stats
  fl_protocols :: "string btset"
  fl_sni :: "string option"
  fl_ja3 :: "string option"
  fl_tls_version :: "u16 option"
  fl_http_hosts :: "string btset"
  fl_user_agents :: "string btset"
  fl_dns_names :: "string btset"
  fl_cleartext_credentials :: bool
  fl_saw_handshake :: bool
  fl_initiator :: direction

definition flow_new :: "flow_key \<Rightarrow> timestamp \<Rightarrow> direction \<Rightarrow> flow" where
  "flow_new key ts initiator =
     \<lparr>fl_key = key, fl_first_seen = ts, fl_last_seen = ts, fl_a_to_b = ds_default,
      fl_b_to_a = ds_default, fl_protocols = [], fl_sni = None, fl_ja3 = None,
      fl_tls_version = None, fl_http_hosts = [], fl_user_agents = [], fl_dns_names = [],
      fl_cleartext_credentials = False, fl_saw_handshake = False, fl_initiator = initiator\<rparr>"

definition fl_packets :: "flow \<Rightarrow> nat" where
  "fl_packets f = ds_packets (fl_a_to_b f) + ds_packets (fl_b_to_a f)"

definition fl_bytes :: "flow \<Rightarrow> nat" where
  "fl_bytes f = ds_bytes (fl_a_to_b f) + ds_bytes (fl_b_to_a f)"

definition duration_secs :: "flow \<Rightarrow> rat" where
  "duration_secs f = delta_secs (fl_last_seen f) (fl_first_seen f)"

definition client_direction :: "flow \<Rightarrow> direction" where
  "client_direction f =
     (let k = fl_key f in
      if fl_saw_handshake f \<or> fk_a_port k = fk_b_port k then fl_initiator f
      else
        let tcp = (fk_protocol k = TCP) in
        case (service_name (fk_a_port k) tcp \<noteq> None, service_name (fk_b_port k) tcp \<noteq> None) of
          (True, False) \<Rightarrow> BToA
        | (False, True) \<Rightarrow> AToB
        | _ \<Rightarrow> if fk_a_port k > fk_b_port k then AToB else BToA)"

definition fl_client :: "flow \<Rightarrow> ip_addr \<times> u16" where
  "fl_client f = (case client_direction f of
     AToB \<Rightarrow> (fk_a_ip (fl_key f), fk_a_port (fl_key f))
   | BToA \<Rightarrow> (fk_b_ip (fl_key f), fk_b_port (fl_key f)))"

definition fl_server :: "flow \<Rightarrow> ip_addr \<times> u16" where
  "fl_server f = (case client_direction f of
     AToB \<Rightarrow> (fk_b_ip (fl_key f), fk_b_port (fl_key f))
   | BToA \<Rightarrow> (fk_a_ip (fl_key f), fk_a_port (fl_key f)))"

definition client_stats :: "flow \<Rightarrow> direction_stats" where
  "client_stats f = (case client_direction f of AToB \<Rightarrow> fl_a_to_b f | BToA \<Rightarrow> fl_b_to_a f)"

definition server_stats :: "flow \<Rightarrow> direction_stats" where
  "server_stats f = (case client_direction f of AToB \<Rightarrow> fl_b_to_a f | BToA \<Rightarrow> fl_a_to_b f)"

definition fl_scope :: "flow \<Rightarrow> flow_scope" where
  "fl_scope f =
     (case (is_private (fst (fl_client f)), is_private (fst (fl_server f))) of
        (True, True) \<Rightarrow> ScopeInternal
      | (True, False) \<Rightarrow> ScopeOutbound
      | (False, True) \<Rightarrow> ScopeInbound
      | (False, False) \<Rightarrow> ScopeExternal)"

definition fl_service :: "flow \<Rightarrow> (ip_addr \<times> u16 \<times> string) option" where
  "fl_service f =
     (let tcp = (fk_protocol (fl_key f) = TCP); (server_ip, server_port) = fl_server f in
      case service_name server_port tcp of
        Some name \<Rightarrow> Some (server_ip, server_port, name)
      | None \<Rightarrow>
          (let (client_ip, client_port) = fl_client f in
           map_option (\<lambda>n. (client_ip, client_port, n)) (service_name client_port tcp)))"

text \<open>\<open>None\<close> is the infinite ratio.\<close>

definition upload_ratio :: "flow \<Rightarrow> rat option" where
  "upload_ratio f =
     (let up = ds_payload_bytes (client_stats f); down = ds_payload_bytes (server_stats f) in
      if down = 0 then (if up = 0 then Some 0 else None)
      else Some (of_nat up / of_nat down))"

definition is_unanswered_syn :: "flow \<Rightarrow> bool" where
  "is_unanswered_syn f \<longleftrightarrow>
     fk_protocol (fl_key f) = TCP \<and> fl_saw_handshake f \<and> ds_packets (server_stats f) = 0 \<and>
     ds_packets (client_stats f) \<le> 4"

definition was_reset :: "flow \<Rightarrow> bool" where
  "was_reset f \<longleftrightarrow>
     fl_rst (ds_tcp_flags_seen (fl_a_to_b f)) \<or> fl_rst (ds_tcp_flags_seen (fl_b_to_a f))"

definition stats_update :: "direction \<Rightarrow> (direction_stats \<Rightarrow> direction_stats) \<Rightarrow> flow \<Rightarrow> flow" where
  "stats_update dir g f =
     (case dir of
        AToB \<Rightarrow> f\<lparr>fl_a_to_b := g (fl_a_to_b f)\<rparr>
      | BToA \<Rightarrow> f\<lparr>fl_b_to_a := g (fl_b_to_a f)\<rparr>)"

text \<open>\<open>if set.len() < cap { set.insert(x) }\<close>\<close>

definition insert_capped :: "nat \<Rightarrow> 'a::linorder \<Rightarrow> 'a btset \<Rightarrow> 'a btset" where
  "insert_capped cap x s = (if length s < cap then bs_insert x s else s)"

definition fl_record_app :: "app_layer \<Rightarrow> flow \<Rightarrow> flow" where
  "fl_record_app app f =
     (case app of
        AppDns d \<Rightarrow>
          (let f = f\<lparr>fl_protocols := bs_insert ''dns'' (fl_protocols f)\<rparr> in
           f\<lparr>fl_dns_names := foldl (\<lambda>names q. insert_capped 256 (dq_name q) names)
               (fl_dns_names f) (dm_questions d)\<rparr>)
      | AppHttp h \<Rightarrow>
          f\<lparr>fl_protocols := bs_insert ''http'' (fl_protocols f),
            fl_http_hosts := (case hm_host h of None \<Rightarrow> fl_http_hosts f
              | Some host \<Rightarrow> insert_capped 64 host (fl_http_hosts f)),
            fl_user_agents := (case hm_user_agent h of None \<Rightarrow> fl_user_agents f
              | Some ua \<Rightarrow> insert_capped 16 ua (fl_user_agents f)),
            fl_cleartext_credentials := (hm_has_authorization h \<or> fl_cleartext_credentials f)\<rparr>
      | AppTls t \<Rightarrow>
          f\<lparr>fl_protocols := bs_insert ''tls'' (fl_protocols f),
            fl_sni := (if fl_sni f = None then th_sni t else fl_sni f),
            fl_ja3 := (if fl_ja3 f = None \<and> th_kind t = Client then Some (th_ja3_md5 t) else fl_ja3 f),
            fl_tls_version := (if th_kind t = Server \<or> fl_tls_version f = None
              then Some (th_negotiated_version t) else fl_tls_version f)\<rparr>
      | AppNone \<Rightarrow> f)"

section \<open>The table\<close>

type_synonym flow_table = "(flow_key, flow) hashmap"

text \<open>The body of \<open>observe\<close> once the entry exists: times, then who opened it, then the counters.\<close>

definition note_time :: "timestamp \<Rightarrow> flow \<Rightarrow> flow" where
  "note_time ts f =
     (let f = (if ts_less ts (fl_first_seen f) then f\<lparr>fl_first_seen := ts\<rparr> else f)
      in if ts_less (fl_last_seen f) ts then f\<lparr>fl_last_seen := ts\<rparr> else f)"

definition note_syn :: "transport_layer \<Rightarrow> direction \<Rightarrow> flow \<Rightarrow> flow" where
  "note_syn tr dir f =
     (case tr of
        TrTcp t \<Rightarrow>
          if is_syn_only (tcp_flags t)
          then (if fl_saw_handshake f then f else f\<lparr>fl_initiator := dir\<rparr>)\<lparr>fl_saw_handshake := True\<rparr>
          else f
      | _ \<Rightarrow> f)"

definition flow_observe :: "decoded_packet \<Rightarrow> direction \<Rightarrow> flow \<Rightarrow> flow" where
  "flow_observe pkt dir f =
     fl_record_app (pk_app pkt)
       (stats_update dir (ds_observe pkt)
          (note_syn (pk_transport pkt) dir (note_time (pm_timestamp (pk_meta pkt)) f)))"

definition ft_observe :: "decoded_packet \<Rightarrow> flow_table \<Rightarrow> flow_key option \<times> flow_table" where
  "ft_observe pkt flows =
     (case from_packet pkt of
        None \<Rightarrow> (None, flows)
      | Some (key, dir) \<Rightarrow>
          (let f = unwrap_or (flow_new key (pm_timestamp (pk_meta pkt)) dir) (map_of flows key)
           in (Some key, AList.update key (flow_observe pkt dir f) flows)))"

definition ft_record_app :: "flow_key \<Rightarrow> app_layer \<Rightarrow> flow_table \<Rightarrow> flow_table" where
  "ft_record_app key app flows =
     (case map_of flows key of
        None \<Rightarrow> flows
      | Some f \<Rightarrow> AList.update key (fl_record_app app f) flows)"

definition bytes_desc :: "flow \<Rightarrow> flow \<Rightarrow> bool" where
  "bytes_desc a b \<longleftrightarrow> fl_bytes b < fl_bytes a \<or> (fl_bytes a = fl_bytes b \<and> fl_key a \<le> fl_key b)"

definition by_bytes :: "flow_table \<Rightarrow> flow list" where
  "by_bytes flows = sort_by bytes_desc (map snd flows)"

interpretation by_bytes: total_preorder bytes_desc
  by unfold_locales (auto simp: bytes_desc_def)

section \<open>Keys do not depend on the direction\<close>

text \<open>
  Both directions of a conversation have the same key, and, unless the endpoints coincide,
  opposite directions; each direction names the endpoint its packets come from.
\<close>

lemma canonical_symmetric:
  "fst (canonical a ap b bp p) = fst (canonical b bp a ap p) \<and>
   ((a, ap) = (b, bp) \<or> snd (canonical b bp a ap p) = opposite (snd (canonical a ap b bp p))) \<and>
   (case canonical a ap b bp p of
      (k, AToB) \<Rightarrow> (fk_a_ip k, fk_a_port k, fk_b_ip k, fk_b_port k, fk_protocol k) = (a, ap, b, bp, p)
    | (k, BToA) \<Rightarrow> (fk_b_ip k, fk_b_port k, fk_a_ip k, fk_a_port k, fk_protocol k) = (a, ap, b, bp, p))"
  by (auto simp: canonical_def)

section \<open>Folding packets in\<close>

lemma packets_observe [simp]: "ds_packets (ds_observe pkt s) = Suc (ds_packets s)"
  and bytes_observe [simp]: "ds_bytes (ds_observe pkt s) = ds_bytes s + unat (pm_wire_len (pk_meta pkt))"
  and stamps_observe: "length (ds_timestamps s) \<le> MAX_TIMESTAMP_SAMPLES \<Longrightarrow>
    length (ds_timestamps (ds_observe pkt s)) \<le> MAX_TIMESTAMP_SAMPLES"
  by (simp_all add: ds_observe_def Let_def)

lemma fl_record_app_counts [simp]:
  "fl_packets (fl_record_app app f) = fl_packets f" "fl_bytes (fl_record_app app f) = fl_bytes f"
  "fl_key (fl_record_app app f) = fl_key f" "fl_first_seen (fl_record_app app f) = fl_first_seen f"
  "fl_last_seen (fl_record_app app f) = fl_last_seen f"
  "fl_a_to_b (fl_record_app app f) = fl_a_to_b f" "fl_b_to_a (fl_record_app app f) = fl_b_to_a f"
  "fl_saw_handshake (fl_record_app app f) = fl_saw_handshake f"
  "fl_initiator (fl_record_app app f) = fl_initiator f"
  by (simp_all add: fl_record_app_def fl_packets_def fl_bytes_def Let_def split: app_layer.splits)

lemma stats_update_counts [simp]:
  "fl_packets (stats_update dir (ds_observe pkt) f) = Suc (fl_packets f)"
  "fl_bytes (stats_update dir (ds_observe pkt) f) = fl_bytes f + unat (pm_wire_len (pk_meta pkt))"
  "fl_key (stats_update dir g f) = fl_key f"
  "fl_saw_handshake (stats_update dir g f) = fl_saw_handshake f"
  "fl_initiator (stats_update dir g f) = fl_initiator f"
  "fl_first_seen (stats_update dir g f) = fl_first_seen f"
  "fl_last_seen (stats_update dir g f) = fl_last_seen f"
  by (simp_all add: stats_update_def fl_packets_def fl_bytes_def split: direction.splits)

lemma note_counts [simp]:
  "fl_packets (note_time ts f) = fl_packets f" "fl_bytes (note_time ts f) = fl_bytes f"
  "fl_key (note_time ts f) = fl_key f"
  "fl_packets (note_syn tr dir f) = fl_packets f" "fl_bytes (note_syn tr dir f) = fl_bytes f"
  "fl_key (note_syn tr dir f) = fl_key f"
  by (simp_all add: note_time_def note_syn_def fl_packets_def fl_bytes_def Let_def split: transport_layer.splits)

lemma flow_observe_counts [simp]:
  "fl_packets (flow_observe pkt dir f) = Suc (fl_packets f)"
  "fl_bytes (flow_observe pkt dir f) = fl_bytes f + unat (pm_wire_len (pk_meta pkt))"
  "fl_key (flow_observe pkt dir f) = fl_key f"
  by (simp_all add: flow_observe_def)

definition run_flows :: "decoded_packet list \<Rightarrow> flow_table \<Rightarrow> flow_table" where
  "run_flows pkts flows = foldl (\<lambda>t p. snd (ft_observe p t)) flows pkts"

lemma hm_valid_observe [simp]: "hm_valid flows \<Longrightarrow> hm_valid (snd (ft_observe p flows))"
  by (simp add: ft_observe_def Let_def split: option.splits prod.splits)

lemma flow_new_zero [simp]: "fl_packets (flow_new k ts d) = 0" "fl_bytes (flow_new k ts d) = 0"
  by (simp_all add: flow_new_def fl_packets_def fl_bytes_def ds_default_def)

lemma table_sum_observe:
  assumes "hm_valid flows"
  shows "table_sum fl_packets (snd (ft_observe p flows)) =
      table_sum fl_packets flows + (if from_packet p = None then 0 else 1)"
    and "table_sum fl_bytes (snd (ft_observe p flows)) =
      table_sum fl_bytes flows + (if from_packet p = None then 0 else unat (pm_wire_len (pk_meta p)))"
proof -
  have "table_sum fl_packets (snd (ft_observe p flows)) =
      table_sum fl_packets flows + (if from_packet p = None then 0 else 1) \<and>
    table_sum fl_bytes (snd (ft_observe p flows)) =
      table_sum fl_bytes flows + (if from_packet p = None then 0 else unat (pm_wire_len (pk_meta p)))"
  proof (cases "from_packet p")
    case (Some kd)
    obtain key dir where kd: "kd = (key, dir)" by force
    let ?f = "unwrap_or (flow_new key (pm_timestamp (pk_meta p)) dir) (map_of flows key)"
    show ?thesis
      using table_sum_update [OF assms, of fl_packets key "flow_observe p dir ?f"]
        table_sum_update [OF assms, of fl_bytes key "flow_observe p dir ?f"]
      by (auto simp: ft_observe_def Some kd unwrap_or_def split: option.splits)
  qed (simp add: ft_observe_def)
  then show "table_sum fl_packets (snd (ft_observe p flows)) =
      table_sum fl_packets flows + (if from_packet p = None then 0 else 1)"
    and "table_sum fl_bytes (snd (ft_observe p flows)) =
      table_sum fl_bytes flows + (if from_packet p = None then 0 else unat (pm_wire_len (pk_meta p)))"
    by auto
qed

lemma run_flows_sums:
  "hm_valid flows \<Longrightarrow>
     table_sum fl_packets (run_flows pkts flows) =
       table_sum fl_packets flows + length (filter (\<lambda>p. from_packet p \<noteq> None) pkts) \<and>
     table_sum fl_bytes (run_flows pkts flows) =
       table_sum fl_bytes flows +
       sum_list (map (\<lambda>p. unat (pm_wire_len (pk_meta p))) (filter (\<lambda>p. from_packet p \<noteq> None) pkts))"
  by (induction pkts arbitrary: flows) (auto simp: run_flows_def table_sum_observe)

text \<open>
  Conservation: over a whole capture the flows together hold every IP packet exactly once, and
  their byte counts add up to the wire lengths of those packets.
\<close>

lemma flow_conservation:
  "table_sum fl_packets (run_flows pkts []) = length (filter (\<lambda>p. from_packet p \<noteq> None) pkts) \<and>
   table_sum fl_bytes (run_flows pkts []) =
     sum_list (map (\<lambda>p. unat (pm_wire_len (pk_meta p))) (filter (\<lambda>p. from_packet p \<noteq> None) pkts))"
  using run_flows_sums [of "[]" pkts] by (simp add: table_sum_def)

section \<open>The invariant of the table\<close>

definition set_ok :: "nat \<Rightarrow> 'a::linorder btset \<Rightarrow> bool" where
  "set_ok cap s \<longleftrightarrow> sorted s \<and> distinct s \<and> length s \<le> cap"

definition flow_ok :: "flow_key \<Rightarrow> flow \<Rightarrow> bool" where
  "flow_ok key f \<longleftrightarrow>
     fl_key f = key \<and> \<not> ts_less (fl_last_seen f) (fl_first_seen f) \<and>
     length (ds_timestamps (fl_a_to_b f)) \<le> MAX_TIMESTAMP_SAMPLES \<and>
     length (ds_timestamps (fl_b_to_a f)) \<le> MAX_TIMESTAMP_SAMPLES \<and>
     set_ok 256 (fl_dns_names f) \<and> set_ok 64 (fl_http_hosts f) \<and> set_ok 16 (fl_user_agents f)"

definition table_ok :: "flow_table \<Rightarrow> bool" where
  "table_ok flows \<longleftrightarrow> hm_valid flows \<and> (\<forall>(k, f) \<in> set flows. flow_ok k f)"

lemma set_ok_insert: "set_ok cap s \<Longrightarrow> set_ok cap (insert_capped cap x s)"
  using bs_insert_sorted [of s x] length_bs_insert_le [of x s]
  by (auto simp: set_ok_def insert_capped_def)

lemma set_ok_foldl: "set_ok cap s \<Longrightarrow> set_ok cap (foldl (\<lambda>n q. insert_capped cap (g q) n) s qs)"
  by (induction qs arbitrary: s) (simp_all add: set_ok_insert)

lemma set_ok_Nil [simp]: "set_ok cap []"
  by (simp add: set_ok_def)

lemma flow_ok_record_app: "flow_ok k f \<Longrightarrow> flow_ok k (fl_record_app app f)"
  by (cases app) (auto simp: flow_ok_def fl_record_app_def Let_def set_ok_foldl set_ok_insert split: option.splits)

lemma ts_less_asym: "ts_less a b \<Longrightarrow> \<not> ts_less b a"
  by (auto simp: ts_less_def)

lemma flow_ok_note_time: "flow_ok k f \<Longrightarrow> flow_ok k (note_time ts f)"
  by (auto simp: flow_ok_def note_time_def Let_def dest: ts_less_trans ts_less_asym)

lemma flow_ok_note_syn: "flow_ok k f \<Longrightarrow> flow_ok k (note_syn tr dir f)"
  by (auto simp: flow_ok_def note_syn_def split: transport_layer.splits)

lemma flow_ok_stats: "flow_ok k f \<Longrightarrow> flow_ok k (stats_update dir (ds_observe pkt) f)"
  by (auto simp: flow_ok_def stats_update_def stamps_observe split: direction.splits)

lemma flow_ok_observe: "flow_ok k f \<Longrightarrow> flow_ok k (flow_observe pkt dir f)"
  by (simp add: flow_observe_def flow_ok_record_app flow_ok_stats flow_ok_note_syn flow_ok_note_time)

lemma flow_ok_new: "flow_ok k (flow_new k ts dir)"
  by (simp add: flow_ok_def flow_new_def ds_default_def ts_less_def)

lemma table_ok_update: "table_ok flows \<Longrightarrow> flow_ok k f \<Longrightarrow> table_ok (AList.update k f flows)"
  by (auto simp: table_ok_def dest!: alist_update_values)

lemma table_ok_lookup: "table_ok flows \<Longrightarrow> map_of flows k = Some f \<Longrightarrow> flow_ok k f"
  by (auto simp: table_ok_def dest!: map_of_SomeD)

lemma table_ok_observe: "table_ok flows \<Longrightarrow> table_ok (snd (ft_observe pkt flows))"
  by (auto simp: ft_observe_def Let_def unwrap_or_def flow_ok_observe flow_ok_new table_ok_lookup
      intro!: table_ok_update split: option.splits)

lemma table_ok_record: "table_ok flows \<Longrightarrow> table_ok (ft_record_app k app flows)"
  by (auto simp: ft_record_app_def flow_ok_record_app table_ok_lookup intro!: table_ok_update
      split: option.splits)

text \<open>The tables the program can build: packets folded in and recovered messages recorded, in any order.\<close>

inductive ft_reachable :: "flow_table \<Rightarrow> bool" where
  ft_empty: "ft_reachable []"
| ft_packet: "ft_reachable flows \<Longrightarrow> ft_reachable (snd (ft_observe pkt flows))"
| ft_message: "ft_reachable flows \<Longrightarrow> ft_reachable (ft_record_app k app flows)"

text \<open>
  In every table the program can reach, each flow is stored once, under its own key, its first
  packet is not later than its last, and every list an attacker can make grow is within its cap:
  8192 time samples per direction, 256 DNS names, 64 hosts and 16 user agents.
\<close>

lemma flow_table_invariant: "ft_reachable flows \<Longrightarrow> table_ok flows"
  by (induction rule: ft_reachable.induct)
    (simp_all add: table_ok_observe table_ok_record, simp add: table_ok_def)

text \<open>Sample packets for the concrete instances.\<close>

definition sample_ip :: "bytes \<Rightarrow> bytes \<Rightarrow> u8 \<Rightarrow> ipv4" where
  "sample_ip src dst proto =
     \<lparr>ip4_src = src, ip4_dst = dst, ip4_protocol = proto, ip4_ttl = 64, ip4_dscp = 0, ip4_ecn = 0,
      ip4_identification = 0, ip4_dont_fragment = False, ip4_more_fragments = False,
      ip4_fragment_offset = 0, ip4_total_len = 40, ip4_header_len = 20, ip4_checksum = 0,
      ip4_fragmented = False\<rparr>"

definition sample_tcp :: "u16 \<Rightarrow> u16 \<Rightarrow> u32 \<Rightarrow> u8 \<Rightarrow> tcp" where
  "sample_tcp sp dp seq flags =
     \<lparr>tcp_src_port = sp, tcp_dst_port = dp, tcp_seq = seq, tcp_ack = 0, tcp_flags = flags,
      tcp_window = 1024, tcp_checksum = 0, tcp_urgent = 0, tcp_data_offset = 5,
      tcp_opts = default_tcp_options\<rparr>"

definition sample_packet :: "bytes \<Rightarrow> bytes \<Rightarrow> tcp \<Rightarrow> nat \<Rightarrow> nat \<Rightarrow> decoded_packet" where
  "sample_packet src dst t off len =
     (empty_packet \<lparr>pm_index = 1, pm_timestamp = ts_zero, pm_captured_len = 64, pm_wire_len = 64\<rparr>)
       \<lparr>pk_network := NetIpv4 (sample_ip src dst TCP), pk_transport := TrTcp t,
        pk_payload_offset := off, pk_payload_len := len\<rparr>"

lemma flow_table_invariant_witness:
  "table_ok (snd (ft_observe (sample_packet [10, 0, 0, 1] [10, 0, 0, 2] (sample_tcp 1025 80 0 SYN) 0 0) []))"
  by (rule flow_table_invariant) (intro ft_reachable.intros)

section \<open>Who opened the conversation\<close>



text \<open>
  The flow listing is all flows of the table, largest first, ties in key order.
\<close>

lemma by_bytes_sorted:
  "sorted_wrt bytes_desc (by_bytes flows) \<and> mset (by_bytes flows) = mset (map snd flows)"
  by (simp add: by_bytes_def by_bytes.sorted_sort_by)

end
