(* ===== verification/RangeBuf.thy ===== *)
theory RangeBuf
  imports Prelude
begin

text \<open>
  The bounded sparse buffer that \<open>reassembly.rs\<close> (\<open>Stream\<close>) and \<open>ip_reassembly.rs\<close>
  (\<open>Datagram\<close>) both contain, word for word the same code: bytes plus the sorted list of filled
  ranges.  The abstraction \<open>rb_view\<close> is the partial map from offsets to bytes the buffer holds;
  \<open>rb_write\<close> refines first-writer-wins map union on it.
\<close>

type_synonym ranges = "(nat \<times> nat) list"

section \<open>The code\<close>

definition is_filled :: "ranges \<Rightarrow> nat \<Rightarrow> bool" where
  "is_filled filled at \<longleftrightarrow> list_ex (\<lambda>(s, e). s \<le> at \<and> at < e) filled"

text \<open>The loop body of \<open>add_range\<close>: the range being merged and the list going out.\<close>

fun add_step :: "(nat \<times> nat) \<times> ranges \<Rightarrow> nat \<times> nat \<Rightarrow> (nat \<times> nat) \<times> ranges" where
  "add_step ((a, b), out) (s, e) =
     (if e < a \<or> s > b then ((a, b), out @ [(s, e)]) else ((min a s, max b e), out))"

definition add_range :: "ranges \<Rightarrow> nat \<Rightarrow> nat \<Rightarrow> ranges" where
  "add_range filled start stop =
     (let (merged, out) = foldl add_step ((start, stop), []) filled in sort (out @ [merged]))"

definition contiguous :: "ranges \<Rightarrow> nat" where
  "contiguous filled = (case filled of (s, e) # _ \<Rightarrow> if s = 0 then e else 0 | [] \<Rightarrow> 0)"

text \<open>The byte loop of \<open>write\<close>; the buffer has been resized to the end of the payload before.\<close>

fun write_bytes :: "ranges \<Rightarrow> bytes \<Rightarrow> nat \<Rightarrow> bytes \<Rightarrow> bool \<Rightarrow> bytes \<times> bool" where
  "write_bytes filled buf at [] conflict = (buf, conflict)"
| "write_bytes filled buf at (b # bs) conflict =
     (if is_filled filled at
      then write_bytes filled buf (at + 1) bs (conflict \<or> buf ! at \<noteq> b)
      else write_bytes filled (buf[at := b]) (at + 1) bs conflict)"

definition resize :: "nat \<Rightarrow> bytes \<Rightarrow> bytes" where
  "resize n buf = buf @ replicate (n - length buf) 0"

definition rb_write :: "nat \<Rightarrow> nat \<Rightarrow> bytes \<Rightarrow> bytes \<times> ranges \<Rightarrow> bool \<times> bytes \<times> ranges" where
  "rb_write cap offset payload = (\<lambda>(buf, filled).
     let stop = min (offset + length payload) cap in
     if stop \<le> offset then (False, buf, filled)
     else
       let (buf', conflict) = write_bytes filled (resize stop buf) offset (take (stop - offset) payload) False
       in (conflict, buf', add_range filled offset stop))"

section \<open>Ranges\<close>

text \<open>Non-empty, ascending and separated by gaps.\<close>

definition ranges_ok :: "ranges \<Rightarrow> bool" where
  "ranges_ok f \<longleftrightarrow> sorted_wrt (\<lambda>(s, e) (s', e'). e < s') f \<and> list_all (\<lambda>(s, e). s < e) f"

lemma ranges_ok_Nil [simp]: "ranges_ok []"
  by (simp add: ranges_ok_def)

lemma ranges_ok_Cons:
  "ranges_ok ((s, e) # f) \<longleftrightarrow> s < e \<and> (\<forall>p \<in> set f. e < fst p) \<and> ranges_ok f"
  by (auto simp: ranges_ok_def)

lemma ranges_ok_above: "ranges_ok ((s, e) # f) \<Longrightarrow> b < s \<Longrightarrow> \<forall>p \<in> set ((s, e) # f). b < fst p"
  by (auto simp: ranges_ok_Cons)

text \<open>What one pass over a well-formed list amounts to.\<close>

fun ins_range :: "nat \<times> nat \<Rightarrow> ranges \<Rightarrow> ranges" where
  "ins_range m [] = [m]"
| "ins_range (a, b) ((s, e) # f) =
     (if e < a then (s, e) # ins_range (a, b) f
      else if s > b then (a, b) # (s, e) # f
      else ins_range (min a s, max b e) f)"

lemma foldl_add_step_skip:
  "\<forall>p \<in> set f. b < fst p \<Longrightarrow> foldl add_step ((a, b), out) f = ((a, b), out @ f)"
  by (induction f arbitrary: out) auto

lemma foldl_add_step:
  "ranges_ok f \<Longrightarrow> foldl add_step (m, out) f = (m', out') \<Longrightarrow>
     mset (out' @ [m']) = mset out + mset (ins_range m f)"
proof (induction m f arbitrary: out rule: ins_range.induct)
  case (2 a b s e f)
  consider "e < a" | "\<not> e < a" "s > b" | "\<not> e < a" "\<not> s > b" by blast
  then show ?case
  proof cases
    case gt: 2
    have "foldl add_step ((a, b), out) ((s, e) # f) = ((a, b), out @ (s, e) # f)"
      using ranges_ok_above [OF 2(3) gt(2)] by (rule foldl_add_step_skip)
    with 2(4) have "m' = (a, b)" "out' = out @ (s, e) # f" by simp_all
    with gt show ?thesis by simp
  qed (use 2 in \<open>auto simp: ranges_ok_Cons\<close>)
qed auto

lemma ins_range_lower:
  "lo < fst m \<Longrightarrow> \<forall>p \<in> set f. lo < fst p \<Longrightarrow> \<forall>p \<in> set (ins_range m f). lo < fst p"
  by (induction m f rule: ins_range.induct) auto

lemma ranges_ok_ins: "fst m < snd m \<Longrightarrow> ranges_ok f \<Longrightarrow> ranges_ok (ins_range m f)"
proof (induction m f rule: ins_range.induct)
  case (1 m)
  then show ?case by (cases m) (simp add: ranges_ok_Cons)
next
  case (2 a b s e f)
  consider "e < a" | "\<not> e < a" "s > b" | "\<not> e < a" "\<not> s > b" by blast
  then show ?case
  proof cases
    case 1
    with 2 ins_range_lower [of e "(a, b)" f] show ?thesis by (simp add: ranges_ok_Cons)
  next
    case gt: 2
    with 2(3,4) ranges_ok_above [OF 2(4) gt(2)] show ?thesis by (simp add: ranges_ok_Cons)
  qed (use 2 in \<open>auto simp: ranges_ok_Cons\<close>)
qed

lemma is_filled_Cons [simp]: "is_filled ((s, e) # f) i \<longleftrightarrow> s \<le> i \<and> i < e \<or> is_filled f i"
  by (simp add: is_filled_def)

lemma is_filled_Nil [simp]: "\<not> is_filled [] i"
  by (simp add: is_filled_def)

lemma is_filled_ins:
  "fst m < snd m \<Longrightarrow> ranges_ok f \<Longrightarrow>
     is_filled (ins_range m f) i \<longleftrightarrow> fst m \<le> i \<and> i < snd m \<or> is_filled f i"
proof (induction m f rule: ins_range.induct)
  case (1 m)
  then show ?case by (cases m) simp
next
  case (2 a b s e f)
  consider "e < a" | "\<not> e < a" "s > b" | "\<not> e < a" "\<not> s > b" by blast
  then show ?case
  proof cases
    case 3
    have "fst (min a s, max b e) < snd (min a s, max b e)" "ranges_ok f"
      using 2(3,4) by (simp_all add: ranges_ok_Cons)
    from 2(2) [OF 3 this] 3 2(4) show ?thesis by (auto simp: ranges_ok_Cons)
  qed (use 2 in \<open>auto simp: ranges_ok_Cons\<close>)
qed

lemma ranges_ok_sorted: "ranges_ok f \<Longrightarrow> sorted f"
proof (induction f)
  case (Cons p f)
  then show ?case by (cases p) (force simp: ranges_ok_Cons less_eq_prod_def)
qed simp

lemma add_range_ins:
  assumes "start < stop" and "ranges_ok f"
  shows "add_range f start stop = ins_range (start, stop) f"
proof -
  obtain m' out' where fold: "foldl add_step ((start, stop), []) f = (m', out')"
    using prod.exhaust by blast
  have "mset (ins_range (start, stop) f) = mset (out' @ [m'])"
    using foldl_add_step [OF assms(2) fold] by simp
  moreover have "sorted (ins_range (start, stop) f)"
    using assms by (intro ranges_ok_sorted ranges_ok_ins) simp_all
  ultimately have "sort (out' @ [m']) = ins_range (start, stop) f"
    by (intro properties_for_sort) simp_all
  then show ?thesis by (simp add: add_range_def fold)
qed

lemma ranges_ok_add: "start < stop \<Longrightarrow> ranges_ok f \<Longrightarrow> ranges_ok (add_range f start stop)"
  by (simp add: add_range_ins ranges_ok_ins)

lemma is_filled_add:
  "start < stop \<Longrightarrow> ranges_ok f \<Longrightarrow>
     is_filled (add_range f start stop) i \<longleftrightarrow> start \<le> i \<and> i < stop \<or> is_filled f i"
  by (simp add: add_range_ins is_filled_ins)

lemma length_ins_range: "length (ins_range m f) \<le> Suc (length f)"
  by (induction m f rule: ins_range.induct) auto

lemma length_add_range: "start < stop \<Longrightarrow> ranges_ok f \<Longrightarrow> length (add_range f start stop) \<le> Suc (length f)"
  by (simp add: add_range_ins length_ins_range)

section \<open>The contiguous prefix\<close>

lemma not_filled_below: "\<forall>p \<in> set f. i < fst p \<Longrightarrow> \<not> is_filled f i"
  by (induction f) auto

lemma contiguous_filled: "i < contiguous f \<Longrightarrow> is_filled f i"
  by (auto simp: contiguous_def split: list.splits if_splits)

lemma contiguous_gap: "ranges_ok f \<Longrightarrow> \<not> is_filled f (contiguous f)"
proof (cases f)
  case (Cons p f')
  assume ok: "ranges_ok f"
  obtain s e where p: "p = (s, e)" by force
  show ?thesis
  proof (cases "s = 0")
    case True
    with ok show ?thesis
      using not_filled_below [of f' e] by (simp add: Cons p contiguous_def ranges_ok_Cons)
  next
    case False
    with ok have "\<forall>p \<in> set f'. 0 < fst p" by (auto simp: Cons p ranges_ok_Cons)
    with False show ?thesis
      using not_filled_below [of f' 0] by (simp add: Cons p contiguous_def)
  qed
qed (simp add: contiguous_def)

lemma contiguous_ge: "ranges_ok f \<Longrightarrow> \<forall>i < n. is_filled f i \<Longrightarrow> n \<le> contiguous f"
  using contiguous_gap not_less by blast

section \<open>The buffer as a partial map\<close>

definition rb_view :: "bytes \<times> ranges \<Rightarrow> nat \<Rightarrow> u8 option" where
  "rb_view st i = (if is_filled (snd st) i then Some (fst st ! i) else None)"

definition rb_ok :: "nat \<Rightarrow> bytes \<times> ranges \<Rightarrow> bool" where
  "rb_ok cap st \<longleftrightarrow> ranges_ok (snd st) \<and> list_all (\<lambda>(s, e). e \<le> length (fst st)) (snd st) \<and>
     length (fst st) \<le> cap"

text \<open>The bytes a payload offers, cut at the cap.\<close>

definition seg_map :: "nat \<Rightarrow> nat \<Rightarrow> bytes \<Rightarrow> nat \<Rightarrow> u8 option" where
  "seg_map cap offset payload i =
     (if offset \<le> i \<and> i < min (offset + length payload) cap then Some (payload ! (i - offset)) else None)"

lemma filled_in_range: "list_all (\<lambda>(s, e). e \<le> n) f \<Longrightarrow> is_filled f i \<Longrightarrow> i < n"
  by (induction f) auto

lemma rb_ok_filled: "rb_ok cap st \<Longrightarrow> is_filled (snd st) i \<Longrightarrow> i < length (fst st)"
  by (auto simp: rb_ok_def intro: filled_in_range)

lemma rb_ok_contiguous: "rb_ok cap (buf, filled) \<Longrightarrow> contiguous filled \<le> length buf"
  by (auto simp: contiguous_def rb_ok_def split: list.splits if_splits)

lemma rb_ok_empty [simp]: "rb_ok cap ([], [])"
  by (simp add: rb_ok_def)

lemma length_write_bytes [simp]: "length (fst (write_bytes f buf at bs c)) = length buf"
  by (induction f buf at bs c rule: write_bytes.induct) auto

lemma nth_write_bytes:
  "at + length bs \<le> length buf \<Longrightarrow> i < length buf \<Longrightarrow>
     fst (write_bytes f buf at bs c) ! i =
       (if at \<le> i \<and> i < at + length bs \<and> \<not> is_filled f i then bs ! (i - at) else buf ! i)"
proof (induction f buf at bs c rule: write_bytes.induct)
  case (2 f buf at b bs c)
  then show ?case
    by (cases "i = at") (auto simp: nth_Cons' Suc_le_eq)
qed auto

lemma conflict_write_bytes:
  "at + length bs \<le> length buf \<Longrightarrow>
     snd (write_bytes f buf at bs c) \<longleftrightarrow> c \<or> (\<exists>k < length bs. is_filled f (at + k) \<and> buf ! (at + k) \<noteq> bs ! k)"
proof (induction f buf at bs c rule: write_bytes.induct)
  case (2 f buf at b bs c)
  have ex: "(\<exists>k < length (b # bs). P k) \<longleftrightarrow> P 0 \<or> (\<exists>k < length bs. P (Suc k))" for P
    by (auto simp: less_Suc_eq_0_disj)
  show ?case
  proof (cases "is_filled f at")
    case True
    with 2 show ?thesis unfolding ex by simp
  next
    case False
    with 2 show ?thesis unfolding ex by simp
  qed
qed simp

lemma nth_resize: "i < length buf \<Longrightarrow> resize n buf ! i = buf ! i"
  by (simp add: resize_def nth_append)

lemma length_resize [simp]: "length (resize n buf) = max n (length buf)"
  by (simp add: resize_def)

lemma seg_map_Some:
  "seg_map cap offset payload i = Some b \<longleftrightarrow>
     offset \<le> i \<and> i < min (offset + length payload) cap \<and> b = payload ! (i - offset)"
  unfolding seg_map_def by auto

lemma rb_view_Some: "rb_view st i = Some b \<longleftrightarrow> is_filled (snd st) i \<and> b = fst st ! i"
  unfolding rb_view_def by auto

lemma rb_write_unfold:
  assumes "offset < min (offset + length payload) cap"
  defines "stop \<equiv> min (offset + length payload) cap"
  shows "rb_write cap offset payload st =
    (let r = write_bytes (snd st) (resize stop (fst st)) offset (take (stop - offset) payload) False
     in (snd r, fst r, add_range (snd st) offset stop))"
proof -
  have "\<not> stop \<le> offset" using assms(1) by (simp only: stop_def not_le)
  then show ?thesis by (simp add: rb_write_def Let_def case_prod_beta flip: stop_def)
qed

text \<open>
  The refinement: whatever was there stays, the payload fills the gaps, and a conflict is reported
  exactly when the payload disagrees with a byte that was there.
\<close>

lemma rb_write_refines:
  assumes ok: "rb_ok cap st" and w: "rb_write cap offset payload st = (conflict, st')"
  shows "rb_view st' = seg_map cap offset payload ++ rb_view st"
    and "conflict \<longleftrightarrow> (\<exists>i b b'. seg_map cap offset payload i = Some b \<and> rb_view st i = Some b' \<and> b \<noteq> b')"
    and "rb_ok cap st'" and "length (snd st') \<le> Suc (length (snd st))"
proof -
  let ?stop = "min (offset + length payload) cap"
  let ?p = "take (?stop - offset) payload"
  have "rb_view st' = seg_map cap offset payload ++ rb_view st \<and>
    (conflict \<longleftrightarrow> (\<exists>i b b'. seg_map cap offset payload i = Some b \<and> rb_view st i = Some b' \<and> b \<noteq> b')) \<and>
    rb_ok cap st' \<and> length (snd st') \<le> Suc (length (snd st))"
  proof (cases "offset < ?stop")
    case False
    then have "st' = st" "\<not> conflict" using w by (auto simp: rb_write_def Let_def split: prod.splits)
    moreover have "seg_map cap offset payload = Map.empty"
      using False by (intro ext) (auto simp: seg_map_def)
    ultimately show ?thesis using ok by simp
  next
    case True
    let ?r = "write_bytes (snd st) (resize ?stop (fst st)) offset ?p False"
    have st': "st' = (fst ?r, add_range (snd st) offset ?stop)" and c: "conflict = snd ?r"
      using w by (simp_all add: rb_write_unfold [OF True] Let_def)
    have lp: "offset + length ?p = ?stop" using True by auto
    have le: "offset + length ?p \<le> length (resize ?stop (fst st))" by (simp only: lp length_resize)
    have ro: "ranges_ok (snd st)" using ok by (simp add: rb_ok_def)
    have filled: "is_filled (snd st') i \<longleftrightarrow> offset \<le> i \<and> i < ?stop \<or> is_filled (snd st) i" for i
      by (simp only: st' snd_conv is_filled_add [OF True ro])
    have old: "is_filled (snd st) i \<Longrightarrow> i < length (fst st)" for i by (rule rb_ok_filled [OF ok])
    have val: "fst st' ! i = (if offset \<le> i \<and> i < ?stop \<and> \<not> is_filled (snd st) i then payload ! (i - offset) else fst st ! i)"
      if "is_filled (snd st') i" for i
    proof -
      have "i < length (resize ?stop (fst st))" using that filled old [of i] by auto
      from nth_write_bytes [OF le this, of "snd st" False]
      have "fst st' ! i = (if offset \<le> i \<and> i < ?stop \<and> \<not> is_filled (snd st) i then ?p ! (i - offset)
          else resize ?stop (fst st) ! i)"
        by (simp only: st' fst_conv lp)
      then show ?thesis using that filled old [of i] by (auto simp: nth_resize)
    qed
    have "rb_view st' i = (seg_map cap offset payload ++ rb_view st) i" for i
      using filled [of i] val [of i]
      by (cases "is_filled (snd st) i"; cases "offset \<le> i \<and> i < ?stop")
        (auto simp: rb_view_def seg_map_def map_add_def)
    moreover have "conflict \<longleftrightarrow> (\<exists>i b b'. seg_map cap offset payload i = Some b \<and> rb_view st i = Some b' \<and> b \<noteq> b')"
    proof -
      have "conflict \<longleftrightarrow> (\<exists>k < length ?p. is_filled (snd st) (offset + k) \<and> fst st ! (offset + k) \<noteq> payload ! k)"
        unfolding c conflict_write_bytes [OF le] using old by (auto simp: nth_resize)
      also have "\<dots> \<longleftrightarrow> (\<exists>i. offset \<le> i \<and> i < ?stop \<and> is_filled (snd st) i \<and> fst st ! i \<noteq> payload ! (i - offset))"
        (is "?L \<longleftrightarrow> ?R")
      proof
        assume ?L
        then obtain k where "k < length ?p" "is_filled (snd st) (offset + k)" "fst st ! (offset + k) \<noteq> payload ! k"
          by blast
        moreover from this(1) have "offset + k < ?stop" using lp by linarith
        ultimately show ?R by (intro exI [of _ "offset + k"]) auto
      next
        assume ?R
        then obtain i where "offset \<le> i" "i < ?stop" "is_filled (snd st) i" "fst st ! i \<noteq> payload ! (i - offset)"
          by blast
        moreover from this(1,2) have "i - offset < length ?p" using lp by linarith
        ultimately show ?L by (intro exI [of _ "i - offset"]) auto
      qed
      also have "\<dots> \<longleftrightarrow> (\<exists>i b b'. seg_map cap offset payload i = Some b \<and> rb_view st i = Some b' \<and> b \<noteq> b')"
        by (intro arg_cong [where f = Ex] ext) (auto simp: seg_map_Some rb_view_Some simp del: min_less_iff_conj)
      finally show ?thesis .
    qed
    moreover have "rb_ok cap st'"
      unfolding rb_ok_def
    proof (intro conjI)
      show "ranges_ok (snd st')" by (simp only: st' snd_conv ranges_ok_add [OF True ro])
      show len: "length (fst st') \<le> cap" using ok by (simp add: st' rb_ok_def)
      have "e \<le> length (fst st')" if "(s, e) \<in> set (snd st')" for s e
      proof -
        have "s < e" using that \<open>ranges_ok (snd st')\<close> by (auto simp: ranges_ok_def list_all_iff)
        then have "is_filled (snd st') (e - 1)"
          using that by (auto simp: is_filled_def list_ex_iff intro!: bexI [of _ "(s, e)"])
        then have "e - 1 < length (fst st')" using filled [of "e - 1"] old [of "e - 1"] by (auto simp: st')
        then show ?thesis using \<open>s < e\<close> by linarith
      qed
      then show "list_all (\<lambda>(s, e). e \<le> length (fst st')) (snd st')" by (auto simp: list_all_iff)
    qed
    moreover have "length (snd st') \<le> Suc (length (snd st))"
      by (simp only: st' snd_conv length_add_range [OF True ro])
    ultimately show ?thesis by blast
  qed
  then show "rb_view st' = seg_map cap offset payload ++ rb_view st"
    and "conflict \<longleftrightarrow> (\<exists>i b b'. seg_map cap offset payload i = Some b \<and> rb_view st i = Some b' \<and> b \<noteq> b')"
    and "rb_ok cap st'" and "length (snd st') \<le> Suc (length (snd st))"
    by blast+
qed

section \<open>Rebuilding a source\<close>

text \<open>
  Segments that all come from one source \<open>src\<close>.  Whatever their order and overlaps, nothing
  conflicts, and every filled byte is the source's.
\<close>

definition from_source :: "(nat \<Rightarrow> u8) \<Rightarrow> nat \<Rightarrow> bytes \<Rightarrow> bool" where
  "from_source src offset payload \<longleftrightarrow> payload = map src [offset ..< offset + length payload]"

definition view_of :: "(nat \<Rightarrow> u8) \<Rightarrow> bytes \<times> ranges \<Rightarrow> bool" where
  "view_of src st \<longleftrightarrow> rb_view st \<subseteq>\<^sub>m (\<lambda>i. Some (src i))"

lemma view_of_empty [simp]: "view_of src ([], [])"
  by (simp add: view_of_def rb_view_def map_le_def dom_def)

lemma seg_map_source: "from_source src offset payload \<Longrightarrow> seg_map cap offset payload \<subseteq>\<^sub>m (\<lambda>i. Some (src i))"
proof (unfold map_le_def, intro ballI)
  fix i assume s: "from_source src offset payload" and "i \<in> dom (seg_map cap offset payload)"
  then obtain b where b: "seg_map cap offset payload i = Some b" by blast
  then have "offset \<le> i" "i < offset + length payload" "b = payload ! (i - offset)"
    by (simp_all add: seg_map_Some)
  moreover have "payload ! (i - offset) = map src [offset ..< offset + length payload] ! (i - offset)"
    using s by (simp add: from_source_def)
  ultimately show "seg_map cap offset payload i = Some (src i)" using b by simp
qed

lemma rb_write_source:
  assumes "rb_ok cap st" and "view_of src st" and "from_source src offset payload"
    and w: "rb_write cap offset payload st = (conflict, st')"
  shows "\<not> conflict" and "view_of src st'"
proof -
  note r = rb_write_refines [OF assms(1) w]
  have seg: "seg_map cap offset payload i = Some b \<Longrightarrow> b = src i" for i b
    using seg_map_source [OF assms(3), of cap] by (force simp: map_le_def)
  have view: "rb_view st i = Some b \<Longrightarrow> b = src i" for i b
    using assms(2) by (force simp: view_of_def map_le_def)
  show "\<not> conflict" using r(2) seg view by metis
  show "view_of src st'"
    unfolding view_of_def r(1) map_le_def
  proof
    fix i assume "i \<in> dom (seg_map cap offset payload ++ rb_view st)"
    then obtain b where b: "(seg_map cap offset payload ++ rb_view st) i = Some b" by (meson domD)
    then have "b = src i" using seg view by (auto simp: map_add_Some_iff)
    with b show "(seg_map cap offset payload ++ rb_view st) i = Some (src i)" by simp
  qed
qed

lemma contiguous_source:
  assumes "rb_ok cap st" and "view_of src st" and "n \<le> contiguous (snd st)"
  shows "take n (fst st) = map src [0 ..< n]"
proof (rule nth_equalityI)
  have len: "n \<le> length (fst st)"
  proof (rule ccontr)
    assume "\<not> n \<le> length (fst st)"
    then have "length (fst st) < contiguous (snd st)" using assms(3) by simp
    from rb_ok_filled [OF assms(1) contiguous_filled [OF this]] show False by simp
  qed
  then show "length (take n (fst st)) = length (map src [0 ..< n])" by simp
  fix i assume "i < length (take n (fst st))"
  then have "i < n" by simp
  then have "rb_view st i = Some (fst st ! i)"
    using assms(3) contiguous_filled [of i "snd st"] by (simp add: rb_view_def)
  then have "fst st ! i = src i" using assms(2) by (force simp: view_of_def map_le_def)
  then show "take n (fst st) ! i = map src [0 ..< n] ! i" using \<open>i < n\<close> by simp
qed

end
