(* ===== verification/Reassembly.thy ===== *)
theory Reassembly
  imports Flow RangeBuf
begin

unbundle bit_operations_syntax

text \<open>
  \<open>reassembly.rs\<close>: the bounded prefix of each TCP direction, rebuilt so that the application
  decoders see whole messages.  A stream is a \<open>RangeBuf\<close> with the sequence number of its offset 0;
  \<open>ra_push\<close> is the whole handler, in the order of its guards and early returns.
\<close>

section \<open>Streams\<close>

definition MAX_STREAM_BYTES :: nat where "MAX_STREAM_BYTES = 16 * 1024"
definition MAX_TRACKED_STREAMS :: nat where "MAX_TRACKED_STREAMS = 1024"
definition MAX_RANGES :: nat where "MAX_RANGES = 16"

record reassembly_stats =
  rs_recovered :: nat
  rs_dropped_streams :: nat
  rs_conflicting_overlaps :: nat

record stream =
  st_base :: u32
  st_buf :: bytes
  st_filled :: ranges
  st_segments :: nat
  st_syn_based :: bool
  st_done :: bool

definition stream_new :: "u32 \<Rightarrow> stream" where
  "stream_new base =
     \<lparr>st_base = base, st_buf = [], st_filled = [], st_segments = 0, st_syn_based = False,
      st_done = False\<rparr>"

definition stream_finish :: "stream \<Rightarrow> stream" where
  "stream_finish s = s\<lparr>st_done := True, st_buf := [], st_filled := []\<rparr>"

definition stream_rebase :: "nat \<Rightarrow> stream \<Rightarrow> stream" where
  "stream_rebase delta s =
     (let keep = MAX_STREAM_BYTES - delta in
      s\<lparr>st_buf := replicate (min delta MAX_STREAM_BYTES) 0 @ take (min (length (st_buf s)) keep) (st_buf s),
        st_filled := filter (\<lambda>(s, e). s < e)
          (map (\<lambda>(s, e). (s + delta, min (e + delta) MAX_STREAM_BYTES)) (st_filled s))\<rparr>)"

definition stream_write :: "nat \<Rightarrow> bytes \<Rightarrow> stream \<Rightarrow> bool \<times> stream" where
  "stream_write offset payload s =
     (let (conflict, buf, filled) = rb_write MAX_STREAM_BYTES offset payload (st_buf s, st_filled s)
      in (conflict, s\<lparr>st_buf := buf, st_filled := filled\<rparr>))"

definition is_complete :: "app_layer \<Rightarrow> bool" where
  "is_complete app =
     (case app of AppNone \<Rightarrow> False | AppHttp h \<Rightarrow> hm_complete h | AppTls t \<Rightarrow> th_complete t | AppDns _ \<Rightarrow> True)"

section \<open>The reassembler\<close>

record reassembler =
  ra_streams :: "(flow_key \<times> direction, stream) hashmap"
  ra_stats :: reassembly_stats

definition ra_new :: reassembler where
  "ra_new =
     \<lparr>ra_streams = [],
      ra_stats = \<lparr>rs_recovered = 0, rs_dropped_streams = 0, rs_conflicting_overlaps = 0\<rparr>\<rparr>"

definition ra_tracked :: "reassembler \<Rightarrow> nat" where
  "ra_tracked ra = length (ra_streams ra)"

definition ra_put :: "flow_key \<times> direction \<Rightarrow> stream \<Rightarrow> reassembler \<Rightarrow> reassembler" where
  "ra_put k s ra = ra\<lparr>ra_streams := AList.update k s (ra_streams ra)\<rparr>"

text \<open>A FIN, a RST or a complete message: \<open>get_mut\<close> and \<open>finish\<close>.\<close>

definition ra_close :: "flow_key \<times> direction \<Rightarrow> reassembler \<Rightarrow> reassembler" where
  "ra_close k ra =
     (case map_of (ra_streams ra) k of
        None \<Rightarrow> ra | Some s \<Rightarrow> ra_put k (stream_finish s) ra)"

text \<open>A SYN: the entry is created if need be and re-seated unless it is done.\<close>

definition ra_syn :: "flow_key \<times> direction \<Rightarrow> u32 \<Rightarrow> reassembler \<Rightarrow> reassembler" where
  "ra_syn k seq ra =
     (let s = (case map_of (ra_streams ra) k of None \<Rightarrow> stream_new (seq + 1) | Some s \<Rightarrow> s)
      in ra_put k (if \<not> st_done s then s\<lparr>st_base := seq + 1, st_syn_based := True\<rparr> else s) ra)"

text \<open>Moving the start of a stream that no SYN has settled.\<close>

definition seat_segment :: "u32 \<Rightarrow> stream \<Rightarrow> stream" where
  "seat_segment seq s =
     (if \<not> st_syn_based s then
        let back = unat (st_base s - seq) in
        if back > 0 \<and> back \<le> MAX_STREAM_BYTES then (stream_rebase back s)\<lparr>st_base := seq\<rparr> else s
      else s)"

text \<open>
  A data segment on a stream: the message it completes, whether it conflicted, and the stream.
\<close>

definition stream_segment ::
  "(bytes \<Rightarrow> bytes) \<Rightarrow> u16 \<times> u16 \<Rightarrow> u32 \<Rightarrow> bytes \<Rightarrow> stream \<Rightarrow> (app_layer option \<times> bool \<times> stream) dres" where
  "stream_segment md5 ports seq payload s =
     (if st_done s then Ok (None, False, s)
      else
        let s = seat_segment seq s; offset = unat (seq - st_base s) in
        if offset \<ge> MAX_STREAM_BYTES then Ok (None, False, s)
        else
          let (conflict, s) = stream_write offset payload s; s = s\<lparr>st_segments := st_segments s + 1\<rparr> in
          if length (st_filled s) > MAX_RANGES then Ok (None, conflict, stream_finish s)
          else if st_segments s < 2 then Ok (None, conflict, s)
          else
            let n = contiguous (st_filled s) in
            if n = 0 then Ok (None, conflict, s)
            else
              and_then (sub_list (st_buf s) 0 n) (\<lambda>bs.
              and_then (app_from_payload md5 ports (Slice 0 bs) True) (\<lambda>app.
              if is_complete app then Ok (Some app, conflict, stream_finish s)
              else if n \<ge> MAX_STREAM_BYTES then Ok (None, conflict, stream_finish s)
              else Ok (None, conflict, s))))"

definition count_segment :: "app_layer option \<Rightarrow> bool \<Rightarrow> reassembly_stats \<Rightarrow> reassembly_stats" where
  "count_segment app conflict st =
     st\<lparr>rs_conflicting_overlaps := rs_conflicting_overlaps st + (if conflict then 1 else 0),
        rs_recovered := rs_recovered st + (if app \<noteq> None then 1 else 0)\<rparr>"

definition ra_push ::
  "(bytes \<Rightarrow> bytes) \<Rightarrow> decoded_packet \<Rightarrow> bytes \<Rightarrow> reassembler \<Rightarrow> (app_layer option \<times> reassembler) dres" where
  "ra_push md5 pkt frame ra =
     (case pk_transport pkt of
        TrTcp tcp \<Rightarrow>
          (case from_packet pkt of
             None \<Rightarrow> Ok (None, ra)
           | Some k \<Rightarrow>
               let payload = pk_payload pkt frame in
               if fl_fin (tcp_flags tcp) \<or> fl_rst (tcp_flags tcp) \<or> is_complete (pk_app pkt)
               then Ok (None, ra_close k ra)
               else if fl_syn (tcp_flags tcp) then Ok (None, ra_syn k (tcp_seq tcp) ra)
               else if payload = [] then Ok (None, ra)
               else if map_of (ra_streams ra) k = None \<and> ra_tracked ra \<ge> MAX_TRACKED_STREAMS
               then Ok (None, ra\<lparr>ra_stats := (ra_stats ra)
                 \<lparr>rs_dropped_streams := rs_dropped_streams (ra_stats ra) + 1\<rparr>\<rparr>)
               else
                 let s = (case map_of (ra_streams ra) k of None \<Rightarrow> stream_new (tcp_seq tcp) | Some s \<Rightarrow> s) in
                 and_then (stream_segment md5 (unwrap_or (0, 0) (pk_ports pkt)) (tcp_seq tcp) payload s)
                   (\<lambda>(app, conflict, s').
                 Ok (app, (ra_put k s' ra)\<lparr>ra_stats := count_segment app conflict (ra_stats ra)\<rparr>)))
      | _ \<Rightarrow> Ok (None, ra))"

section \<open>The invariant\<close>

definition stream_ok :: "stream \<Rightarrow> bool" where
  "stream_ok s \<longleftrightarrow>
     rb_ok MAX_STREAM_BYTES (st_buf s, st_filled s) \<and> length (st_filled s) \<le> MAX_RANGES \<and>
     (st_done s \<longrightarrow> st_buf s = [] \<and> st_filled s = [])"

definition reassembler_ok :: "reassembler \<Rightarrow> bool" where
  "reassembler_ok ra \<longleftrightarrow> hm_valid (ra_streams ra) \<and> (\<forall>(k, s) \<in> set (ra_streams ra). stream_ok s)"

lemma stream_ok_new [simp]: "stream_ok (stream_new b)"
  by (simp add: stream_ok_def stream_new_def)

lemma stream_ok_finish [simp]: "stream_ok (stream_finish s)"
  by (simp add: stream_ok_def stream_finish_def)

text \<open>Shifting a well-formed range list and clamping it at the cap.\<close>

lemma ranges_ok_shift:
  "ranges_ok f \<Longrightarrow>
     ranges_ok (filter (\<lambda>(s, e). s < e) (map (\<lambda>(s, e). (s + d, min (e + d) cap)) f))"
proof (induction f)
  case (Cons p f)
  then show ?case by (cases p) (force simp: ranges_ok_Cons)
qed simp

lemma st_done_rebase [simp]: "st_done (stream_rebase d s) = st_done s"
  by (simp add: stream_rebase_def Let_def)

lemma stream_ok_rebase: "stream_ok s \<Longrightarrow> \<not> st_done s \<Longrightarrow> stream_ok (stream_rebase d s)"
  unfolding stream_ok_def
proof (intro conjI)
  assume ok: "rb_ok MAX_STREAM_BYTES (st_buf s, st_filled s) \<and> length (st_filled s) \<le> MAX_RANGES \<and>
    (st_done s \<longrightarrow> st_buf s = [] \<and> st_filled s = [])" and "\<not> st_done s"
  let ?f = "filter (\<lambda>(s, e). s < e) (map (\<lambda>(s, e). (s + d, min (e + d) MAX_STREAM_BYTES)) (st_filled s))"
  show "length (st_filled (stream_rebase d s)) \<le> MAX_RANGES"
    using ok by (auto simp: stream_rebase_def Let_def intro: order_trans [OF length_filter_le])
  show "st_done (stream_rebase d s) \<longrightarrow> st_buf (stream_rebase d s) = [] \<and> st_filled (stream_rebase d s) = []"
    using \<open>\<not> st_done s\<close> by (simp add: stream_rebase_def Let_def)
  have "ranges_ok ?f" using ok by (intro ranges_ok_shift) (simp add: rb_ok_def)
  moreover have "list_all (\<lambda>(a, e). e \<le> min d MAX_STREAM_BYTES + min (length (st_buf s)) (MAX_STREAM_BYTES - d)) ?f"
  proof -
    have "e \<le> min d MAX_STREAM_BYTES + min (length (st_buf s)) (MAX_STREAM_BYTES - d)" if "(a, e) \<in> set ?f" for a e
    proof -
      from that obtain a0 e0 where "(a0, e0) \<in> set (st_filled s)" "a = a0 + d" "e = min (e0 + d) MAX_STREAM_BYTES" "a < e"
        by auto
      moreover from this(1) have "e0 \<le> length (st_buf s)" using ok by (auto simp: rb_ok_def list_all_iff)
      ultimately show ?thesis by linarith
    qed
    then show ?thesis unfolding list_all_iff by blast
  qed
  ultimately show "rb_ok MAX_STREAM_BYTES (st_buf (stream_rebase d s), st_filled (stream_rebase d s))"
    by (simp add: rb_ok_def stream_rebase_def Let_def)
qed

definition stream_live :: "stream \<Rightarrow> bool" where
  "stream_live s \<longleftrightarrow> rb_ok MAX_STREAM_BYTES (st_buf s, st_filled s) \<and> \<not> st_done s"

lemma stream_ok_seat: "stream_ok s \<Longrightarrow> \<not> st_done s \<Longrightarrow> stream_ok (seat_segment seq s) \<and> \<not> st_done (seat_segment seq s)"
proof -
  assume ok: "stream_ok s" "\<not> st_done s"
  from stream_ok_rebase [OF this] have "stream_ok ((stream_rebase d s)\<lparr>st_base := b\<rparr>)" for d b
    by (simp add: stream_ok_def)
  then show ?thesis using ok by (simp add: seat_segment_def Let_def)
qed

lemma stream_write_live:
  assumes "stream_ok s" and "\<not> st_done s" and "stream_write offset payload s = (conflict, s')"
  shows "stream_live s'" and "st_segments s' = st_segments s"
proof -
  obtain buf filled where w: "rb_write MAX_STREAM_BYTES offset payload (st_buf s, st_filled s) = (conflict, buf, filled)"
    and s': "s' = s\<lparr>st_buf := buf, st_filled := filled\<rparr>"
    using assms(3) by (auto simp: stream_write_def split: prod.splits)
  have "rb_ok MAX_STREAM_BYTES (st_buf s, st_filled s)" using assms(1) by (simp add: stream_ok_def)
  from rb_write_refines(3) [OF this w] show "stream_live s'" and "st_segments s' = st_segments s"
    using assms(2) by (simp_all add: stream_live_def s')
qed

lemma safe_stream_segment:
  assumes "stream_ok s"
  shows "safe (\<lambda>(app, conflict, s'). stream_ok s') (stream_segment md5 ports seq payload s)"
proof (cases "st_done s")
  case True
  then show ?thesis using assms by (simp add: stream_segment_def)
next
  case False
  let ?s = "seat_segment seq s"
  have seat: "stream_ok ?s" "\<not> st_done ?s" using stream_ok_seat [OF assms False] by simp_all
  obtain c w where w: "stream_write (unat (seq - st_base ?s)) payload ?s = (c, w)"
    using prod.exhaust by blast
  let ?w = "w\<lparr>st_segments := st_segments w + 1\<rparr>"
  have live: "stream_live w" using stream_write_live [OF seat w] by simp
  have keep: "length (st_filled w) \<le> MAX_RANGES \<Longrightarrow> stream_ok (w\<lparr>st_segments := n\<rparr>)" for n
    using live by (simp add: stream_live_def stream_ok_def)
  have "sub_list (st_buf w) 0 (contiguous (st_filled w)) = (Ok (take (contiguous (st_filled w)) (st_buf w)) :: bytes dres)"
    using live rb_ok_contiguous [of MAX_STREAM_BYTES "st_buf w" "st_filled w"] by (simp add: stream_live_def)
  then show ?thesis
    unfolding stream_segment_def Let_def w
    by (auto simp: False seat keep not_less Let_def intro!: safe_and_then [OF safe_app_from_payload])
qed

lemma reassembler_ok_put: "reassembler_ok ra \<Longrightarrow> stream_ok s \<Longrightarrow> reassembler_ok (ra_put k s ra)"
  by (auto simp: reassembler_ok_def ra_put_def dest!: alist_update_values)

lemma reassembler_ok_lookup: "reassembler_ok ra \<Longrightarrow> map_of (ra_streams ra) k = Some s \<Longrightarrow> stream_ok s"
  by (auto simp: reassembler_ok_def dest!: map_of_SomeD)

lemma reassembler_ok_stats [simp]: "reassembler_ok (ra\<lparr>ra_stats := st\<rparr>) = reassembler_ok ra"
  by (simp add: reassembler_ok_def)

lemma reassembler_ok_close: "reassembler_ok ra \<Longrightarrow> reassembler_ok (ra_close k ra)"
  by (simp add: ra_close_def reassembler_ok_put split: option.splits)

lemma reassembler_ok_syn: "reassembler_ok ra \<Longrightarrow> reassembler_ok (ra_syn k seq ra)"
proof -
  assume ra: "reassembler_ok ra"
  have "stream_ok (case map_of (ra_streams ra) k of None \<Rightarrow> stream_new (seq + 1) | Some s \<Rightarrow> s)"
    using reassembler_ok_lookup [OF ra] by (simp split: option.splits)
  then have "stream_ok (let s = (case map_of (ra_streams ra) k of None \<Rightarrow> stream_new (seq + 1) | Some s \<Rightarrow> s)
      in if \<not> st_done s then s\<lparr>st_base := seq + 1, st_syn_based := True\<rparr> else s)"
    by (simp add: stream_ok_def Let_def)
  then show ?thesis using ra by (simp add: ra_syn_def Let_def reassembler_ok_put)
qed

lemma safe_ra_push:
  assumes "reassembler_ok ra"
  shows "safe (\<lambda>(app, ra'). reassembler_ok ra') (ra_push md5 pkt frame ra)"
proof (cases "pk_transport pkt")
  case (TrTcp tcp)
  have step: "safe (\<lambda>(app, ra'). reassembler_ok ra')
      (let s = (case map_of (ra_streams ra) k of None \<Rightarrow> stream_new (tcp_seq tcp) | Some s \<Rightarrow> s) in
       and_then (stream_segment md5 (unwrap_or (0, 0) (pk_ports pkt)) (tcp_seq tcp) payload s)
         (\<lambda>(app, conflict, s').
       Ok (app, (ra_put k s' ra)\<lparr>ra_stats := count_segment app conflict (ra_stats ra)\<rparr>)))" for k payload
  proof -
    have "stream_ok (case map_of (ra_streams ra) k of None \<Rightarrow> stream_new (tcp_seq tcp) | Some s \<Rightarrow> s)"
      using reassembler_ok_lookup [OF assms] by (simp split: option.splits)
    from safe_stream_segment [OF this] show ?thesis
      unfolding Let_def by (rule safe_and_then) (auto intro: reassembler_ok_put [OF assms])
  qed
  show ?thesis
    unfolding ra_push_def TrTcp transport_layer.case Let_def
    by (intro safe_case_option safe_if_step safe_Ok_step step [unfolded Let_def])
      (simp_all add: assms reassembler_ok_close reassembler_ok_syn)
qed (simp_all add: ra_push_def assms)

text \<open>The reassembler after a list of packets, each with its frame.\<close>

fun ra_run :: "(bytes \<Rightarrow> bytes) \<Rightarrow> (decoded_packet \<times> bytes) list \<Rightarrow> reassembler \<Rightarrow> reassembler dres" where
  "ra_run md5 [] ra = Ok ra"
| "ra_run md5 ((pkt, frame) # ps) ra =
     and_then (ra_push md5 pkt frame ra) (\<lambda>(app, ra'). ra_run md5 ps ra')"

lemma safe_ra_run: "reassembler_ok ra \<Longrightarrow> safe reassembler_ok (ra_run md5 ps ra)"
proof (induction ps arbitrary: ra)
  case (Cons p ps)
  then show ?case
    by (cases p) (auto intro!: safe_and_then [OF safe_ra_push])
qed simp

lemma no_err_stream_segment [no_err_rules]: "no_err (stream_segment md5 ports seq payload s)"
  unfolding stream_segment_def by (intro no_err_rules)

lemma no_err_ra_push [no_err_rules]: "no_err (ra_push md5 pkt frame ra)"
  unfolding ra_push_def by (cases "pk_transport pkt"; simp only: transport_layer.case; intro no_err_rules)

lemma no_err_ra_run: "no_err (ra_run md5 ps ra)"
proof (induction ps arbitrary: ra)
  case (Cons p ps)
  show ?case by (cases p) (simp only: ra_run.simps, intro no_err_rules Cons.IH)
qed simp

text \<open>
  Bounded buffers: feeding any packets whatever to the TCP reassembler never fails, and in the
  state it ends in every stream buffers at most 16 KiB in at most 16 disjoint, ascending ranges, all
  inside its buffer; a finished stream holds nothing.
\<close>

lemma reassembler_bounded: "returns reassembler_ok (ra_run md5 ps ra_new)"
  by (rule returnsI [OF safe_ra_run no_err_ra_run]) (simp add: ra_new_def reassembler_ok_def)

section \<open>What is recovered is the stream that was sent\<close>

text \<open>A stream seated by a SYN, whose buffered bytes are those of the source.\<close>

definition in_sync :: "u32 \<Rightarrow> (nat \<Rightarrow> u8) \<Rightarrow> stream \<Rightarrow> bool" where
  "in_sync base src s \<longleftrightarrow>
     stream_ok s \<and> st_syn_based s \<and> st_base s = base \<and> view_of src (st_buf s, st_filled s)"

lemma in_sync_finish: "in_sync base src s \<Longrightarrow> in_sync base src (stream_finish s)"
  by (simp add: in_sync_def) (simp add: stream_finish_def)

definition stream_prefix_message ::
  "(bytes \<Rightarrow> bytes) \<Rightarrow> u16 \<times> u16 \<Rightarrow> (nat \<Rightarrow> u8) \<Rightarrow> app_layer \<Rightarrow> bool" where
  "stream_prefix_message md5 ports src a \<longleftrightarrow>
     is_complete a \<and>
     (\<exists>k \<le> MAX_STREAM_BYTES. app_from_payload md5 ports (Slice 0 (map src [0 ..< k])) True = Ok a)"

lemma unat_offset: "off < 2 ^ 32 \<Longrightarrow> unat (base + word_of_nat off - base :: u32) = off"
  by (simp add: unat_of_nat)

lemma stream_segment_sync:
  assumes sync: "in_sync base src s" and live: "\<not> st_done s"
    and off: "off < 2 ^ 32" and src: "from_source src off payload"
  shows "safe (\<lambda>(app, conflict, s').
       \<not> conflict \<and> in_sync base src s' \<and>
       (case app of None \<Rightarrow> True | Some a \<Rightarrow> st_done s' \<and> stream_prefix_message md5 ports src a) \<and>
       (st_done s' \<or> rb_view (st_buf s', st_filled s') =
          seg_map MAX_STREAM_BYTES off payload ++ rb_view (st_buf s, st_filled s)))
     (stream_segment md5 ports (base + word_of_nat off) payload s)"
proof -
  have seat: "seat_segment q s = s" for q using sync by (simp add: in_sync_def seat_segment_def)
  have pos: "unat (base + word_of_nat off - st_base s) = off"
    using sync unat_offset [OF off] by (simp add: in_sync_def)
  show ?thesis
  proof (cases "off \<ge> MAX_STREAM_BYTES")
    case True
    then have "seg_map MAX_STREAM_BYTES off payload = Map.empty"
      by (intro ext) (auto simp: seg_map_def)
    then show ?thesis using True sync live by (simp add: stream_segment_def seat pos Let_def)
  next
    case False
    obtain c buf filled where w: "rb_write MAX_STREAM_BYTES off payload (st_buf s, st_filled s) = (c, buf, filled)"
      using prod.exhaust by metis
    let ?w = "s\<lparr>st_buf := buf, st_filled := filled\<rparr>"
    have ok: "rb_ok MAX_STREAM_BYTES (st_buf s, st_filled s)" "view_of src (st_buf s, st_filled s)"
      using sync by (simp_all add: in_sync_def stream_ok_def)
    note r = rb_write_refines [OF ok(1) w] rb_write_source [OF ok src w]
    have wr: "stream_write off payload s = (c, ?w)" by (simp add: stream_write_def w)
    have sync': "length filled \<le> MAX_RANGES \<Longrightarrow> in_sync base src (?w\<lparr>st_segments := n\<rparr>)" for n
      using sync r live by (simp add: in_sync_def stream_ok_def)
    have fi: "in_sync base src (stream_finish (?w\<lparr>st_segments := n\<rparr>))" for n
      using sync by (simp add: in_sync_def) (simp add: stream_finish_def)
    have dn: "st_done (stream_finish x)" for x by (simp add: stream_finish_def)
    let ?n = "contiguous filled"
    have n: "?n \<le> length buf" "?n \<le> MAX_STREAM_BYTES"
      using rb_ok_contiguous r(3) by (auto simp: rb_ok_def intro: order_trans)
    have pfx: "take ?n buf = map src [0 ..< ?n]"
      using contiguous_source [OF r(3) r(6), of ?n] by simp
    have sub: "sub_list buf 0 ?n = (Ok (map src [0 ..< ?n]) :: bytes dres)"
      using n pfx by (simp add: sub_list_def)
    have msg: "app_from_payload md5 ports (Slice 0 (map src [0 ..< ?n])) True = Ok a \<Longrightarrow> is_complete a \<Longrightarrow>
        stream_prefix_message md5 ports src a" for a
      using n(2) by (auto simp: stream_prefix_message_def)
    have fin_app: "safe (\<lambda>a. app_from_payload md5 ports (Slice 0 (map src [0 ..< ?n])) True = Ok a)
        (app_from_payload md5 ports (Slice 0 (map src [0 ..< ?n])) True)"
      using safe_not_Panic [OF safe_app_from_payload [of md5 ports "Slice 0 (map src [0 ..< ?n])" True]]
      by (cases "app_from_payload md5 ports (Slice 0 (map src [0 ..< ?n])) True") auto
    show ?thesis
      using False r(1,5) live
      by (auto simp: stream_segment_def seat pos wr Let_def sub sync' fi dn not_less
          intro!: safe_and_then [OF fin_app] msg)
  qed
qed

text \<open>A stream fed its segments, in the order of arrival: the messages, the conflicts, the stream.\<close>

fun stream_feed ::
  "(bytes \<Rightarrow> bytes) \<Rightarrow> u16 \<times> u16 \<Rightarrow> u32 \<Rightarrow> (nat \<times> bytes) list \<Rightarrow> stream \<Rightarrow>
     (app_layer list \<times> nat \<times> stream) dres" where
  "stream_feed md5 ports base [] s = Ok ([], 0, s)"
| "stream_feed md5 ports base ((off, payload) # segs) s =
     and_then (stream_segment md5 ports (base + word_of_nat off) payload s) (\<lambda>(app, conflict, s').
     and_then (stream_feed md5 ports base segs s') (\<lambda>(apps, n, s'').
     Ok ((case app of None \<Rightarrow> apps | Some a \<Rightarrow> a # apps), (if conflict then Suc n else n), s'')))"

text \<open>The bytes a list of segments carries.\<close>

definition segs_map :: "(nat \<times> bytes) list \<Rightarrow> nat \<Rightarrow> u8 option" where
  "segs_map segs = foldl (\<lambda>m (off, payload). seg_map MAX_STREAM_BYTES off payload ++ m) Map.empty segs"

lemma foldl_map_add:
  "foldl (\<lambda>m (off, payload). seg_map cap off payload ++ m) m0 segs =
     foldl (\<lambda>m (off, payload). seg_map cap off payload ++ m) Map.empty segs ++ m0"
proof (induction segs arbitrary: m0)
  case (Cons p segs)
  obtain off payload where p: "p = (off, payload)" by force
  show ?case
    using Cons.IH [of "seg_map cap off payload ++ m0"] Cons.IH [of "seg_map cap off payload"]
    by (simp add: p)
qed simp

lemma stream_feed_done: "st_done s \<Longrightarrow> stream_feed md5 ports base segs s = Ok ([], 0, s)"
  by (induction segs) (auto simp: stream_segment_def)

lemma no_err_stream_feed: "no_err (stream_feed md5 ports base segs s)"
proof (induction segs arbitrary: s)
  case (Cons p segs)
  show ?case by (cases p) (simp only: stream_feed.simps, intro no_err_rules Cons.IH)
qed simp

lemma stream_feed_sync:
  assumes "in_sync base src s" and "\<forall>(off, payload) \<in> set segs. off < 2 ^ 32 \<and> from_source src off payload"
  shows "safe (\<lambda>(apps, n, s').
      n = 0 \<and> in_sync base src s' \<and> length apps \<le> 1 \<and>
      list_all (stream_prefix_message md5 ports src) apps \<and>
      (st_done s' \<or> rb_view (st_buf s', st_filled s') = segs_map segs ++ rb_view (st_buf s, st_filled s)))
    (stream_feed md5 ports base segs s)"
  using assms
proof (induction segs arbitrary: s)
  case Nil
  then show ?case by (simp add: segs_map_def)
next
  case (Cons p segs)
  obtain off payload where p: "p = (off, payload)" by force
  show ?case
  proof (cases "st_done s")
    case True
    then show ?thesis using Cons.prems(1) by (simp add: stream_feed_done)
  next
    case False
    have v: "off < 2 ^ 32" "from_source src off payload" using Cons.prems(2) by (auto simp: p)
    have rest: "\<forall>(off, payload) \<in> set segs. off < 2 ^ 32 \<and> from_source src off payload"
      using Cons.prems(2) by simp
    have later: "safe (\<lambda>(apps, n, s').
      n = 0 \<and> in_sync base src s' \<and> length apps \<le> 1 \<and> list_all (stream_prefix_message md5 ports src) apps \<and>
      (st_done s' \<or> rb_view (st_buf s', st_filled s') = segs_map (p # segs) ++ rb_view (st_buf s, st_filled s)))
      (and_then (stream_feed md5 ports base segs s1) (\<lambda>(apps, n, s'').
         Ok ((case app of None \<Rightarrow> apps | Some a \<Rightarrow> a # apps), (if c then Suc n else n), s'')))"
      if h: "\<not> c" "in_sync base src s1"
        "case app of None \<Rightarrow> True | Some a \<Rightarrow> st_done s1 \<and> stream_prefix_message md5 ports src a"
        "st_done s1 \<or> rb_view (st_buf s1, st_filled s1) =
           seg_map MAX_STREAM_BYTES off payload ++ rb_view (st_buf s, st_filled s)" for app c s1
    proof (cases "st_done s1")
      case True
      then show ?thesis using h by (simp add: stream_feed_done split: option.splits)
    next
      case False
      with h have "app = None" by (simp split: option.splits)
      moreover have "segs_map (p # segs) ++ rb_view (st_buf s, st_filled s) =
          segs_map segs ++ rb_view (st_buf s1, st_filled s1)"
        using h(4) False foldl_map_add [of MAX_STREAM_BYTES "seg_map MAX_STREAM_BYTES off payload" segs]
        by (simp add: segs_map_def p)
      ultimately show ?thesis
        using h(1) by (auto intro!: safe_and_then [OF Cons.IH [OF h(2) rest]])
    qed
    show ?thesis
      unfolding p stream_feed.simps
      by (rule safe_and_then [OF stream_segment_sync [OF Cons.prems(1) False v]])
        (use later in \<open>auto simp: p\<close>)
  qed
qed

text \<open>The stream a SYN opens.\<close>

definition syn_stream :: "u32 \<Rightarrow> stream" where
  "syn_stream isn = (stream_new (isn + 1))\<lparr>st_syn_based := True\<rparr>"

text \<open>
  C4. Reassembly after a SYN is faithful: segments of one sender, in any order, with any overlaps and
  retransmissions, across a wrap of the sequence number, are never called conflicting; at most one
  message is emitted, and it is what the decoders make of a true prefix of the sender's byte
  stream; and as long as the stream is open its buffer holds exactly the bytes received.
\<close>

theorem stream_recovers_source:
  assumes "\<forall>(off, payload) \<in> set segs. off < 2 ^ 32 \<and> from_source src off payload"
  shows "returns (\<lambda>(apps, n, s').
      n = 0 \<and> length apps \<le> 1 \<and> list_all (stream_prefix_message md5 ports src) apps \<and>
      (st_done s' \<or> rb_view (st_buf s', st_filled s') = segs_map segs))
    (stream_feed md5 ports (isn + 1) segs (syn_stream isn))"
proof -
  have "in_sync (isn + 1) src (syn_stream isn)"
    by (simp add: in_sync_def syn_stream_def stream_new_def stream_ok_def)
  moreover have "rb_view ([], []) = Map.empty" by (intro ext) (simp add: rb_view_def)
  ultimately show ?thesis
    using stream_feed_sync [OF _ assms, of "isn + 1" "syn_stream isn" md5 ports]
    by (intro returnsI no_err_stream_feed) (auto simp: syn_stream_def stream_new_def elim!: safe_mono)
qed

theorem stream_recovers_source_witness:
  "returns (\<lambda>(apps, n, s').
      n = 0 \<and> length apps \<le> 1 \<and> list_all (stream_prefix_message (\<lambda>_. []) (50000, 80) (\<lambda>i. word_of_nat i)) apps \<and>
      (st_done s' \<or> rb_view (st_buf s', st_filled s') = segs_map [(1, [1, 2]), (0, [0, 1])]))
    (stream_feed (\<lambda>_. []) (50000, 80) (0xFFFFFFFF + 1) [(1, [1, 2]), (0, [0, 1])] (syn_stream 0xFFFFFFFF))"
  by (rule stream_recovers_source) (simp add: from_source_def upt_rec)

section \<open>Where the caps do not hold\<close>

lemma ra_run_append:
  "ra_run md5 (ps @ qs) ra = and_then (ra_run md5 ps ra) (\<lambda>ra'. ra_run md5 qs ra')"
proof (induction ps arbitrary: ra)
  case (Cons p ps)
  obtain pkt frame where p: "p = (pkt, frame)" by force
  show ?case using Cons.IH by (cases "ra_push md5 pkt frame ra") (auto simp: p)
qed simp

text \<open>Bare SYNs from one host to another, one per source port.\<close>

definition syn_packet :: "nat \<Rightarrow> decoded_packet" where
  "syn_packet i =
     sample_packet [10, 0, 0, 1] [10, 0, 0, 2] (sample_tcp (word_of_nat i) 80 0 SYN) 0 0"

definition syn_key :: "nat \<Rightarrow> flow_key \<times> direction" where
  "syn_key i = (FlowKey (V4 [10, 0, 0, 1]) (word_of_nat i) (V4 [10, 0, 0, 2]) 80 TCP, AToB)"

lemma syn_push:
  "ra_push md5 (syn_packet i) frame ra = Ok (None, ra_syn (syn_key i) 0 ra)"
proof -
  have "(V4 [10, 0, 0, 1], word_of_nat i :: u16) \<le> (V4 [10, 0, 0, 2], 80)"
    by (simp add: less_eq_prod_def less_ip_addr_def)
  then have "from_packet (syn_packet i) = Some (syn_key i)"
    by (simp add: from_packet_def syn_packet_def syn_key_def sample_packet_def sample_ip_def sample_tcp_def
        src_ip_def dst_ip_def ip_protocol_def pk_ports_def unwrap_or_def canonical_def)
  then show ?thesis
    by (simp add: ra_push_def syn_packet_def sample_packet_def sample_tcp_def empty_packet_def
        flag_defs tcp_flag_bits is_complete_def)
qed

lemma syn_key_inj: "i < 65536 \<Longrightarrow> j < 65536 \<Longrightarrow> syn_key i = syn_key j \<longleftrightarrow> i = j"
proof
  assume "i < 65536" "j < 65536" "syn_key i = syn_key j"
  then have "unat (word_of_nat i :: u16) = unat (word_of_nat j :: u16)"
    by (simp add: syn_key_def)
  with \<open>i < 65536\<close> \<open>j < 65536\<close> show "i = j" by (simp add: unat_of_nat)
qed simp

definition syn_scan :: "nat \<Rightarrow> (decoded_packet \<times> bytes) list" where
  "syn_scan n = map (\<lambda>i. (syn_packet i, [])) [0 ..< n]"

lemma ra_tracked_syn:
  "map_of (ra_streams ra) k = None \<Longrightarrow> ra_tracked (ra_syn k seq ra) = Suc (ra_tracked ra)"
  by (simp add: ra_tracked_def ra_syn_def ra_put_def Let_def length_alist_update)

lemma syn_scan_run:
  "n \<le> 65536 \<Longrightarrow> \<exists>ra. ra_run md5 (syn_scan n) ra_new = Ok ra \<and> ra_tracked ra = n \<and>
     fst ` set (ra_streams ra) = syn_key ` {0 ..< n}"
proof (induction n)
  case 0
  then show ?case by (simp add: syn_scan_def ra_new_def ra_tracked_def)
next
  case (Suc n)
  then obtain ra where ra: "ra_run md5 (syn_scan n) ra_new = Ok ra" "ra_tracked ra = n"
    "fst ` set (ra_streams ra) = syn_key ` {0 ..< n}" by auto
  have "syn_key n \<notin> syn_key ` {0 ..< n}" using Suc.prems by (auto simp: syn_key_inj)
  then have new: "map_of (ra_streams ra) (syn_key n) = None"
    using ra(3) by (simp add: map_of_eq_None_iff)
  have "fst ` set (ra_streams (ra_syn (syn_key n) 0 ra)) = insert (syn_key n) (fst ` set (ra_streams ra))"
    by (simp add: ra_syn_def ra_put_def Let_def dom_update)
  moreover have "syn_scan (Suc n) = syn_scan n @ [(syn_packet n, [])]" by (simp add: syn_scan_def)
  ultimately show ?case
    using ra new by (simp add: ra_run_append syn_push ra_tracked_syn atLeast0_lessThan_Suc)
qed

text \<open>
  C39. A port scan is not capped: the documented limit of 1024 tracked streams is checked for data
  segments only, so bare SYNs from \<open>n\<close> ports leave \<open>n\<close> entries in the table, all 65,536 if need be.
\<close>

theorem syn_scan_unbounded:
  "n \<le> 65536 \<Longrightarrow> \<exists>ra. ra_run md5 (syn_scan n) ra_new = Ok ra \<and> ra_tracked ra = n"
  using syn_scan_run by blast

theorem syn_scan_unbounded_witness:
  "\<exists>ra. ra_run (\<lambda>_. []) (syn_scan 65536) ra_new = Ok ra \<and> ra_tracked ra = 65536 \<and> MAX_TRACKED_STREAMS < ra_tracked ra"
  using syn_scan_unbounded [of 65536 "\<lambda>_. []"] by (auto simp: MAX_TRACKED_STREAMS_def)

text \<open>Data segments do respect the limit.\<close>

lemma ra_tracked_put: "ra_tracked (ra_put k s ra) =
    (if map_of (ra_streams ra) k = None then Suc (ra_tracked ra) else ra_tracked ra)"
  by (simp add: ra_tracked_def ra_put_def length_alist_update)

lemma ra_tracked_close [simp]: "ra_tracked (ra_close k ra) = ra_tracked ra"
  by (simp add: ra_close_def ra_tracked_put split: option.splits)

lemma ra_tracked_lookup: "map_of (ra_streams ra) k = Some s \<Longrightarrow> ra_tracked (ra_put k s' ra) = ra_tracked ra"
  by (simp add: ra_tracked_put)

lemma ra_tracked_stats [simp]: "ra_tracked (ra\<lparr>ra_stats := st\<rparr>) = ra_tracked ra"
  by (simp add: ra_tracked_def)

text \<open>
  Every other packet keeps the table within its limit of 1024 streams: a segment that would open
  one more is dropped and counted, and nothing else adds an entry.
\<close>

lemma data_segments_capped:
  assumes ok: "reassembler_ok ra" and cap: "ra_tracked ra \<le> MAX_TRACKED_STREAMS"
    and tcp: "pk_transport pkt = TrTcp t" and syn: "\<not> fl_syn (tcp_flags t)"
  shows "returns (\<lambda>(app, ra'). ra_tracked ra' \<le> MAX_TRACKED_STREAMS) (ra_push md5 pkt frame ra)"
proof -
  have put: "ra_tracked (ra_put k s ra) \<le> MAX_TRACKED_STREAMS"
    if "\<not> (map_of (ra_streams ra) k = None \<and> ra_tracked ra \<ge> MAX_TRACKED_STREAMS)" for k s
    using that cap by (auto simp: ra_tracked_put)
  have seg: "safe (\<lambda>(app, conflict, s'). stream_ok s')
      (stream_segment md5 ports seq payload (case map_of (ra_streams ra) k of None \<Rightarrow> stream_new b | Some s \<Rightarrow> s))"
    for ports seq payload k b
    using reassembler_ok_lookup [OF ok] by (intro safe_stream_segment) (simp split: option.splits)
  have "safe (\<lambda>(app, ra'). ra_tracked ra' \<le> MAX_TRACKED_STREAMS) (ra_push md5 pkt frame ra)"
    unfolding ra_push_def tcp transport_layer.case Let_def
    by (intro safe_case_option safe_if_cond safe_Ok_step safe_and_then [OF seg])
      (use syn in \<open>auto simp: cap put\<close>)
  then show ?thesis by (rule returnsI) (rule no_err_ra_push)
qed

lemma data_segments_capped_witness:
  "returns (\<lambda>(app, ra'). ra_tracked ra' \<le> MAX_TRACKED_STREAMS)
     (ra_push (\<lambda>_. []) (sample_packet [10, 0, 0, 1] [10, 0, 0, 2] (sample_tcp 50000 80 9 ACK) 0 2) [71, 69] ra_new)"
  by (rule data_segments_capped [where t = "sample_tcp 50000 80 9 ACK"])
    (simp_all add: ra_new_def reassembler_ok_def ra_tracked_def MAX_TRACKED_STREAMS_def sample_packet_def
      sample_tcp_def flag_defs tcp_flag_bits)

section \<open>A late SYN\<close>

text \<open>
  One sender whose bytes at sequence numbers 1 and 2 are 10 and 20: the byte at 2 arrives first, then
  the SYN (sequence number 0), then the byte at 1.
\<close>

definition late_syn_run :: "(decoded_packet \<times> bytes) list" where
  "late_syn_run =
     [(sample_packet [10, 0, 0, 1] [10, 0, 0, 2] (sample_tcp 50000 80 2 ACK) 0 1, [20]),
      (sample_packet [10, 0, 0, 1] [10, 0, 0, 2] (sample_tcp 50000 80 0 SYN) 0 0, []),
      (sample_packet [10, 0, 0, 1] [10, 0, 0, 2] (sample_tcp 50000 80 1 ACK) 0 1, [10])]"

text \<open>
  A SYN that arrives after data re-seats the stream without moving what is buffered, so bytes of
  one consistent sender, in the order data, SYN, data, are reported as a conflicting overlap.
\<close>

lemma late_syn_conflict:
  "case ra_run (\<lambda>_. []) late_syn_run ra_new of
     Ok ra \<Rightarrow> rs_conflicting_overlaps (ra_stats ra) = 1 | _ \<Rightarrow> False"
proof -
  have le: "V4 [10, 0, 0, 1] < V4 [10, 0, 0, 2]" by (simp add: less_ip_addr_def)
  have app: "app_from_payload (\<lambda>_. []) (50000, 80) (Slice 0 [20]) True = Ok AppNone" by code_simp
  note packet = ra_push_def sample_packet_def sample_ip_def sample_tcp_def empty_packet_def src_ip_def dst_ip_def
    ip_protocol_def pk_ports_def unwrap_or_def from_packet_def canonical_def le flag_defs tcp_flag_bits
    is_complete_def pk_payload_def get_range_def
  note stream = stream_segment_def seat_segment_def stream_write_def rb_write_def add_range_def resize_def contiguous_def stream_finish_def app
    MAX_STREAM_BYTES_def MAX_TRACKED_STREAMS_def MAX_RANGES_def
  note table = ra_new_def ra_put_def ra_tracked_def ra_syn_def stream_new_def count_segment_def Let_def
  show ?thesis
    by (simp add: late_syn_run_def packet stream table)
qed

end
