(* ===== verification/IpReassembly.thy ===== *)
theory IpReassembly
  imports Packet RangeBuf
begin

text \<open>
  \<open>ip_reassembly.rs\<close>: IP fragments put back together and decoded afresh.  A datagram is a
  \<open>RangeBuf\<close> with the total length the last fragment announces; \<open>ir_push\<close> is the whole handler.
\<close>

section \<open>Datagrams\<close>

definition MAX_DATAGRAM_BYTES :: nat where "MAX_DATAGRAM_BYTES = 65535"
definition MAX_TRACKED_DATAGRAMS :: nat where "MAX_TRACKED_DATAGRAMS = 1024"
definition MAX_DATAGRAM_RANGES :: nat where "MAX_DATAGRAM_RANGES = 16"

record ip_reassembly_stats =
  is_reassembled :: nat
  is_dropped_datagrams :: nat
  is_conflicting_overlaps :: nat

record frag_key =
  fk_src :: ip_addr
  fk_dst :: ip_addr
  fk_protocol :: u8
  fk_id :: u32

record frag =
  fi_key :: frag_key
  fi_offset :: nat
  fi_more_fragments :: bool

text \<open>The three \<open>?\<close> of the source come before the test for a fragment.\<close>

definition frag_info :: "decoded_packet \<Rightarrow> frag option" where
  "frag_info pkt =
     (case (src_ip pkt, dst_ip pkt, ip_protocol pkt) of
        (Some src, Some dst, Some protocol) \<Rightarrow>
          (case (case pk_network pkt of
                   NetIpv4 h \<Rightarrow>
                     if ip4_fragmented h
                     then Some (ucast (ip4_identification h) :: u32, unat (ip4_fragment_offset h), ip4_more_fragments h)
                     else None
                 | NetIpv6 h \<Rightarrow>
                     if ip6_fragmented h
                     then Some (ip6_identification h, unat (ip6_fragment_offset h), ip6_more_fragments h)
                     else None
                 | _ \<Rightarrow> None) of
             None \<Rightarrow> None
           | Some (ident, offset, more_fragments) \<Rightarrow>
               Some \<lparr>fi_key = \<lparr>fk_src = src, fk_dst = dst, fk_protocol = protocol, fk_id = ident\<rparr>,
                     fi_offset = offset, fi_more_fragments = more_fragments\<rparr>)
      | _ \<Rightarrow> None)"

record datagram =
  dg_buf :: bytes
  dg_filled :: ranges
  dg_total_len :: "nat option"
  dg_fragments :: nat
  dg_done :: bool

definition datagram_new :: datagram where
  "datagram_new =
     \<lparr>dg_buf = [], dg_filled = [], dg_total_len = None, dg_fragments = 0, dg_done = False\<rparr>"

definition datagram_finish :: "datagram \<Rightarrow> datagram" where
  "datagram_finish d = d\<lparr>dg_done := True, dg_buf := [], dg_filled := []\<rparr>"

definition datagram_write :: "nat \<Rightarrow> bytes \<Rightarrow> datagram \<Rightarrow> bool \<times> datagram" where
  "datagram_write offset payload d =
     (let (conflict, buf, filled) = rb_write MAX_DATAGRAM_BYTES offset payload (dg_buf d, dg_filled d)
      in (conflict, d\<lparr>dg_buf := buf, dg_filled := filled\<rparr>))"

text \<open>\<open>get_or_insert\<close>: the first announcement of the end wins.\<close>

definition note_total :: "bool \<Rightarrow> nat \<Rightarrow> datagram \<Rightarrow> datagram" where
  "note_total more_fragments stop d =
     (if \<not> more_fragments
      then d\<lparr>dg_total_len := Some (case dg_total_len d of None \<Rightarrow> stop | Some n \<Rightarrow> n)\<rparr>
      else d)"

definition decode_datagram ::
  "(bytes \<Rightarrow> bytes) \<Rightarrow> u8 \<Rightarrow> slice \<Rightarrow> (transport_layer \<times> app_layer) dres" where
  "decode_datagram md5 protocol buf =
     (if protocol = TCP then
        match_res (parse_tcp buf)
          (\<lambda>(tcp, payload).
             and_then (app_from_payload md5 (tcp_src_port tcp, tcp_dst_port tcp) payload True)
               (\<lambda>app. Ok (TrTcp tcp, app)))
          (\<lambda>_. Ok (TrNone, AppNone))
      else if protocol = UDP then
        match_res (parse_udp buf)
          (\<lambda>(udp, payload).
             and_then (app_from_payload md5 (udp_src_port udp, udp_dst_port udp) payload False)
               (\<lambda>app. Ok (TrUdp udp, app)))
          (\<lambda>_. Ok (TrNone, AppNone))
      else if protocol = ICMP \<or> protocol = ICMPV6 then
        match_res (parse_icmp buf (protocol = ICMPV6))
          (\<lambda>icmp. Ok (TrIcmp icmp, AppNone))
          (\<lambda>_. Ok (TrNone, AppNone))
      else Ok (TrNone, AppNone))"

text \<open>
  A fragment on a datagram: what it completes, whether it conflicted, and the datagram.
\<close>

definition datagram_fragment ::
  "(bytes \<Rightarrow> bytes) \<Rightarrow> u8 \<Rightarrow> nat \<Rightarrow> bool \<Rightarrow> bytes \<Rightarrow> datagram \<Rightarrow>
     ((transport_layer \<times> app_layer) option \<times> bool \<times> datagram) dres" where
  "datagram_fragment md5 protocol offset more_fragments payload d =
     (if dg_done d then Ok (None, False, d)
      else
        let (conflict, d) = datagram_write offset payload d;
            d = note_total more_fragments (offset + length payload) (d\<lparr>dg_fragments := dg_fragments d + 1\<rparr>) in
        if length (dg_filled d) > MAX_DATAGRAM_RANGES then Ok (None, conflict, datagram_finish d)
        else
          case dg_total_len d of
            None \<Rightarrow> Ok (None, conflict, d)
          | Some len \<Rightarrow>
              if len = 0 \<or> contiguous (dg_filled d) < len then Ok (None, conflict, d)
              else
                and_then (sub_list (dg_buf d) 0 len) (\<lambda>bs.
                and_then (decode_datagram md5 protocol (Slice 0 bs)) (\<lambda>out.
                Ok (Some out, conflict, datagram_finish d))))"

section \<open>The reassembler\<close>

record ip_reassembler =
  ir_datagrams :: "(frag_key, datagram) hashmap"
  ir_stats :: ip_reassembly_stats

definition ir_new :: ip_reassembler where
  "ir_new =
     \<lparr>ir_datagrams = [],
      ir_stats = \<lparr>is_reassembled = 0, is_dropped_datagrams = 0, is_conflicting_overlaps = 0\<rparr>\<rparr>"

definition ir_tracked :: "ip_reassembler \<Rightarrow> nat" where
  "ir_tracked ir = length (ir_datagrams ir)"

definition ir_put :: "frag_key \<Rightarrow> datagram \<Rightarrow> ip_reassembler \<Rightarrow> ip_reassembler" where
  "ir_put k d ir = ir\<lparr>ir_datagrams := AList.update k d (ir_datagrams ir)\<rparr>"

definition count_fragment ::
  "(transport_layer \<times> app_layer) option \<Rightarrow> bool \<Rightarrow> ip_reassembly_stats \<Rightarrow> ip_reassembly_stats" where
  "count_fragment out conflict st =
     st\<lparr>is_conflicting_overlaps := is_conflicting_overlaps st + (if conflict then 1 else 0),
        is_reassembled := is_reassembled st + (if out \<noteq> None then 1 else 0)\<rparr>"

text \<open>The packet handed on for a completed datagram.\<close>

definition synthetic_packet :: "decoded_packet \<Rightarrow> transport_layer \<times> app_layer \<Rightarrow> decoded_packet" where
  "synthetic_packet pkt = (\<lambda>(transport, app).
     \<lparr>pk_meta = pk_meta pkt, pk_link = None, pk_network = pk_network pkt, pk_transport = transport,
      pk_app = app, pk_payload_len = 0, pk_payload_offset = 0, pk_ip_payload = None, pk_warnings = []\<rparr>)"

definition ir_push ::
  "(bytes \<Rightarrow> bytes) \<Rightarrow> decoded_packet \<Rightarrow> bytes \<Rightarrow> ip_reassembler \<Rightarrow>
     (decoded_packet option \<times> ip_reassembler) dres" where
  "ir_push md5 pkt frame ir =
     (case frag_info pkt of
        None \<Rightarrow> Ok (None, ir)
      | Some info \<Rightarrow>
          let payload = fragment_bytes pkt frame; k = fi_key info in
          if fi_offset info \<ge> MAX_DATAGRAM_BYTES then Ok (None, ir)
          else if map_of (ir_datagrams ir) k = None \<and> ir_tracked ir \<ge> MAX_TRACKED_DATAGRAMS
          then Ok (None, ir\<lparr>ir_stats := (ir_stats ir)
            \<lparr>is_dropped_datagrams := is_dropped_datagrams (ir_stats ir) + 1\<rparr>\<rparr>)
          else
            let d = (case map_of (ir_datagrams ir) k of None \<Rightarrow> datagram_new | Some d \<Rightarrow> d) in
            and_then (datagram_fragment md5 (fk_protocol k) (fi_offset info) (fi_more_fragments info) payload d)
              (\<lambda>(out, conflict, d').
            Ok (map_option (synthetic_packet pkt) out,
                (ir_put k d' ir)\<lparr>ir_stats := count_fragment out conflict (ir_stats ir)\<rparr>)))"

fun ir_run ::
  "(bytes \<Rightarrow> bytes) \<Rightarrow> (decoded_packet \<times> bytes) list \<Rightarrow> ip_reassembler \<Rightarrow>
     (decoded_packet list \<times> ip_reassembler) dres" where
  "ir_run md5 [] ir = Ok ([], ir)"
| "ir_run md5 ((pkt, frame) # ps) ir =
     and_then (ir_push md5 pkt frame ir) (\<lambda>(out, ir').
     and_then (ir_run md5 ps ir') (\<lambda>(outs, ir'').
     Ok ((case out of None \<Rightarrow> outs | Some p \<Rightarrow> p # outs), ir'')))"

section \<open>The invariant\<close>

definition datagram_ok :: "datagram \<Rightarrow> bool" where
  "datagram_ok d \<longleftrightarrow>
     rb_ok MAX_DATAGRAM_BYTES (dg_buf d, dg_filled d) \<and> length (dg_filled d) \<le> MAX_DATAGRAM_RANGES \<and>
     (dg_done d \<longrightarrow> dg_buf d = [] \<and> dg_filled d = [])"

definition ip_reassembler_ok :: "ip_reassembler \<Rightarrow> bool" where
  "ip_reassembler_ok ir \<longleftrightarrow>
     hm_valid (ir_datagrams ir) \<and> ir_tracked ir \<le> MAX_TRACKED_DATAGRAMS \<and>
     (\<forall>(k, d) \<in> set (ir_datagrams ir). datagram_ok d)"

lemma datagram_ok_new [simp]: "datagram_ok datagram_new"
  by (simp add: datagram_ok_def datagram_new_def)

lemma datagram_ok_finish [simp]: "datagram_ok (datagram_finish d)"
  by (simp add: datagram_ok_def datagram_finish_def)

lemma note_total_sel [simp]:
  "dg_buf (note_total m n d) = dg_buf d" "dg_filled (note_total m n d) = dg_filled d"
  "dg_done (note_total m n d) = dg_done d"
  by (simp_all add: note_total_def)

lemma safe_decode_datagram: "safe (\<lambda>_. True) (decode_datagram md5 protocol buf)"
  unfolding decode_datagram_def
  by (intro safe_if_step safe_match_res [OF safe_parse_tcp] safe_match_res [OF safe_parse_udp]
      safe_match_res [OF safe_parse_icmp] safe_Ok_step)
    (auto intro!: safe_and_then [OF safe_app_from_payload])

lemma safe_datagram_fragment:
  assumes "datagram_ok d"
  shows "safe (\<lambda>(out, conflict, d'). datagram_ok d') (datagram_fragment md5 protocol offset mf payload d)"
proof (cases "dg_done d")
  case True
  then show ?thesis using assms by (simp add: datagram_fragment_def)
next
  case False
  obtain c buf filled where w: "rb_write MAX_DATAGRAM_BYTES offset payload (dg_buf d, dg_filled d) = (c, buf, filled)"
    using prod.exhaust by metis
  have "rb_ok MAX_DATAGRAM_BYTES (dg_buf d, dg_filled d)" using assms by (simp add: datagram_ok_def)
  note ok = rb_write_refines(3) [OF this w]
  have sub: "sub_list buf 0 len = (Ok (take len buf) :: bytes dres)" if "\<not> contiguous filled < len" for len
    using that rb_ok_contiguous [OF ok] by (simp add: sub_list_def)
  show ?thesis
    unfolding datagram_fragment_def datagram_write_def w
    by (auto simp: False Let_def datagram_ok_def [of "note_total _ _ _"] ok not_less sub
        intro!: safe_case_option safe_and_then [OF safe_decode_datagram])
qed

lemma ip_reassembler_ok_lookup:
  "ip_reassembler_ok ir \<Longrightarrow> map_of (ir_datagrams ir) k = Some d \<Longrightarrow> datagram_ok d"
  by (auto simp: ip_reassembler_ok_def dest!: map_of_SomeD)

lemma ip_reassembler_ok_put:
  "ip_reassembler_ok ir \<Longrightarrow> datagram_ok d \<Longrightarrow>
     \<not> (map_of (ir_datagrams ir) k = None \<and> ir_tracked ir \<ge> MAX_TRACKED_DATAGRAMS) \<Longrightarrow>
     ip_reassembler_ok (ir_put k d ir)"
  by (auto simp: ip_reassembler_ok_def ir_put_def ir_tracked_def length_alist_update
      dest!: alist_update_values)

lemma ip_reassembler_ok_stats [simp]: "ip_reassembler_ok (ir\<lparr>ir_stats := st\<rparr>) = ip_reassembler_ok ir"
  by (simp add: ip_reassembler_ok_def ir_tracked_def)

lemma safe_ir_push:
  assumes "ip_reassembler_ok ir"
  shows "safe (\<lambda>(out, ir'). ip_reassembler_ok ir') (ir_push md5 pkt frame ir)"
proof -
  have "safe (\<lambda>(out, conflict, d'). datagram_ok d')
      (datagram_fragment md5 protocol offset mf payload
        (case map_of (ir_datagrams ir) k of None \<Rightarrow> datagram_new | Some d \<Rightarrow> d))" for protocol offset mf payload k
    using ip_reassembler_ok_lookup [OF assms] by (intro safe_datagram_fragment) (simp split: option.splits)
  note step = safe_and_then [OF this]
  show ?thesis
    unfolding ir_push_def Let_def
    by (intro safe_case_option safe_if_cond safe_Ok_step step)
      (auto simp: assms ip_reassembler_ok_put [OF assms])
qed

lemma safe_ir_run: "ip_reassembler_ok ir \<Longrightarrow> safe (\<lambda>(outs, ir'). ip_reassembler_ok ir') (ir_run md5 ps ir)"
proof (induction ps arbitrary: ir)
  case (Cons p ps)
  then show ?case
    by (cases p) (fastforce intro!: safe_and_then [OF safe_ir_push] safe_and_then [OF Cons.IH])
qed simp

lemma no_err_decode_datagram [no_err_rules]: "no_err (decode_datagram md5 protocol buf)"
  unfolding decode_datagram_def by (intro no_err_rules)

lemma returns_decode_datagram: "returns (\<lambda>_. True) (decode_datagram md5 protocol buf)"
  by (rule returnsI [OF safe_decode_datagram no_err_decode_datagram])

lemma no_err_ir_push [no_err_rules]: "no_err (ir_push md5 pkt frame ir)"
  unfolding ir_push_def datagram_fragment_def by (intro no_err_rules)

lemma no_err_ir_run: "no_err (ir_run md5 ps ir)"
proof (induction ps arbitrary: ir)
  case (Cons p ps)
  show ?case by (cases p) (simp only: ir_run.simps, intro no_err_rules Cons.IH)
qed simp

text \<open>
  Bounded fragments: feeding any packets whatever to the IP reassembler never fails, and it ends with
  at most 1024 datagrams, each with at most 65,535 bytes in at most 16 disjoint ranges inside its
  buffer, and nothing in a finished one.
\<close>

lemma ip_reassembler_bounded: "returns (\<lambda>(outs, ir). ip_reassembler_ok ir) (ir_run md5 ps ir_new)"
  by (rule returnsI [OF safe_ir_run no_err_ir_run])
    (simp add: ir_new_def ip_reassembler_ok_def ir_tracked_def)

section \<open>A split datagram is classified like an unsplit one\<close>

lemma and_then_Ok [simp]: "and_then m Ok = m"
  by (cases m) auto

text \<open>
  Decoding a reassembled datagram classifies it as the packet decoder classifies the same bytes in
  one unfragmented packet: same transport layer, same application layer, for every protocol and
  every malformed header.
\<close>

lemma decode_datagram_as_packet:
  "decode_datagram md5 protocol l4 =
     and_then (decode_transport md5 (empty_packet meta) protocol l4 frame True)
       (\<lambda>p. Ok (pk_transport p, pk_app p))"
  unfolding decode_datagram_def decode_transport_def decode_app_def Let_def
  by (cases "parse_tcp l4"; cases "parse_udp l4"; cases "parse_icmp l4 (protocol = ICMPV6)")
    (auto simp: empty_packet_def warn_def push_warning_def and_then_assoc case_prod_beta)

section \<open>What is rebuilt is the datagram that was sent\<close>

text \<open>A fragment of a datagram whose bytes are \<open>src\<close> up to \<open>sz\<close>.\<close>

fun fragment_of :: "(nat \<Rightarrow> u8) \<Rightarrow> nat \<Rightarrow> nat \<times> bool \<times> bytes \<Rightarrow> bool" where
  "fragment_of src sz (offset, mf, payload) \<longleftrightarrow>
     from_source src offset payload \<and> offset + length payload \<le> sz \<and>
     (mf \<or> offset + length payload = sz)"

fun fragment_covers :: "nat \<Rightarrow> nat \<times> bool \<times> bytes \<Rightarrow> bool" where
  "fragment_covers i (offset, mf, payload) \<longleftrightarrow> offset \<le> i \<and> i < offset + length payload"

definition is_last :: "nat \<times> bool \<times> bytes \<Rightarrow> bool" where
  "is_last f \<longleftrightarrow> \<not> fst (snd f)"

definition all_there :: "nat \<Rightarrow> (nat \<times> bool \<times> bytes) list \<Rightarrow> bool" where
  "all_there sz frags \<longleftrightarrow>
     list_ex is_last frags \<and> list_all (\<lambda>i. list_ex (fragment_covers i) frags) [0 ..< sz]"

text \<open>A datagram in progress after the fragments \<open>seen\<close>.\<close>

definition dg_after :: "(nat \<Rightarrow> u8) \<Rightarrow> nat \<Rightarrow> (nat \<times> bool \<times> bytes) list \<Rightarrow> datagram \<Rightarrow> bool" where
  "dg_after src sz seen d \<longleftrightarrow>
     rb_ok MAX_DATAGRAM_BYTES (dg_buf d, dg_filled d) \<and> view_of src (dg_buf d, dg_filled d) \<and>
     length (dg_filled d) \<le> length seen \<and> \<not> dg_done d \<and>
     (\<forall>i. is_filled (dg_filled d) i \<longleftrightarrow> list_ex (fragment_covers i) seen) \<and>
     dg_total_len d = (if list_ex is_last seen then Some sz else None)"

lemma dg_after_Nil: "dg_after src sz [] datagram_new"
  by (simp add: dg_after_def datagram_new_def)

lemma seg_map_covers:
  "fragment_of src sz (offset, mf, payload) \<Longrightarrow> sz \<le> cap \<Longrightarrow>
     seg_map cap offset payload i \<noteq> None \<longleftrightarrow> fragment_covers i (offset, mf, payload)"
  by (auto simp: seg_map_def)

lemma rb_view_filled: "rb_view st i \<noteq> None \<longleftrightarrow> is_filled (snd st) i"
  by (simp add: rb_view_def)

lemma datagram_write_after:
  assumes d: "dg_after src sz seen d" and f: "fragment_of src sz (offset, mf, payload)"
    and sz: "sz \<le> MAX_DATAGRAM_BYTES"
    and w: "datagram_write offset payload d = (conflict, d')"
  shows "\<not> conflict"
    and "dg_after src sz (seen @ [(offset, mf, payload)])
      (note_total mf (offset + length payload) (d'\<lparr>dg_fragments := n\<rparr>))"
proof -
  obtain buf filled where rw: "rb_write MAX_DATAGRAM_BYTES offset payload (dg_buf d, dg_filled d) = (conflict, buf, filled)"
    and d': "d' = d\<lparr>dg_buf := buf, dg_filled := filled\<rparr>"
    using w by (auto simp: datagram_write_def split: prod.splits)
  have ok: "rb_ok MAX_DATAGRAM_BYTES (dg_buf d, dg_filled d)" "view_of src (dg_buf d, dg_filled d)"
    using d by (simp_all add: dg_after_def)
  have src: "from_source src offset payload" using f by simp
  note r = rb_write_refines [OF ok(1) rw] rb_write_source [OF ok src rw]
  have "is_filled filled i \<longleftrightarrow> fragment_covers i (offset, mf, payload) \<or> is_filled (dg_filled d) i" for i
    using seg_map_covers [OF f sz, of i] rb_view_filled [of "(buf, filled)" i]
      rb_view_filled [of "(dg_buf d, dg_filled d)" i]
    unfolding r(1) by (auto simp: map_add_def split: option.splits)
  then show "dg_after src sz (seen @ [(offset, mf, payload)])
      (note_total mf (offset + length payload) (d'\<lparr>dg_fragments := n\<rparr>))"
    using d f r(3,4,6) by (auto simp: dg_after_def d' note_total_def is_last_def)
  show "\<not> conflict" by (rule r(5))
qed

lemma dg_after_complete:
  assumes d: "dg_after src sz seen d"
  shows "sz \<le> contiguous (dg_filled d) \<longleftrightarrow> (\<forall>i < sz. list_ex (fragment_covers i) seen)"
proof -
  have f: "\<And>i. is_filled (dg_filled d) i \<longleftrightarrow> list_ex (fragment_covers i) seen"
    and ok: "ranges_ok (dg_filled d)"
    using d by (simp_all add: dg_after_def rb_ok_def)
  show ?thesis
    using contiguous_ge [OF ok, of sz] contiguous_filled [of _ "dg_filled d"] f by (meson less_le_trans)
qed

lemma all_there_iff:
  "all_there sz frags \<longleftrightarrow> list_ex is_last frags \<and> (\<forall>i < sz. list_ex (fragment_covers i) frags)"
  by (auto simp: all_there_def list_all_iff)

text \<open>One fragment: the datagram either goes on or is complete and decoded.\<close>

lemma datagram_fragment_after:
  assumes d: "dg_after src sz seen d" and f: "fragment_of src sz (offset, mf, payload)"
    and sz: "0 < sz" "sz \<le> MAX_DATAGRAM_BYTES" and few: "length seen < MAX_DATAGRAM_RANGES"
    and all: "all_there sz (seen @ [(offset, mf, payload)]) = whole"
  shows "returns (\<lambda>(out, conflict, d').
      \<not> conflict \<and>
      (if whole
       then dg_done d' \<and> map_option Ok out = Some (decode_datagram md5 protocol (Slice 0 (map src [0 ..< sz])))
       else out = None \<and> dg_after src sz (seen @ [(offset, mf, payload)]) d'))
    (datagram_fragment md5 protocol offset mf payload d)"
proof -
  obtain c w where w: "datagram_write offset payload d = (c, w)" using prod.exhaust by blast
  note r = datagram_write_after [OF d f sz(2) w]
  let ?d = "note_total mf (offset + length payload) (w\<lparr>dg_fragments := dg_fragments w + 1\<rparr>)"
  have after: "dg_after src sz (seen @ [(offset, mf, payload)]) ?d" by (rule r(2))
  have len: "\<not> length (dg_filled ?d) > MAX_DATAGRAM_RANGES"
    using after few by (simp add: dg_after_def)
  have live: "\<not> dg_done d" using d by (simp add: dg_after_def)
  have unfold: "datagram_fragment md5 protocol offset mf payload d =
      (case dg_total_len ?d of
        None \<Rightarrow> Ok (None, c, ?d)
      | Some len \<Rightarrow>
          if len = 0 \<or> contiguous (dg_filled ?d) < len then Ok (None, c, ?d)
          else
            and_then (sub_list (dg_buf ?d) 0 len) (\<lambda>bs.
            and_then (decode_datagram md5 protocol (Slice 0 bs)) (\<lambda>out.
            Ok (Some out, c, datagram_finish ?d))))"
    unfolding datagram_fragment_def w Let_def case_prod_conv by (simp only: live len if_False)
  have tot: "dg_total_len ?d = (if list_ex is_last (seen @ [(offset, mf, payload)]) then Some sz else None)"
    using after by (simp add: dg_after_def)
  show ?thesis
  proof (cases whole)
    case True
    then have "all_there sz (seen @ [(offset, mf, payload)])" using all by simp
    then have "list_ex is_last (seen @ [(offset, mf, payload)])" and le: "sz \<le> contiguous (dg_filled ?d)"
      using dg_after_complete [OF after] unfolding all_there_iff by blast+
    then have total: "dg_total_len ?d = Some sz" by (simp only: tot if_True)
    have ok: "rb_ok MAX_DATAGRAM_BYTES (dg_buf ?d, dg_filled ?d)" "view_of src (dg_buf ?d, dg_filled ?d)"
      using after by (simp_all only: dg_after_def)
    have "take sz (dg_buf ?d) = map src [0 ..< sz]"
      using contiguous_source [OF ok, of sz] le by simp
    moreover have "sz \<le> length (dg_buf ?d)" using rb_ok_contiguous [OF ok(1)] le by (rule order_trans [rotated])
    ultimately have sub: "sub_list (dg_buf ?d) 0 sz = (Ok (map src [0 ..< sz]) :: bytes dres)"
      by (simp add: sub_list_def)
    have fin: "\<And>x. dg_done (datagram_finish x)" by (simp add: datagram_finish_def)
    show ?thesis
      using returns_decode_datagram [of md5 protocol "Slice 0 (map src [0 ..< sz])"] le sz(1) True
      unfolding unfold total option.case
      by (cases "decode_datagram md5 protocol (Slice 0 (map src [0 ..< sz]))")
        (auto simp: sub [simplified] fin r(1) not_less [symmetric])
  next
    case False
    then have "dg_total_len ?d = None \<or> dg_total_len ?d = Some sz \<and> contiguous (dg_filled ?d) < sz"
      using all dg_after_complete [OF after] unfolding tot all_there_iff by (auto simp: not_le)
    then show ?thesis
      using False r(1) after unfolding unfold by auto
  qed
qed

text \<open>Fragments of one datagram, in the order of arrival.\<close>

fun datagram_feed ::
  "(bytes \<Rightarrow> bytes) \<Rightarrow> u8 \<Rightarrow> (nat \<times> bool \<times> bytes) list \<Rightarrow> datagram \<Rightarrow>
     ((transport_layer \<times> app_layer) list \<times> nat \<times> datagram) dres" where
  "datagram_feed md5 protocol [] d = Ok ([], 0, d)"
| "datagram_feed md5 protocol ((offset, mf, payload) # frags) d =
     and_then (datagram_fragment md5 protocol offset mf payload d) (\<lambda>(out, conflict, d').
     and_then (datagram_feed md5 protocol frags d') (\<lambda>(outs, n, d'').
     Ok ((case out of None \<Rightarrow> outs | Some x \<Rightarrow> x # outs), (if conflict then Suc n else n), d'')))"

lemma datagram_feed_done: "dg_done d \<Longrightarrow> datagram_feed md5 protocol frags d = Ok ([], 0, d)"
  by (induction frags) (auto simp: datagram_fragment_def)

lemma all_there_append: "all_there sz fs \<Longrightarrow> all_there sz (fs @ gs)"
  by (auto simp: all_there_iff)

lemma datagram_feed_after:
  assumes "dg_after src sz seen d" and "list_all (fragment_of src sz) frags"
    and "0 < sz" and "sz \<le> MAX_DATAGRAM_BYTES" and "length seen + length frags \<le> MAX_DATAGRAM_RANGES"
    and "\<not> all_there sz seen"
  shows "returns (\<lambda>(outs, n, d'). n = 0 \<and>
      map Ok outs = (if all_there sz (seen @ frags)
        then [decode_datagram md5 protocol (Slice 0 (map src [0 ..< sz]))] else []))
    (datagram_feed md5 protocol frags d)"
  using assms(1,2,5,6)
proof (induction frags arbitrary: seen d)
  case (Cons f frags)
  obtain offset mf payload where f: "f = (offset, mf, payload)" by (cases f) auto
  have frag: "fragment_of src sz (offset, mf, payload)" and few: "length seen < MAX_DATAGRAM_RANGES"
    using Cons.prems by (simp_all add: f)
  let ?seen = "seen @ [(offset, mf, payload)]"
  let ?out = "[decode_datagram md5 protocol (Slice 0 (map src [0 ..< sz]))]"
  have later: "returns (\<lambda>(outs, n, d'). n = 0 \<and>
        map Ok outs = (if all_there sz (seen @ (offset, mf, payload) # frags) then ?out else []))
      (and_then (datagram_feed md5 protocol frags d')
        (\<lambda>(outs, n, d''). Ok ((case out of None \<Rightarrow> outs | Some x \<Rightarrow> x # outs), (if conflict then Suc n else n), d'')))"
    if c: "\<not> conflict" and h: "if all_there sz ?seen
       then dg_done d' \<and> map_option Ok out = Some (decode_datagram md5 protocol (Slice 0 (map src [0 ..< sz])))
       else out = None \<and> dg_after src sz ?seen d'" for out conflict d'
  proof (cases "all_there sz ?seen")
    case True
    then have "all_there sz (seen @ (offset, mf, payload) # frags)"
      using all_there_append [of sz ?seen frags] by simp
    then show ?thesis using c h True by (auto simp: datagram_feed_done)
  next
    case False
    then have "out = None" "dg_after src sz ?seen d'" using h by simp_all
    moreover have "list_all (fragment_of src sz) frags" "length ?seen + length frags \<le> MAX_DATAGRAM_RANGES"
      using Cons.prems by (simp_all add: f)
    ultimately show ?thesis
      using Cons.IH [OF _ _ _ False] c by simp
  qed
  show ?case
    unfolding f datagram_feed.simps
    by (rule returns_and_then [OF datagram_fragment_after [OF Cons.prems(1) frag assms(3,4) few refl]])
      (simp only: split_paired_all case_prod_conv, elim conjE, rule later, simp, assumption)
qed simp



section \<open>Where the documentation promises more\<close>

definition all_done :: "ip_reassembler \<Rightarrow> bool" where
  "all_done ir \<longleftrightarrow> list_all (\<lambda>(k, d). dg_done d) (ir_datagrams ir)"

lemma all_done_lookup: "all_done ir \<Longrightarrow> map_of (ir_datagrams ir) k = Some d \<Longrightarrow> dg_done d"
  by (auto simp: all_done_def list_all_iff dest!: map_of_SomeD)

lemma all_done_put: "all_done ir \<Longrightarrow> dg_done d \<Longrightarrow> all_done (ir_put k d ir)"
  by (auto simp: all_done_def list_all_iff ir_put_def dest!: alist_update_values)

lemma full_push:
  assumes "all_done ir" and "MAX_TRACKED_DATAGRAMS \<le> ir_tracked ir"
  shows "returns (\<lambda>(out, ir'). out = None \<and> all_done ir' \<and> ir_tracked ir' = ir_tracked ir)
    (ir_push md5 pkt frame ir)"
proof (cases "frag_info pkt")
  case (Some info)
  show ?thesis
  proof (cases "map_of (ir_datagrams ir) (fi_key info)")
    case None
    then show ?thesis using assms Some by (simp add: ir_push_def Let_def all_done_def ir_tracked_def)
  next
    case (Some d)
    then have "dg_done d" "ir_tracked (ir_put (fi_key info) d ir) = ir_tracked ir"
      using all_done_lookup [OF assms(1)] by (simp_all add: ir_tracked_def ir_put_def length_alist_update)
    then show ?thesis
      using assms Some \<open>frag_info pkt = Some info\<close> all_done_put [OF assms(1), of d "fi_key info"]
      by (simp add: ir_push_def Let_def datagram_fragment_def) (simp add: all_done_def ir_tracked_def)
  qed
qed (use assms in \<open>simp add: ir_push_def\<close>)

text \<open>
  C40. Finished datagrams count against the limit on datagrams in flight: entries are never removed, so once
  1024 datagrams have been completed or given up, nothing is reassembled any more, whatever fragments
  follow.
\<close>

theorem full_table_is_deaf:
  assumes "all_done ir" and "MAX_TRACKED_DATAGRAMS \<le> ir_tracked ir"
  shows "returns (\<lambda>(outs, ir'). outs = [] \<and> ir_tracked ir' = ir_tracked ir) (ir_run md5 ps ir)"
  using assms
proof (induction ps arbitrary: ir)
  case (Cons p ps)
  obtain pkt frame where p: "p = (pkt, frame)" by force
  show ?case
    unfolding p ir_run.simps
    by (rule returns_and_then [OF full_push [OF Cons.prems]])
      (use Cons in \<open>auto intro!: returns_and_then [OF Cons.IH]\<close>)
qed simp

definition deaf_table :: ip_reassembler where
  "deaf_table = ir_new\<lparr>ir_datagrams := map (\<lambda>i.
     (\<lparr>fk_src = V4 [10, 0, 0, 1], fk_dst = V4 [10, 0, 0, 2], fk_protocol = UDP, fk_id = word_of_nat i\<rparr>,
      datagram_finish datagram_new)) [0 ..< 1024]\<rparr>"

theorem full_table_is_deaf_witness:
  "returns (\<lambda>(outs, ir'). outs = [] \<and> ir_tracked ir' = ir_tracked deaf_table)
     (ir_run (\<lambda>_. []) [(empty_packet \<lparr>pm_index = 1, pm_timestamp = ts_zero, pm_captured_len = 0, pm_wire_len = 0\<rparr>, [])]
       deaf_table)"
  by (rule full_table_is_deaf)
    (simp_all add: deaf_table_def all_done_def list_all_iff ir_tracked_def MAX_TRACKED_DATAGRAMS_def
      datagram_finish_def)

end
