(* ===== verification/Beacon.thy ===== *)
theory Beacon
  imports Flow
begin

text \<open>
  \<open>analysis/beacon.rs\<close>: how regular a series of packet times is.  The score rests on the median of
  the gaps and on the median distance from it; \<open>f64\<close> is modelled by exact rationals.  The lemmas
  show that the score is bounded, that a period kept by more than half of the gaps is found exactly
  whatever the other gaps are, and that it depends neither on the epoch nor on the unit of time.
\<close>

section \<open>The score\<close>

record beacon_score =
  bc_flow :: string
  bc_destination :: string
  bc_sni :: "string option"
  bc_interval :: rat
  bc_jitter :: rat
  bc_confidence :: rat
  bc_samples :: nat
  bc_total_seconds :: rat
  bc_samples_truncated :: bool

definition median_sorted :: "rat list \<Rightarrow> rat" where
  "median_sorted xs =
     (let n = length xs in
      if n = 0 then 0
      else if n mod 2 = 1 then xs ! (n div 2)
      else (xs ! (n div 2 - 1) + xs ! (n div 2)) / 2)"

text \<open>\<open>f64::clamp\<close>\<close>

definition clamp :: "rat \<Rightarrow> rat \<Rightarrow> rat \<Rightarrow> rat" where
  "clamp lo hi x = (if x < lo then lo else if hi < x then hi else x)"

text \<open>\<open>windows(2)\<close>, the positive differences.\<close>

definition gaps :: "rat list \<Rightarrow> rat list" where
  "gaps ts = filter (\<lambda>d. 0 < d) (map (\<lambda>(a, b). b - a) (zip ts (tl ts)))"

definition score_intervals :: "rat list \<Rightarrow> beacon_score option" where
  "score_intervals ts =
     (if length ts < 5 then None
      else
        let deltas = gaps ts in
        if length deltas < 4 then None
        else
          let total_seconds = ts ! (length ts - 1) - ts ! 0;
              deltas = sort_by (\<le>) deltas;
              interval = median_sorted deltas in
          if interval \<le> 0 then None
          else
            let abs_dev = sort_by (\<le>) (map (\<lambda>d. \<bar>d - interval\<bar>) deltas);
                mad = median_sorted abs_dev;
                jitter = min (mad / interval) 1;
                evidence = clamp 0 1 ((of_nat (length deltas) - 4) / 26);
                regularity = 1 - jitter;
                confidence = clamp 0 1 (regularity * (3 / 5 + 2 / 5 * evidence)) in
            Some \<lparr>bc_flow = '''', bc_destination = '''', bc_sni = None, bc_interval = interval,
                  bc_jitter = jitter, bc_confidence = confidence, bc_samples = length deltas,
                  bc_total_seconds = total_seconds, bc_samples_truncated = False\<rparr>)"

section \<open>Medians\<close>

interpretation ascending: total_preorder "(\<le>) :: rat \<Rightarrow> rat \<Rightarrow> bool"
  by unfold_locales auto

lemma sort_by_sort: "sort_by (\<le>) (xs :: rat list) = sort xs"
  using ascending.sorted_sort_by [of xs] by (metis mset_sort_by properties_for_sort)

lemma count_below:
  assumes "sorted xs" and "i < length xs" and "xs ! i < (p :: rat)"
  shows "count_list xs p \<le> length xs - Suc i"
proof -
  have "\<forall>x \<in> set (take (Suc i) xs). x \<le> xs ! i"
    using assms by (auto simp: in_set_conv_nth intro!: sorted_nth_mono [OF assms(1)])
  then have "p \<notin> set (take (Suc i) xs)" using assms(3) by force
  then have "count_list (take (Suc i) xs @ drop (Suc i) xs) p = count_list (drop (Suc i) xs) p"
    by (simp del: append_take_drop_id)
  then show ?thesis using count_le_length [of "drop (Suc i) xs" p] by simp
qed

lemma count_above:
  assumes "sorted xs" and "i < length xs" and "(p :: rat) < xs ! i"
  shows "count_list xs p \<le> i"
proof -
  have "\<forall>x \<in> set (drop i xs). xs ! i \<le> x"
    using assms by (auto simp: in_set_conv_nth intro!: sorted_nth_mono [OF assms(1)])
  then have "p \<notin> set (drop i xs)" using assms(3) by force
  then have "count_list (take i xs @ drop i xs) p = count_list (take i xs) p"
    by (simp del: append_take_drop_id)
  then show ?thesis using count_le_length [of "take i xs" p] assms(2) by simp
qed

text \<open>A value that makes up more than half of a sorted list is its median.\<close>

lemma median_majority:
  assumes "sorted xs" and "length xs < 2 * count_list xs p"
  shows "median_sorted xs = p"
proof -
  have n: "0 < length xs" using assms(2) by (cases xs) auto
  have mid: "xs ! i = p" if "i < length xs" "length xs \<le> 2 * Suc i" "2 * i \<le> length xs" for i
    using count_below [of xs i p] count_above [of xs i p] assms that by (cases "xs ! i" p rule: linorder_cases) auto
  show ?thesis
  proof (cases "length xs mod 2 = 1")
    case True
    then show ?thesis using n mid [of "length xs div 2"] by (simp add: median_sorted_def Let_def)
  next
    case False
    then have "even (length xs)" by presburger
    then obtain m where m: "length xs = 2 * m" by (elim evenE)
    then obtain k where k: "length xs = 2 * Suc k" using n by (cases m) auto
    then have "xs ! k = p" "xs ! Suc k = p" by (intro mid; simp)+
    then show ?thesis using k by (simp add: median_sorted_def Let_def)
  qed
qed

lemma median_nonneg: "\<forall>x \<in> set xs. 0 \<le> x \<Longrightarrow> 0 \<le> median_sorted xs"
proof (cases "xs = []")
  case False
  assume "\<forall>x \<in> set xs. 0 \<le> x"
  then have "0 \<le> xs ! i" if "i < length xs" for i using that by simp
  then have "0 \<le> xs ! (length xs div 2 - 1)" "0 \<le> xs ! (length xs div 2)"
    using False by (auto simp: less_imp_diff_less)
  then show ?thesis by (simp add: median_sorted_def Let_def)
qed (simp add: median_sorted_def)

lemma gaps_pos: "d \<in> set (gaps ts) \<Longrightarrow> 0 < d"
  by (simp add: gaps_def)

text \<open>Unfolded once, over the library's sort.\<close>

lemma score_intervals_Some:
  "score_intervals ts = Some s \<longleftrightarrow>
     (let ds = sort (gaps ts); p = median_sorted ds;
          j = min (median_sorted (sort (map (\<lambda>d. \<bar>d - p\<bar>) ds)) / p) 1 in
      5 \<le> length ts \<and> 4 \<le> length (gaps ts) \<and> 0 < p \<and>
      s = \<lparr>bc_flow = '''', bc_destination = '''', bc_sni = None, bc_interval = p, bc_jitter = j,
           bc_confidence = clamp 0 1 ((1 - j) * (3 / 5 + 2 / 5 * clamp 0 1 ((of_nat (length ds) - 4) / 26))),
           bc_samples = length ds, bc_total_seconds = ts ! (length ts - 1) - ts ! 0,
           bc_samples_truncated = False\<rparr>)"
  by (auto simp: score_intervals_def sort_by_sort Let_def)

lemma clamp_bounds: "lo \<le> hi \<Longrightarrow> lo \<le> clamp lo hi x \<and> clamp lo hi x \<le> hi"
  by (auto simp: clamp_def)

text \<open>
  A score is only given for at least four gaps, its interval is positive, and jitter and
  confidence are between 0 and 1.
\<close>

lemma beacon_score_bounds:
  "pred_option (\<lambda>s. 4 \<le> bc_samples s \<and> bc_samples s < length ts \<and> 0 < bc_interval s \<and>
     0 \<le> bc_jitter s \<and> bc_jitter s \<le> 1 \<and> 0 \<le> bc_confidence s \<and> bc_confidence s \<le> 1 - bc_jitter s)
   (score_intervals ts)"
proof (cases "score_intervals ts")
  case (Some s)
  let ?ds = "sort (gaps ts)" and ?e = "clamp 0 1 ((of_nat (length (sort (gaps ts))) - 4) / 26)"
  let ?p = "median_sorted ?ds"
  let ?m = "median_sorted (sort (map (\<lambda>d. \<bar>d - ?p\<bar>) ?ds))"
  note s = Some [unfolded score_intervals_Some Let_def]
  have "length (gaps ts) \<le> length (zip ts (tl ts))"
    by (simp add: gaps_def order_trans [OF length_filter_le])
  moreover have "0 \<le> ?m" by (rule median_nonneg) auto
  ultimately have j: "0 \<le> bc_jitter s" "bc_jitter s \<le> 1" and n: "bc_samples s < length ts"
    using s by auto
  have e: "0 \<le> ?e" "?e \<le> 1" using clamp_bounds [of 0 1] by auto
  have "(1 - bc_jitter s) * (3 / 5 + 2 / 5 * ?e) \<le> (1 - bc_jitter s) * 1"
    by (rule mult_left_mono) (use j e in auto)
  moreover have "0 \<le> (1 - bc_jitter s) * (3 / 5 + 2 / 5 * ?e)" using j e by simp
  ultimately have "0 \<le> bc_confidence s \<and> bc_confidence s \<le> 1 - bc_jitter s"
    using s by (auto simp: clamp_def)
  then show ?thesis using s j n Some by auto
qed simp

section \<open>What the score finds\<close>

lemma count_sort [simp]: "count_list (sort xs) p = count_list xs p"
  by (metis count_mset mset_sort)

lemma count_deviation: "count_list (map (\<lambda>d. \<bar>d - p\<bar>) ds) (0 :: rat) = count_list ds p"
  by (induction ds) auto

text \<open>
  C24. A period that more than half of the gaps keep exactly is the interval found, with no jitter,
  whatever the other gaps are (lost check-ins, retries, bursts); the confidence then only depends on
  the number of gaps and is at least 0.6.
\<close>

theorem majority_period_found:
  assumes "4 \<le> length (gaps ts)" and "length (gaps ts) < 2 * count_list (gaps ts) p"
  shows "\<exists>s. score_intervals ts = Some s \<and> bc_interval s = p \<and> bc_jitter s = 0 \<and>
    bc_confidence s = 3 / 5 + 2 / 5 * clamp 0 1 ((of_nat (length (gaps ts)) - 4) / 26)"
proof -
  let ?ds = "sort (gaps ts)" and ?e = "clamp 0 1 ((of_nat (length (gaps ts)) - 4) / 26)"
  have p: "median_sorted ?ds = p" using assms by (intro median_majority) auto
  have mad: "median_sorted (sort (map (\<lambda>d. \<bar>d - p\<bar>) ?ds)) = 0"
    using assms by (intro median_majority) (auto simp: count_deviation)
  have "p \<in> set (gaps ts)" using assms(2) by (metis count_notin less_nat_zero_code mult_0_right)
  then have pos: "0 < p" by (rule gaps_pos)
  have "length (gaps ts) \<le> length (zip ts (tl ts))"
    by (simp add: gaps_def order_trans [OF length_filter_le])
  then have len: "5 \<le> length ts" using assms(1) by auto
  have e: "0 \<le> ?e" "?e \<le> 1" using clamp_bounds [of 0 1] by auto
  then have "clamp 0 1 (3 / 5 + 2 / 5 * ?e) = 3 / 5 + 2 / 5 * ?e" by (auto simp: clamp_def [of 0 1 "_ + _"])
  then show ?thesis
    using assms(1) len p mad pos by (auto simp: score_intervals_Some Let_def)
qed

text \<open>A check-in every 60 seconds, two of them missed.\<close>

theorem majority_period_found_witness:
  "\<exists>s. score_intervals [0, 60, 120, 180, 360, 420, 480] = Some s \<and> bc_interval s = 60 \<and>
    bc_jitter s = 0 \<and> bc_confidence s = 3 / 5 + 2 / 5 * clamp 0 1 ((of_nat 6 - 4) / 26)"
  using majority_period_found [of "[0, 60, 120, 180, 360, 420, 480]" 60] by (simp add: gaps_def)

lemma gaps_affine:
  assumes "0 < k" shows "gaps (map (\<lambda>t. c + k * t) ts) = map ((*) k) (gaps ts)"
proof -
  have "zip (map f ts) (tl (map f ts)) = map (\<lambda>(a, b). (f a, f b)) (zip ts (tl ts))" for f :: "rat \<Rightarrow> rat"
    by (simp add: zip_map_map map_tl [symmetric])
  moreover have "0 < k * b - k * a \<longleftrightarrow> 0 < b - a" for a b
    using assms by (simp add: right_diff_distrib [symmetric] zero_less_mult_iff)
  ultimately show ?thesis
    by (simp add: gaps_def filter_map o_def case_prod_beta right_diff_distrib)
qed

lemma sort_scale: "0 < (k :: rat) \<Longrightarrow> sort (map ((*) k) xs) = map ((*) k) (sort xs)"
  by (intro properties_for_sort) (auto simp: sorted_wrt_map intro: sorted_wrt_mono_rel [OF _ sorted_sort])

lemma median_scale: "median_sorted (map ((*) k) xs) = k * median_sorted xs"
proof (cases "xs = []")
  case False
  then have "length xs div 2 < length xs" "length xs div 2 - 1 < length xs" by (auto simp: less_imp_diff_less)
  then show ?thesis using False by (simp add: median_sorted_def Let_def field_simps)
qed (simp add: median_sorted_def)

text \<open>
  The score does not depend on the epoch or on the unit of time: shifting and stretching the
  time axis stretches the interval and the span and leaves jitter, confidence and samples as they
  are.
\<close>

lemma score_is_dimensionless:
  assumes "0 < k"
  shows "score_intervals (map (\<lambda>t. c + k * t) ts) =
    map_option (\<lambda>s. s\<lparr>bc_interval := k * bc_interval s, bc_total_seconds := k * bc_total_seconds s\<rparr>)
      (score_intervals ts)"
proof -
  let ?ds = "sort (gaps ts)"
  have dev: "map (\<lambda>d. \<bar>d - k * q\<bar>) (map ((*) k) xs) = map ((*) k) (map (\<lambda>d. \<bar>d - q\<bar>) xs)" for q xs
    using assms by (simp add: right_diff_distrib [symmetric] abs_mult)
  show ?thesis
  proof (cases "ts = []")
    case False
    then show ?thesis
      using assms
      by (simp add: score_intervals_def sort_by_sort gaps_affine sort_scale median_scale dev Let_def
          mult_le_0_iff right_diff_distrib del: map_map)
  qed (simp add: score_intervals_def)
qed

lemma score_is_dimensionless_witness:
  "score_intervals (map (\<lambda>t. 1000 + 3600 * t) [0, 1, 2, 3, 4, 5]) =
    map_option (\<lambda>s. s\<lparr>bc_interval := 3600 * bc_interval s, bc_total_seconds := 3600 * bc_total_seconds s\<rparr>)
      (score_intervals [0, 1, 2, 3, 4, 5])"
  by (rule score_is_dimensionless) simp

end
