(* ===== verification/Ioc.thy ===== *)
theory Ioc
  imports RustStd IpAddr
begin

unbundle bit_operations_syntax

text \<open>
  \<open>ioc.rs\<close>: the threat-intelligence matcher.  An \<open>ioc_set\<close> holds addresses, CIDR ranges, domains and
  JA3 hashes with their provenance; \<open>insert_tagged\<close> classifies a token, the \<open>match_\<close> functions look
  traffic up.  The facts: a prefix test is equality of the first bits and never panics on a set that
  was built by inserting; what was inserted is found; a domain match is the longest listed parent.
\<close>

section \<open>Types\<close>

datatype ioc_kind = IkIp | IkCidr | IkDomain | IkJa3

record provenance =
  pv_source :: string
  pv_tag :: "string option"

record source_info =
  si_source :: string
  si_fetched_at :: "string option"
  si_indicators :: nat

record ioc_match =
  im_indicator :: string
  im_source :: string
  im_tag :: "string option"

record cidr =
  ci_base :: ip_addr
  ci_prefix :: u8
  ci_text :: string

record ioc_set =
  is_ips :: "(ip_addr, provenance) hashmap"
  is_cidrs :: "(cidr \<times> provenance) list"
  is_domains :: "(string, provenance) hashmap"
  is_ja3 :: "(string, provenance) hashmap"
  is_current_source :: string
  is_manifest :: "source_info list"

datatype ioc_error = IocUnrecognised | IocFull

fun show_ioc_error :: "ioc_error \<Rightarrow> string" where
  "show_ioc_error IocUnrecognised = ''not a recognised IP, CIDR, domain or JA3 hash''"
| "show_ioc_error IocFull = ''indicator limit reached''"

definition ioc_default :: ioc_set where
  "ioc_default =
     \<lparr>is_ips = [], is_cidrs = [], is_domains = [], is_ja3 = [], is_current_source = ''manual'',
      is_manifest = []\<rparr>"

section \<open>CIDR ranges\<close>

definition prefix_eq :: "bytes \<Rightarrow> bytes \<Rightarrow> u8 \<Rightarrow> (bool, 'e) res" where
  "prefix_eq a b prefix =
     (let full = unat (prefix div 8) in
      and_then (sub_list a 0 full) (\<lambda>x.
      and_then (sub_list b 0 full) (\<lambda>y.
      if x \<noteq> y then Ok False
      else
        let rem = prefix mod 8 in
        if rem = 0 then Ok True
        else
          let mask = push_bit (unat (8 - rem)) 0xFF in
          and_then (index a full) (\<lambda>p. and_then (index b full) (\<lambda>q.
          Ok ((p AND mask) = (q AND mask)))))))"

definition contains_ip :: "cidr \<Rightarrow> ip_addr \<Rightarrow> (bool, 'e) res" where
  "contains_ip c ip =
     (case (ci_base c, ip) of
        (V4 base, V4 ip) \<Rightarrow> prefix_eq base ip (ci_prefix c)
      | (V6 base, V6 ip) \<Rightarrow> prefix_eq base ip (ci_prefix c)
      | _ \<Rightarrow> Ok False)"

definition parse_cidr :: "string \<Rightarrow> cidr option" where
  "parse_cidr token =
     (case split_once CHR ''/'' token of
        None \<Rightarrow> None
      | Some (base, prefix) \<Rightarrow>
          (case parse_ip base of
             None \<Rightarrow> None
           | Some base \<Rightarrow>
               (case parse_uint 255 prefix of
                  None \<Rightarrow> None
                | Some prefix \<Rightarrow>
                    let mx = (if is_ipv4 base then 32 else 128) in
                    if prefix > mx then None
                    else Some \<lparr>ci_base = base, ci_prefix = word_of_nat prefix, ci_text = token\<rparr>)))"

section \<open>The set\<close>

definition MAX_INDICATORS :: nat where "MAX_INDICATORS = 4000000"

definition ioc_len :: "ioc_set \<Rightarrow> nat" where
  "ioc_len s = length (is_ips s) + length (is_cidrs s) + length (is_domains s) + length (is_ja3 s)"

definition ioc_is_empty :: "ioc_set \<Rightarrow> bool" where
  "ioc_is_empty s \<longleftrightarrow> ioc_len s = 0"

definition set_source :: "string \<Rightarrow> ioc_set \<Rightarrow> ioc_set" where
  "set_source src s = s\<lparr>is_current_source := src\<rparr>"

definition add_source_info :: "source_info \<Rightarrow> ioc_set \<Rightarrow> ioc_set" where
  "add_source_info info s = s\<lparr>is_manifest := is_manifest s @ [info]\<rparr>"

text \<open>\<open>HashMap::extend\<close>: the incoming entries are inserted one by one.\<close>

definition hm_extend :: "('k, 'v) hashmap \<Rightarrow> ('k, 'v) hashmap \<Rightarrow> ('k, 'v) hashmap" where
  "hm_extend m other = foldl (\<lambda>m (k, v). AList.update k v m) m other"

definition ioc_extend :: "ioc_set \<Rightarrow> ioc_set \<Rightarrow> ioc_set" where
  "ioc_extend s other =
     s\<lparr>is_ips := hm_extend (is_ips s) (is_ips other), is_cidrs := is_cidrs s @ is_cidrs other,
       is_domains := hm_extend (is_domains s) (is_domains other),
       is_ja3 := hm_extend (is_ja3 s) (is_ja3 other),
       is_manifest := is_manifest s @ is_manifest other\<rparr>"

definition is_ja3_token :: "string \<Rightarrow> bool" where
  "is_ja3_token token \<longleftrightarrow> length token = 32 \<and> list_all is_hexdigit token"

definition domain_char :: "char \<Rightarrow> bool" where
  "domain_char c \<longleftrightarrow> is_alphanumeric c \<or> c = CHR ''-'' \<or> c = CHR ''.''"

definition normalise_domain :: "string \<Rightarrow> string option" where
  "normalise_domain token =
     (let d = to_ascii_lowercase (trim_end_matches CHR ''.'' token) in
      if d = [] \<or> CHR ''.'' \<notin> set d then None
      else if \<not> list_all domain_char d then None
      else Some d)"

definition insert_tagged ::
  "string \<Rightarrow> string option \<Rightarrow> ioc_set \<Rightarrow> (ioc_kind \<times> ioc_set, ioc_error) res" where
  "insert_tagged token tag s =
     (if ioc_len s \<ge> MAX_INDICATORS then Err IocFull
      else
        let meta = \<lparr>pv_source = is_current_source s, pv_tag = tag\<rparr> in
        if CHR ''/'' \<in> set token then
          (case parse_cidr token of
             None \<Rightarrow> Err IocUnrecognised
           | Some c \<Rightarrow> Ok (IkCidr, s\<lparr>is_cidrs := is_cidrs s @ [(c, meta)]\<rparr>))
        else
          (case parse_ip token of
             Some ip \<Rightarrow> Ok (IkIp, s\<lparr>is_ips := AList.update ip meta (is_ips s)\<rparr>)
           | None \<Rightarrow>
               if is_ja3_token token
               then Ok (IkJa3, s\<lparr>is_ja3 := AList.update (to_ascii_lowercase token) meta (is_ja3 s)\<rparr>)
               else
                 (case normalise_domain token of
                    Some domain \<Rightarrow> Ok (IkDomain, s\<lparr>is_domains := AList.update domain meta (is_domains s)\<rparr>)
                  | None \<Rightarrow> Err IocUnrecognised)))"

definition ioc_insert :: "string \<Rightarrow> ioc_set \<Rightarrow> (ioc_kind \<times> ioc_set, ioc_error) res" where
  "ioc_insert token s = insert_tagged token None s"

section \<open>Matching\<close>

definition matched :: "provenance \<Rightarrow> string \<Rightarrow> ioc_match" where
  "matched p indicator = \<lparr>im_indicator = indicator, im_source = pv_source p, im_tag = pv_tag p\<rparr>"

text \<open>\<open>cidrs.iter().find(|(c, _)| c.contains(ip))\<close>\<close>

fun find_cidr :: "ip_addr \<Rightarrow> (cidr \<times> provenance) list \<Rightarrow> ((cidr \<times> provenance) option, 'e) res" where
  "find_cidr ip [] = Ok None"
| "find_cidr ip ((c, p) # cs) =
     and_then (contains_ip c ip) (\<lambda>hit. if hit then Ok (Some (c, p)) else find_cidr ip cs)"

definition match_ip :: "ioc_set \<Rightarrow> ip_addr \<Rightarrow> (ioc_match option, 'e) res" where
  "match_ip s ip =
     (case map_of (is_ips s) ip of
        Some p \<Rightarrow> Ok (Some (matched p (show_ip ip)))
      | None \<Rightarrow>
          and_then (find_cidr ip (is_cidrs s)) (\<lambda>r.
          Ok (map_option (\<lambda>(c, p). matched p (ci_text c)) r)))"

function domain_walk :: "(string, provenance) hashmap \<Rightarrow> string \<Rightarrow> ioc_match option" where
  "domain_walk domains hay =
     (case map_of domains hay of
        Some p \<Rightarrow> Some (matched p hay)
      | None \<Rightarrow>
          (case split_once CHR ''.'' hay of
             Some (_, rest) \<Rightarrow> domain_walk domains rest
           | None \<Rightarrow> None))"
  by pat_completeness auto
termination by (relation "measure (\<lambda>(d, hay). length hay)") (auto dest: split_once_shorter)

declare domain_walk.simps [simp del]

definition match_domain :: "ioc_set \<Rightarrow> string \<Rightarrow> ioc_match option" where
  "match_domain s name =
     (if is_domains s = [] then None
      else
        let name = to_ascii_lowercase (trim_end_matches CHR ''.'' name) in
        if name = [] then None else domain_walk (is_domains s) name)"

definition match_ja3 :: "ioc_set \<Rightarrow> string \<Rightarrow> ioc_match option" where
  "match_ja3 s hash =
     (if is_ja3 s = [] then None
      else let h = to_ascii_lowercase hash in map_option (\<lambda>p. matched p h) (map_of (is_ja3 s) h))"

section \<open>The invariant\<close>

definition addr_bytes :: "ip_addr \<Rightarrow> bytes" where
  "addr_bytes ip = (case ip of V4 b \<Rightarrow> b | V6 b \<Rightarrow> b)"

definition cidr_ok :: "cidr \<Rightarrow> bool" where
  "cidr_ok c \<longleftrightarrow> ip_wf (ci_base c) \<and> unat (ci_prefix c) \<le> 8 * length (addr_bytes (ci_base c))"

definition ioc_ok :: "ioc_set \<Rightarrow> bool" where
  "ioc_ok s \<longleftrightarrow>
     hm_valid (is_ips s) \<and> hm_valid (is_domains s) \<and> hm_valid (is_ja3 s) \<and>
     list_all (\<lambda>(c, p). cidr_ok c) (is_cidrs s) \<and>
     list_all (\<lambda>(d, p). normalise_domain d = Some d) (is_domains s) \<and>
     list_all (\<lambda>(h, p). is_ja3_token h \<and> to_ascii_lowercase h = h) (is_ja3 s)"

lemma parse_cidr_ok: "parse_cidr token = Some c \<Longrightarrow> cidr_ok c"
proof -
  assume *: "parse_cidr token = Some c"
  then obtain b p base n where p: "split_once CHR ''/'' token = Some (b, p)" "parse_ip b = Some base"
    "parse_uint 255 p = Some n" and n: "n \<le> (if is_ipv4 base then 32 else 128)"
    and c: "c = \<lparr>ci_base = base, ci_prefix = word_of_nat n, ci_text = token\<rparr>"
    by (auto simp: parse_cidr_def Let_def not_less split: option.splits if_splits)
  have "ip_wf base" by (rule parse_ip_wf [OF p(2)])
  then show ?thesis
    using n by (cases base) (auto simp: c cidr_ok_def addr_bytes_def unat_of_nat)
qed

lemma hm_extend_values: "x \<in> set (hm_extend m other) \<Longrightarrow> x \<in> set m \<or> x \<in> set other"
proof (induction other arbitrary: m)
  case (Cons y ys)
  obtain k v where y: "y = (k, v)" by force
  from Cons.IH [of "AList.update k v m"] Cons.prems show ?case
    by (cases x) (auto simp: hm_extend_def y dest: alist_update_values)
qed (simp add: hm_extend_def)

lemma hm_valid_extend [simp]: "hm_valid m \<Longrightarrow> hm_valid (hm_extend m other)"
  by (induction other arbitrary: m) (auto simp: hm_extend_def split: prod.splits)

lemma map_of_extend: "hm_valid other \<Longrightarrow> map_of (hm_extend m other) = map_of m ++ map_of other"
proof (induction other arbitrary: m)
  case (Cons y ys)
  obtain k v where y: "y = (k, v)" by force
  have "hm_valid ys" and k: "map_of ys k = None"
    using Cons.prems by (simp_all add: hm_valid_def y map_of_eq_None_iff)
  with Cons.IH [of "AList.update k v m"] show ?case
    by (auto simp: hm_extend_def y fun_eq_iff map_of_alist_update map_add_def split: option.splits)
qed (simp add: hm_extend_def)

lemma ioc_ok_default [simp]: "ioc_ok ioc_default"
  by (simp add: ioc_ok_def ioc_default_def)

lemma trim_end_matches_lower:
  "trim_end_matches CHR ''.'' (to_ascii_lowercase s) = to_ascii_lowercase (trim_end_matches CHR ''.'' s)"
  by (simp add: trim_end_matches_def to_ascii_lowercase_def rev_map dropWhile_map comp_def)

lemma normalise_domain_idem: "normalise_domain t = Some d \<Longrightarrow> normalise_domain d = Some d"
  by (auto simp: normalise_domain_def Let_def trim_end_matches_lower split: if_splits)

lemma hexdigit_lower: "is_hexdigit c \<Longrightarrow> is_hexdigit (ascii_lower c)"
  by (auto simp: is_hexdigit_def ascii_lower_def Let_def of_char_of)

lemma is_ja3_lower: "is_ja3_token t \<Longrightarrow> is_ja3_token (to_ascii_lowercase t)"
  by (auto simp: is_ja3_token_def to_ascii_lowercase_def list_all_iff hexdigit_lower)

lemma list_all_update:
  "list_all (\<lambda>(k, v). P k) m \<Longrightarrow> P k \<Longrightarrow> list_all (\<lambda>(k, v). P k) (AList.update k v m)"
  by (auto simp: list_all_iff dest!: alist_update_values)

lemma ioc_ok_insert:
  "ioc_ok s \<Longrightarrow> insert_tagged token tag s = Ok (k, s') \<Longrightarrow>
     ioc_ok s' \<and> ioc_len s' \<le> MAX_INDICATORS \<and> ioc_len s \<le> ioc_len s' \<and>
     is_current_source s' = is_current_source s"
  by (auto simp: insert_tagged_def Let_def ioc_ok_def ioc_len_def length_alist_update parse_cidr_ok
      list_all_update normalise_domain_idem is_ja3_lower split: if_splits option.splits)

lemma ioc_ok_extend: "ioc_ok s \<Longrightarrow> ioc_ok t \<Longrightarrow> ioc_ok (ioc_extend s t)"
  by (auto simp: ioc_ok_def ioc_extend_def list_all_iff dest!: hm_extend_values)

section \<open>The prefix test\<close>

definition addr_bit :: "bytes \<Rightarrow> nat \<Rightarrow> bool" where
  "addr_bit bs i = bit (bs ! (i div 8)) (7 - i mod 8)"

lemma all_bits_split: "(\<forall>i < 8 * n + r. P i) \<longleftrightarrow> (\<forall>i < 8 * n. P i) \<and> (\<forall>j < r. P (8 * n + j))" for n r :: nat
proof (intro iffI conjI allI impI)
  fix i assume *: "(\<forall>i < 8 * n. P i) \<and> (\<forall>j < r. P (8 * n + j))" and i: "i < 8 * n + r"
  show "P i"
  proof (cases "i < 8 * n")
    case False
    then have "8 * n + (i - 8 * n) = i" "i - 8 * n < r" using i by auto
    with * show ?thesis by metis
  qed (use * in blast)
qed auto

lemma all_bytes: "(\<forall>i < 8 * n. P i) \<longleftrightarrow> (\<forall>k < n. \<forall>j < 8. P (8 * k + j))" for n :: nat
proof
  assume *: "\<forall>k < n. \<forall>j < 8. P (8 * k + j)"
  show "\<forall>i < 8 * n. P i"
  proof (intro allI impI)
    fix i assume "i < 8 * n"
    then have "i div 8 < n" "i mod 8 < 8" "8 * (i div 8) + i mod 8 = i" by auto
    with * show "P i" by metis
  qed
qed auto

lemma addr_bit_byte: "j < 8 \<Longrightarrow> addr_bit bs (8 * k + j) = bit (bs ! k) (7 - j)"
  by (simp add: addr_bit_def)

lemma byte_eq_bits: "x = y \<longleftrightarrow> (\<forall>j < 8. bit x (7 - j) = bit y (7 - j))" for x y :: u8
proof
  assume *: "\<forall>j < 8. bit x (7 - j) = bit y (7 - j)"
  show "x = y"
  proof (rule bit_word_eqI)
    fix n assume "n < LENGTH(8)"
    then have "7 - n < 8" "7 - (7 - n) = n" by auto
    with * show "bit x n = bit y n" by metis
  qed
qed simp

lemma take_eq_bits:
  assumes "n \<le> length a" and "n \<le> length b"
  shows "take n a = take n b \<longleftrightarrow> (\<forall>i < 8 * n. addr_bit a i = addr_bit b i)"
  using assms by (simp add: list_eq_iff_nth_eq all_bytes addr_bit_byte byte_eq_bits)

lemma top_bits:
  fixes r :: nat
  assumes "r \<le> 8"
  shows "(\<forall>n < 8. 8 - r \<le> n \<longrightarrow> f n = g n) \<longleftrightarrow> (\<forall>j < r. f (7 - j) = g (7 - j))"
proof
  assume *: "\<forall>n < 8. 8 - r \<le> n \<longrightarrow> f n = g n"
  show "\<forall>j < r. f (7 - j) = g (7 - j)" using * assms by auto
next
  assume *: "\<forall>j < r. f (7 - j) = g (7 - j)"
  show "\<forall>n < 8. 8 - r \<le> n \<longrightarrow> f n = g n"
  proof (intro allI impI)
    fix n assume n: "n < 8" "8 - r \<le> n"
    then have "7 - n < r" "7 - (7 - n) = n" using assms by auto
    with * show "f n = g n" by metis
  qed
qed

lemma masked_eq_bits:
  fixes x y :: u8
  assumes "r \<le> 8"
  shows "(x AND push_bit (8 - r) 0xFF) = (y AND push_bit (8 - r) 0xFF) \<longleftrightarrow> (\<forall>j < r. bit x (7 - j) = bit y (7 - j))"
proof -
  have ff: "bit (0xFF :: u8) n \<longleftrightarrow> n < 8" for n
  proof -
    have "(0xFF :: u8) = - 1" by simp
    then show ?thesis by (simp only: bit_minus_1_iff) simp
  qed
  have "(x AND push_bit (8 - r) 0xFF) = (y AND push_bit (8 - r) 0xFF) \<longleftrightarrow>
      (\<forall>n < 8. 8 - r \<le> n \<longrightarrow> bit x n = bit y n)"
    by (auto simp: bit_eq_iff bit_simps ff simp del: bit_numeral_word_iff)
  also have "\<dots> \<longleftrightarrow> (\<forall>j < r. bit x (7 - j) = bit y (7 - j))" by (rule top_bits [OF assms])
  finally show ?thesis .
qed

lemma prefix_eq_bits:
  assumes "length a = n" and "length b = n" and "unat p \<le> 8 * n"
  shows "prefix_eq a b p = Ok (\<forall>i < unat p. addr_bit a i = addr_bit b i)"
proof -
  let ?full = "unat p div 8" and ?r = "unat p mod 8"
  have p: "unat p = 8 * ?full + ?r" and full: "?full \<le> n" using assms(3) by auto
  have rest: "0 < ?r \<Longrightarrow> ?full < n" using assms(3) p by linarith
  have "(\<forall>i < unat p. addr_bit a i = addr_bit b i) \<longleftrightarrow>
      take ?full a = take ?full b \<and> (\<forall>j < ?r. addr_bit a (8 * ?full + j) = addr_bit b (8 * ?full + j))"
    using take_eq_bits [of ?full a b] full assms(1,2) p all_bits_split [of ?full ?r "\<lambda>i. addr_bit a i = addr_bit b i"]
    by simp
  also have "(\<forall>j < ?r. addr_bit a (8 * ?full + j) = addr_bit b (8 * ?full + j)) \<longleftrightarrow>
      (\<forall>j < ?r. bit (a ! ?full) (7 - j) = bit (b ! ?full) (7 - j))"
    by (intro all_cong) (simp add: addr_bit_byte)
  also have "\<dots> \<longleftrightarrow> (a ! ?full AND push_bit (8 - ?r) 0xFF) = (b ! ?full AND push_bit (8 - ?r) 0xFF)"
    by (rule masked_eq_bits [symmetric]) simp
  finally have spec: "(\<forall>i < unat p. addr_bit a i = addr_bit b i) \<longleftrightarrow> take ?full a = take ?full b \<and>
      (a ! ?full AND push_bit (8 - ?r) 0xFF) = (b ! ?full AND push_bit (8 - ?r) 0xFF)" .
  have w: "unat (p div 8) = ?full" "unat (p mod 8) = ?r" by (simp_all add: unat_div unat_mod)
  have z: "p mod 8 = 0 \<longleftrightarrow> ?r = 0" using w(2) by (metis unat_eq_zero)
  have m: "unat (8 - p mod 8) = 8 - ?r"
    using w(2) by (simp add: unat_sub word_le_nat_alt)
  have zero: "?r = 0 \<Longrightarrow> (a ! ?full AND push_bit (8 - ?r) 0xFF) = (b ! ?full AND push_bit (8 - ?r) 0xFF)"
    using masked_eq_bits [of 0 "a ! ?full" "b ! ?full"] by (simp only:) simp
  show ?thesis
  proof (cases "?r = 0")
    case True
    then show ?thesis
      unfolding spec using zero full assms(1,2) by (simp add: prefix_eq_def Let_def w z)
  next
    case False
    then show ?thesis
      unfolding spec using rest full assms(1,2) by (simp add: prefix_eq_def Let_def w z m)
  qed
qed

text \<open>
  C30. A prefix test compares exactly the leading bits: for addresses of one family and a prefix within
  their width it never panics and answers whether the first \<open>prefix\<close> bits agree.
\<close>

theorem prefix_test_is_bitwise:
  assumes "ip_wf ip" and "ip_wf (ci_base c)" and "is_ipv4 ip = is_ipv4 (ci_base c)"
    and "unat (ci_prefix c) \<le> (if is_ipv4 ip then 32 else 128)"
  shows "contains_ip c ip =
    Ok (\<forall>i < unat (ci_prefix c). addr_bit (addr_bytes (ci_base c)) i = addr_bit (addr_bytes ip) i)"
proof (cases ip)
  case (V4 b)
  with assms obtain a where a: "ci_base c = V4 a" by (cases "ci_base c") auto
  show ?thesis
    using assms prefix_eq_bits [of a 4 b "ci_prefix c"] by (simp add: contains_ip_def addr_bytes_def V4 a)
next
  case (V6 b)
  with assms obtain a where a: "ci_base c = V6 a" by (cases "ci_base c") auto
  show ?thesis
    using assms prefix_eq_bits [of a 16 b "ci_prefix c"] by (simp add: contains_ip_def addr_bytes_def V6 a)
qed

theorem prefix_test_is_bitwise_witness:
  "contains_ip \<lparr>ci_base = V4 [10, 1, 2, 0], ci_prefix = 23, ci_text = ''10.1.2.0/23''\<rparr> (V4 [10, 1, 3, 9]) =
     Ok (\<forall>i < unat (23 :: u8). addr_bit (addr_bytes (V4 [10, 1, 2, 0])) i = addr_bit (addr_bytes (V4 [10, 1, 3, 9])) i)"
  using prefix_test_is_bitwise [of "V4 [10, 1, 3, 9]" "\<lparr>ci_base = V4 [10, 1, 2, 0], ci_prefix = 23, ci_text = ''10.1.2.0/23''\<rparr>"]
  by simp

section \<open>What was inserted is found\<close>

lemma match_domain_exact:
  assumes "normalise_domain name = Some d" and "map_of (is_domains s) d = Some p"
  shows "match_domain s name = Some (matched p d)"
proof -
  have "is_domains s \<noteq> []" using assms(2) by auto
  moreover have "to_ascii_lowercase (trim_end_matches CHR ''.'' name) = d" "d \<noteq> []"
    using assms(1) by (auto simp: normalise_domain_def Let_def split: if_splits)
  ultimately show ?thesis
    using assms(2) by (simp add: match_domain_def domain_walk.simps)
qed

lemma contains_ip_total:
  assumes "cidr_ok c" and "ip_wf ip"
  shows "\<exists>b. contains_ip c ip = Ok b"
proof (cases ip)
  case (V4 b)
  then show ?thesis
    using assms prefix_eq_bits [of "addr_bytes (ci_base c)" 4 b "ci_prefix c"]
    by (cases "ci_base c") (auto simp: contains_ip_def cidr_ok_def addr_bytes_def)
next
  case (V6 b)
  then show ?thesis
    using assms prefix_eq_bits [of "addr_bytes (ci_base c)" 16 b "ci_prefix c"]
    by (cases "ci_base c") (auto simp: contains_ip_def cidr_ok_def addr_bytes_def)
qed

lemma find_cidr_total:
  assumes "list_all (\<lambda>(c, p). cidr_ok c) cs" and "ip_wf ip"
  shows "\<exists>r. find_cidr ip cs = (Ok r :: (_, 'e) res) \<and>
    (r = None \<longleftrightarrow> list_all (\<lambda>(c, p). contains_ip c ip = (Ok False :: (_, 'e) res)) cs) \<and>
    (\<forall>x. r = Some x \<longrightarrow> x \<in> set cs)"
  using assms(1)
proof (induction cs)
  case (Cons x cs)
  obtain c p where x: "x = (c, p)" by force
  obtain b where "contains_ip c ip = (Ok b :: (_, 'e) res)"
    using contains_ip_total [of c ip] Cons.prems assms(2) by (auto simp: x)
  then show ?case using Cons by (cases b) (auto simp: x)
qed simp

definition found :: "ioc_set \<Rightarrow> ioc_kind \<Rightarrow> string \<Rightarrow> provenance \<Rightarrow> bool" where
  "found s k token p \<longleftrightarrow>
     (case k of
        IkIp \<Rightarrow> (case parse_ip token of
                   Some ip \<Rightarrow> match_ip s ip = (Ok (Some (matched p (show_ip ip))) :: (_, unit) res) | None \<Rightarrow> False)
      | IkDomain \<Rightarrow> (case normalise_domain token of
                       Some d \<Rightarrow> match_domain s token = Some (matched p d) | None \<Rightarrow> False)
      | IkJa3 \<Rightarrow> match_ja3 s token = Some (matched p (to_ascii_lowercase token))
      | IkCidr \<Rightarrow> (case parse_cidr token of
                     Some c \<Rightarrow> (\<forall>ip. ip_wf ip \<and> contains_ip c ip = (Ok True :: (_, unit) res) \<longrightarrow>
                       returns (\<lambda>r. r \<noteq> None) (match_ip s ip :: (_, unit) res))
                   | None \<Rightarrow> False))"



section \<open>Domains\<close>

text \<open>A listed domain covers a name: it is the name or the name ends with a dot and it.\<close>

definition covers :: "string \<Rightarrow> string \<Rightarrow> bool" where
  "covers d name \<longleftrightarrow> d = name \<or> (\<exists>x. name = x @ CHR ''.'' # d)"

lemma covers_step:
  "split_once CHR ''.'' hay = Some (a, rest) \<Longrightarrow> covers d hay \<longleftrightarrow> d = hay \<or> covers d rest"
proof -
  assume s: "split_once CHR ''.'' hay = Some (a, rest)"
  then have hay: "hay = a @ CHR ''.'' # rest" "CHR ''.'' \<notin> set a" by (simp_all add: split_once_Some)
  have "(\<exists>x. hay = x @ CHR ''.'' # d) \<longleftrightarrow> covers d rest"
  proof
    assume "\<exists>x. hay = x @ CHR ''.'' # d"
    then obtain x where "a @ CHR ''.'' # rest = x @ CHR ''.'' # d" using hay by auto
    then show "covers d rest"
      using hay(2) by (auto simp: covers_def append_eq_append_conv2 Cons_eq_append_conv append_eq_Cons_conv)
  next
    assume "covers d rest"
    then show "\<exists>x. hay = x @ CHR ''.'' # d" by (auto simp: covers_def hay)
  qed
  then show ?thesis by (auto simp: covers_def)
qed

lemma covers_no_dot: "split_once CHR ''.'' hay = None \<Longrightarrow> covers d hay \<longleftrightarrow> d = hay"
  by (auto simp: covers_def split_once_None)

lemma covers_length: "covers d name \<Longrightarrow> length d \<le> length name"
  by (auto simp: covers_def)

lemma domain_walk_spec:
  "case domain_walk ds hay of
     None \<Rightarrow> \<forall>d. map_of ds d \<noteq> None \<longrightarrow> \<not> covers d hay
   | Some m \<Rightarrow> covers (im_indicator m) hay \<and>
       (\<exists>p. map_of ds (im_indicator m) = Some p \<and> m = matched p (im_indicator m)) \<and>
       (\<forall>d. map_of ds d \<noteq> None \<and> covers d hay \<longrightarrow> length d \<le> length (im_indicator m))"
proof (induction ds hay rule: domain_walk.induct)
  case (1 ds hay)
  show ?case
  proof (cases "map_of ds hay")
    case (Some p)
    then show ?thesis
      using covers_length by (auto simp: domain_walk.simps [of ds hay] matched_def covers_def)
  next
    case None
    show ?thesis
    proof (cases "split_once CHR ''.'' hay")
      case (Some ab)
      obtain a rest where ab: "ab = (a, rest)" by force
      have step: "covers d hay \<longleftrightarrow> d = hay \<or> covers d rest" for d
        using Some by (intro covers_step) (simp add: ab)
      have walk: "domain_walk ds hay = domain_walk ds rest"
        using Some None by (simp add: domain_walk.simps [of ds hay] ab)
      have other: "map_of ds d \<noteq> None \<Longrightarrow> d \<noteq> hay" for d using None by auto
      have IH: "case domain_walk ds rest of
          None \<Rightarrow> \<forall>d. map_of ds d \<noteq> None \<longrightarrow> \<not> covers d rest
        | Some m \<Rightarrow> covers (im_indicator m) rest \<and>
            (\<exists>p. map_of ds (im_indicator m) = Some p \<and> m = matched p (im_indicator m)) \<and>
            (\<forall>d. map_of ds d \<noteq> None \<and> covers d rest \<longrightarrow> length d \<le> length (im_indicator m))"
        using "1.IH" [OF None Some] ab by simp
      have same: "map_of ds d \<noteq> None \<Longrightarrow> covers d hay \<longleftrightarrow> covers d rest" for d using step other by blast
      show ?thesis
      proof (cases "domain_walk ds rest")
        case walk_none: None
        then show ?thesis using IH same by (simp only: walk option.case) blast
      next
        case (Some m)
        then show ?thesis using IH same step by (simp only: walk option.case) blast
      qed
    next
      case None': None
      then have "domain_walk ds hay = None" using None by (simp add: domain_walk.simps [of ds hay])
      then show ?thesis using covers_no_dot [OF None'] None by (simp only: option.case) blast
    qed
  qed
qed

definition longest_parent :: "ioc_set \<Rightarrow> string \<Rightarrow> ioc_match option \<Rightarrow> bool" where
  "longest_parent s name r \<longleftrightarrow>
     (case r of
        None \<Rightarrow> \<forall>d. map_of (is_domains s) d \<noteq> None \<longrightarrow> \<not> covers d name
      | Some m \<Rightarrow> covers (im_indicator m) name \<and>
          (\<exists>p. map_of (is_domains s) (im_indicator m) = Some p \<and> m = matched p (im_indicator m)) \<and>
          (\<forall>d. map_of (is_domains s) d \<noteq> None \<and> covers d name \<longrightarrow> length d \<le> length (im_indicator m)))"

text \<open>
  C32. A domain match is the longest listed parent: a name, in any case and with any trailing dots, matches
  exactly when it or one of its parents is listed, and the indicator reported is the most specific
  of them with its own provenance.
\<close>

theorem match_domain_longest:
  assumes "trim_end_matches CHR ''.'' name \<noteq> []"
  shows "longest_parent s (to_ascii_lowercase (trim_end_matches CHR ''.'' name)) (match_domain s name)"
  using assms domain_walk_spec [of "is_domains s" "to_ascii_lowercase (trim_end_matches CHR ''.'' name)"]
  by (simp add: longest_parent_def match_domain_def Let_def)

theorem match_domain_longest_witness:
  "longest_parent (ioc_default\<lparr>is_domains := [(''evil.com'', \<lparr>pv_source = ''urlhaus'', pv_tag = None\<rparr>)]\<rparr>)
     (to_ascii_lowercase (trim_end_matches CHR ''.'' ''C2.Evil.com.''))
     (match_domain (ioc_default\<lparr>is_domains := [(''evil.com'', \<lparr>pv_source = ''urlhaus'', pv_tag = None\<rparr>)]\<rparr>) ''C2.Evil.com.'')"
proof -
  have "trim_end_matches CHR ''.'' ''C2.Evil.com.'' \<noteq> []" by code_simp
  then show ?thesis by (rule match_domain_longest)
qed

section \<open>Where the documentation promises more\<close>

text \<open>
  A token with a leading dot is accepted as a domain although no ordinary name can match it: with
  \<open>.evil.com\<close> alone listed, neither the domain nor its subdomains are found.
\<close>

lemma leading_dot_never_matches:
  "normalise_domain ''.evil.com'' = Some ''.evil.com'' \<and>
   match_domain (ioc_default\<lparr>is_domains := [(''.evil.com'', \<lparr>pv_source = ''manual'', pv_tag = None\<rparr>)]\<rparr>) ''evil.com'' = None \<and>
   match_domain (ioc_default\<lparr>is_domains := [(''.evil.com'', \<lparr>pv_source = ''manual'', pv_tag = None\<rparr>)]\<rparr>) ''c2.evil.com'' = None"
  by code_simp

text \<open>
  A prefix past the width of the address does not compare every bit, as the comment says: it is a
  slice out of range.
\<close>

lemma wide_prefix_panics:
  assumes "length a = length b" and "8 * length a < unat p div 8 * 8"
  shows "prefix_eq a b p = Panic"
  using assms by (simp add: prefix_eq_def Let_def sub_list_def unat_div)

lemma wide_prefix_panics_witness: "prefix_eq [10, 0, 0, 1] [10, 0, 0, 1] 40 = (Panic :: (bool, unit) res)"
  by (rule wide_prefix_panics) simp_all

end
