(* ===== verification/Analyzer.thy ===== *)
theory Analyzer
  imports Reassembly IpReassembly Ioc
begin

text \<open>
  \<open>analysis/mod.rs\<close>, the part that folds packets in: the counters, the indexes by host, ARP, DNS, TLS
  and HTTP, the timeline, and \<open>observe\<close>, which feeds all of them, the flow table and the two
  reassemblers.  Every index is a record; a \<open>HashMap\<close> is an association list whose order stands for the
  unspecified iteration order, a \<open>BTreeMap\<close> a key-sorted one.  The lemmas show what each index holds
  after a capture, in terms of the packets that were folded in.
\<close>

section \<open>Configuration\<close>

record analysis_config =
  cf_beacon_min_packets :: nat
  cf_beacon_max_jitter :: rat
  cf_beacon_interval_range :: "rat \<times> rat"
  cf_dns_entropy_threshold :: rat
  cf_dns_subdomain_threshold :: nat
  cf_scan_port_threshold :: nat
  cf_exfil_bytes_threshold :: nat
  cf_exfil_ratio_threshold :: rat
  cf_top_n :: nat

definition config_default :: analysis_config where
  "config_default =
     \<lparr>cf_beacon_min_packets = 8, cf_beacon_max_jitter = 20 / 100,
      cf_beacon_interval_range = (5 / 10, 86400), cf_dns_entropy_threshold = 38 / 10,
      cf_dns_subdomain_threshold = 40, cf_scan_port_threshold = 15,
      cf_exfil_bytes_threshold = 5 * 1024 * 1024, cf_exfil_ratio_threshold = 4, cf_top_n = 20\<rparr>"

section \<open>Map entries\<close>

text \<open>\<open>entry(k).or_default()\<close> followed by an update in place, for both kinds of map.\<close>

definition hm_entry :: "'v \<Rightarrow> ('v \<Rightarrow> 'v) \<Rightarrow> 'k \<Rightarrow> ('k, 'v) hashmap \<Rightarrow> ('k, 'v) hashmap" where
  "hm_entry d g k m = AList.update k (g (unwrap_or d (map_of m k))) m"

definition bt_entry :: "'v \<Rightarrow> ('v \<Rightarrow> 'v) \<Rightarrow> 'k::linorder \<Rightarrow> ('k, 'v) btree \<Rightarrow> ('k, 'v) btree" where
  "bt_entry d g k m = bt_put k (g (unwrap_or d (map_of m k))) m"

definition bt_count :: "'k::linorder \<Rightarrow> ('k, nat) btree \<Rightarrow> ('k, nat) btree" where
  "bt_count = bt_entry 0 Suc"

section \<open>The indexes\<close>

record counters =
  cn_packets :: nat
  cn_bytes :: nat
  cn_captured_bytes :: nat
  cn_truncated_packets :: nat
  cn_decode_warnings :: nat
  cn_arp :: nat
  cn_ipv4 :: nat
  cn_ipv6 :: nat
  cn_tcp :: nat
  cn_udp :: nat
  cn_icmp :: nat
  cn_other_l3 :: nat
  cn_fragments :: nat
  cn_first_seen :: "timestamp option"
  cn_last_seen :: "timestamp option"

definition counters_default :: counters where
  "counters_default =
     \<lparr>cn_packets = 0, cn_bytes = 0, cn_captured_bytes = 0, cn_truncated_packets = 0,
      cn_decode_warnings = 0, cn_arp = 0, cn_ipv4 = 0, cn_ipv6 = 0, cn_tcp = 0, cn_udp = 0,
      cn_icmp = 0, cn_other_l3 = 0, cn_fragments = 0, cn_first_seen = None, cn_last_seen = None\<rparr>"

record dns_name_stat =
  dn_queries :: nat
  dn_responses :: nat
  dn_nxdomain :: nat
  dn_resolved :: "string btset"
  dn_qtypes :: "u16 btset"

definition dns_stat_default :: dns_name_stat where
  "dns_stat_default =
     \<lparr>dn_queries = 0, dn_responses = 0, dn_nxdomain = 0, dn_resolved = [], dn_qtypes = []\<rparr>"

record dns_index =
  dx_names :: "(string, dns_name_stat) hashmap"
  dx_subdomains :: "(string, string btset) hashmap"
  dx_servers :: "(ip_addr, nat) btree"
  dx_resolved_ips :: "(ip_addr, string) hashmap"

definition MAX_RESOLVED :: nat where "MAX_RESOLVED = 8192"

definition record_resolution :: "ip_addr \<Rightarrow> string \<Rightarrow> dns_index \<Rightarrow> dns_index" where
  "record_resolution ip name d =
     (if length (dx_resolved_ips d) < MAX_RESOLVED \<or> map_of (dx_resolved_ips d) ip \<noteq> None
      then d\<lparr>dx_resolved_ips := AList.update ip name (dx_resolved_ips d)\<rparr> else d)"

definition name_for :: "dns_index \<Rightarrow> ip_addr \<Rightarrow> string option" where
  "name_for d ip = map_of (dx_resolved_ips d) ip"

record tls_index =
  tx_sni :: "(string, nat) btree"
  tx_ja3 :: "(string, nat \<times> string option) btree"
  tx_obsolete_versions :: nat
  tx_no_sni :: nat

record http_index =
  hx_hosts :: "(string, nat) btree"
  hx_user_agents :: "(string, nat) btree"
  hx_requests :: nat
  hx_responses :: nat
  hx_cleartext_auth :: nat
  hx_credential_requests :: "string list"

record arp_index =
  ax_bindings :: "(bytes, mac_addr btset) hashmap"
  ax_gratuitous :: nat
  ax_requests :: nat
  ax_replies :: nat

record host_stat =
  ho_packets_sent :: nat
  ho_packets_received :: nat
  ho_bytes_sent :: nat
  ho_bytes_received :: nat
  ho_peers :: "ip_addr btset"
  ho_scanned_ports :: "(ip_addr, u16 btset) hashmap"

definition host_default :: host_stat where
  "host_default =
     \<lparr>ho_packets_sent = 0, ho_packets_received = 0, ho_bytes_sent = 0, ho_bytes_received = 0,
      ho_peers = [], ho_scanned_ports = []\<rparr>"

record analyzer =
  an_config :: analysis_config
  an_counters :: counters
  an_flows :: flow_table
  an_dns :: dns_index
  an_tls :: tls_index
  an_http :: http_index
  an_arp :: arp_index
  an_hosts :: "(ip_addr, host_stat) hashmap"
  an_timeline :: "(int, nat \<times> nat) btree"
  an_reassembly :: reassembler
  an_ip_reassembly :: ip_reassembler
  an_ioc :: "ioc_set option"

definition an_new :: "analysis_config \<Rightarrow> analyzer" where
  "an_new config =
     \<lparr>an_config = config, an_counters = counters_default, an_flows = [],
      an_dns = \<lparr>dx_names = [], dx_subdomains = [], dx_servers = [], dx_resolved_ips = []\<rparr>,
      an_tls = \<lparr>tx_sni = [], tx_ja3 = [], tx_obsolete_versions = 0, tx_no_sni = 0\<rparr>,
      an_http = \<lparr>hx_hosts = [], hx_user_agents = [], hx_requests = 0, hx_responses = 0,
        hx_cleartext_auth = 0, hx_credential_requests = []\<rparr>,
      an_arp = \<lparr>ax_bindings = [], ax_gratuitous = 0, ax_requests = 0, ax_replies = 0\<rparr>,
      an_hosts = [], an_timeline = [], an_reassembly = ra_new, an_ip_reassembly = ir_new,
      an_ioc = None\<rparr>"

definition set_iocs :: "ioc_set \<Rightarrow> analyzer \<Rightarrow> analyzer" where
  "set_iocs s a = a\<lparr>an_ioc := (if ioc_is_empty s then None else Some s)\<rparr>"

section \<open>Counting\<close>

definition count_packet :: "decoded_packet \<Rightarrow> counters \<Rightarrow> counters" where
  "count_packet pkt c =
     c\<lparr>cn_packets := cn_packets c + 1,
       cn_bytes := cn_bytes c + unat (pm_wire_len (pk_meta pkt)),
       cn_captured_bytes := cn_captured_bytes c + unat (pm_captured_len (pk_meta pkt)),
       cn_truncated_packets := cn_truncated_packets c + (if pm_is_truncated (pk_meta pkt) then 1 else 0),
       cn_decode_warnings := cn_decode_warnings c + length (pk_warnings pkt)\<rparr>"

definition count_time :: "timestamp \<Rightarrow> counters \<Rightarrow> counters" where
  "count_time ts c =
     c\<lparr>cn_first_seen := Some (case cn_first_seen c of None \<Rightarrow> ts | Some f \<Rightarrow> ts_min f ts),
       cn_last_seen := Some (case cn_last_seen c of None \<Rightarrow> ts | Some l \<Rightarrow> ts_max l ts)\<rparr>"

definition count_network :: "network_layer \<Rightarrow> counters \<Rightarrow> counters" where
  "count_network n c =
     (case n of
        NetIpv4 h \<Rightarrow> c\<lparr>cn_ipv4 := cn_ipv4 c + 1,
          cn_fragments := cn_fragments c + (if ip4_fragmented h then 1 else 0)\<rparr>
      | NetIpv6 h \<Rightarrow> c\<lparr>cn_ipv6 := cn_ipv6 c + 1,
          cn_fragments := cn_fragments c + (if ip6_fragmented h then 1 else 0)\<rparr>
      | NetArp _ \<Rightarrow> c\<lparr>cn_arp := cn_arp c + 1\<rparr>
      | NetNone \<Rightarrow> c\<lparr>cn_other_l3 := cn_other_l3 c + 1\<rparr>)"

definition count_transport :: "transport_layer \<Rightarrow> counters \<Rightarrow> counters" where
  "count_transport t c =
     (case t of
        TrTcp _ \<Rightarrow> c\<lparr>cn_tcp := cn_tcp c + 1\<rparr>
      | TrUdp _ \<Rightarrow> c\<lparr>cn_udp := cn_udp c + 1\<rparr>
      | TrIcmp _ \<Rightarrow> c\<lparr>cn_icmp := cn_icmp c + 1\<rparr>
      | TrNone \<Rightarrow> c)"

definition count :: "decoded_packet \<Rightarrow> analyzer \<Rightarrow> analyzer" where
  "count pkt a =
     (let ts = pm_timestamp (pk_meta pkt); len = unat (pm_wire_len (pk_meta pkt));
          a = a\<lparr>an_counters := count_packet pkt (an_counters a)\<rparr>;
          a = (if ts_is_zero ts then a
               else a\<lparr>an_counters := count_time ts (an_counters a),
                      an_timeline := bt_entry (0, 0) (\<lambda>(p, b). (p + 1, b + len)) (secs ts) (an_timeline a)\<rparr>)
      in a\<lparr>an_counters := count_transport (pk_transport pkt)
             (count_network (pk_network pkt) (an_counters a))\<rparr>)"

section \<open>Hosts and ARP\<close>

definition host_sent :: "decoded_packet \<Rightarrow> ip_addr \<Rightarrow> host_stat \<Rightarrow> host_stat" where
  "host_sent pkt dst s =
     (let s = s\<lparr>ho_packets_sent := ho_packets_sent s + 1,
               ho_bytes_sent := ho_bytes_sent s + unat (pm_wire_len (pk_meta pkt)),
               ho_peers := bs_insert dst (ho_peers s)\<rparr> in
      case pk_transport pkt of
        TrTcp t \<Rightarrow>
          if is_syn_only (tcp_flags t)
          then s\<lparr>ho_scanned_ports := hm_entry [] (bs_insert (tcp_dst_port t)) dst (ho_scanned_ports s)\<rparr>
          else s
      | _ \<Rightarrow> s)"

definition host_received :: "decoded_packet \<Rightarrow> ip_addr \<Rightarrow> host_stat \<Rightarrow> host_stat" where
  "host_received pkt src s =
     s\<lparr>ho_packets_received := ho_packets_received s + 1,
       ho_bytes_received := ho_bytes_received s + unat (pm_wire_len (pk_meta pkt)),
       ho_peers := bs_insert src (ho_peers s)\<rparr>"

definition hosts_observe ::
  "decoded_packet \<Rightarrow> (ip_addr, host_stat) hashmap \<Rightarrow> (ip_addr, host_stat) hashmap" where
  "hosts_observe pkt hosts =
     (case (src_ip pkt, dst_ip pkt) of
        (Some src, Some dst) \<Rightarrow>
          hm_entry host_default (host_received pkt src) dst
            (hm_entry host_default (host_sent pkt dst) src hosts)
      | _ \<Rightarrow> hosts)"

definition index_hosts :: "decoded_packet \<Rightarrow> analyzer \<Rightarrow> analyzer" where
  "index_hosts pkt a = a\<lparr>an_hosts := hosts_observe pkt (an_hosts a)\<rparr>"

definition arp_observe :: "arp \<Rightarrow> arp_index \<Rightarrow> arp_index" where
  "arp_observe h x =
     (let x = (case arp_op h of
            ArpRequest \<Rightarrow> x\<lparr>ax_requests := ax_requests x + 1\<rparr>
          | ArpReply \<Rightarrow> x\<lparr>ax_replies := ax_replies x + 1\<rparr>
          | ArpOther _ \<Rightarrow> x);
          x = (if is_gratuitous h then x\<lparr>ax_gratuitous := ax_gratuitous x + 1\<rparr> else x) in
      if arp_op h = ArpReply \<and> \<not> v4_is_unspecified (arp_sender_ip h)
      then x\<lparr>ax_bindings := hm_entry [] (bs_insert (arp_sender_mac h)) (arp_sender_ip h) (ax_bindings x)\<rparr>
      else x)"

definition arp_packet :: "decoded_packet \<Rightarrow> arp_index \<Rightarrow> arp_index" where
  "arp_packet pkt x = (case pk_network pkt of NetArp h \<Rightarrow> arp_observe h x | _ \<Rightarrow> x)"

definition index_arp :: "decoded_packet \<Rightarrow> analyzer \<Rightarrow> analyzer" where
  "index_arp pkt a = a\<lparr>an_arp := arp_packet pkt (an_arp a)\<rparr>"

section \<open>Application messages\<close>

definition dns_question_step :: "dns_message \<Rightarrow> dns_question \<Rightarrow> dns_index \<Rightarrow> dns_index" where
  "dns_question_step d q x =
     (let name = to_ascii_lowercase (dq_name q);
          stat = (\<lambda>st.
            (if dm_is_response d
             then st\<lparr>dn_responses := dn_responses st + 1,
                     dn_nxdomain := dn_nxdomain st + (if dm_rcode d = 3 then 1 else 0)\<rparr>
             else st\<lparr>dn_queries := dn_queries st + 1\<rparr>)
              \<lparr>dn_qtypes := bs_insert (dq_qtype q) (dn_qtypes st)\<rparr>);
          x = x\<lparr>dx_names := hm_entry dns_stat_default stat name (dx_names x)\<rparr>;
          parent = parent_domain name in
      if parent \<noteq> name
      then x\<lparr>dx_subdomains := hm_entry [] (insert_capped 10000 name) parent (dx_subdomains x)\<rparr>
      else x)"

definition dns_answer_step :: "dns_record \<Rightarrow> dns_index \<Rightarrow> dns_index" where
  "dns_answer_step r x =
     (let name = to_ascii_lowercase (dr_name r);
          x = (case map_of (dx_names x) name of
                 None \<Rightarrow> x
               | Some st \<Rightarrow> x\<lparr>dx_names := AList.update name
                   (st\<lparr>dn_resolved := insert_capped 32 (dr_data r) (dn_resolved st)\<rparr>) (dx_names x)\<rparr>) in
      if dr_rtype r = 1 \<or> dr_rtype r = 28
      then (case parse_ip (dr_data r) of None \<Rightarrow> x | Some ip \<Rightarrow> record_resolution ip name x)
      else x)"

definition index_dns :: "dns_message \<Rightarrow> decoded_packet \<Rightarrow> dns_index \<Rightarrow> dns_index" where
  "index_dns d pkt x =
     (let x = (case if dm_is_response d then src_ip pkt else dst_ip pkt of
                 None \<Rightarrow> x
               | Some server \<Rightarrow> x\<lparr>dx_servers := bt_count server (dx_servers x)\<rparr>);
          x = foldl (\<lambda>x q. dns_question_step d q x) x (dm_questions d) in
      foldl (\<lambda>x r. dns_answer_step r x) x (dm_answers d))"

definition index_tls :: "tls_hello \<Rightarrow> tls_index \<Rightarrow> tls_index" where
  "index_tls t x =
     (let x = (case th_sni t of
                 Some sni \<Rightarrow> x\<lparr>tx_sni := bt_count (to_ascii_lowercase sni) (tx_sni x)\<rparr>
               | None \<Rightarrow> if th_kind t = Client then x\<lparr>tx_no_sni := tx_no_sni x + 1\<rparr> else x);
          x = (if th_kind t = Client
               then x\<lparr>tx_ja3 := bt_entry (0, th_sni t) (\<lambda>(n, s). (n + 1, s)) (th_ja3_md5 t) (tx_ja3 x)\<rparr>
               else x) in
      if is_obsolete_version t then x\<lparr>tx_obsolete_versions := tx_obsolete_versions x + 1\<rparr> else x)"

definition index_http :: "http_message \<Rightarrow> http_index \<Rightarrow> http_index" where
  "index_http h x =
     (let x = (case hm_kind h of
                 Request \<Rightarrow> x\<lparr>hx_requests := hx_requests x + 1\<rparr>
               | Response \<Rightarrow> x\<lparr>hx_responses := hx_responses x + 1\<rparr>);
          x = (case hm_host h of None \<Rightarrow> x
               | Some host \<Rightarrow> x\<lparr>hx_hosts := bt_count (to_ascii_lowercase host) (hx_hosts x)\<rparr>);
          x = (case hm_user_agent h of None \<Rightarrow> x
               | Some ua \<Rightarrow> x\<lparr>hx_user_agents := bt_count ua (hx_user_agents x)\<rparr>) in
      if hm_has_authorization h
      then x\<lparr>hx_cleartext_auth := hx_cleartext_auth x + 1,
             hx_credential_requests := (if length (hx_credential_requests x) < 50
               then hx_credential_requests x @ [http_summary h] else hx_credential_requests x)\<rparr>
      else x)"

definition index_app :: "app_layer \<Rightarrow> decoded_packet \<Rightarrow> analyzer \<Rightarrow> analyzer" where
  "index_app app pkt a =
     (case app of
        AppDns d \<Rightarrow> a\<lparr>an_dns := index_dns d pkt (an_dns a)\<rparr>
      | AppTls t \<Rightarrow> a\<lparr>an_tls := index_tls t (an_tls a)\<rparr>
      | AppHttp h \<Rightarrow> a\<lparr>an_http := index_http h (an_http a)\<rparr>
      | AppNone \<Rightarrow> a)"

section \<open>Folding a packet in\<close>

text \<open>A message the reassemblers recovered: indexed, and recorded with the flow of its packet.\<close>

definition index_recovered :: "app_layer \<Rightarrow> decoded_packet \<Rightarrow> analyzer \<Rightarrow> analyzer" where
  "index_recovered app pkt a =
     (let a = index_app app pkt a in
      case from_packet pkt of
        None \<Rightarrow> a
      | Some (key, _) \<Rightarrow> a\<lparr>an_flows := ft_record_app key app (an_flows a)\<rparr>)"

text \<open>The part of \<open>observe\<close> before the reassemblers are asked.\<close>

definition index_packet :: "decoded_packet \<Rightarrow> analyzer \<Rightarrow> analyzer" where
  "index_packet pkt a =
     (let a = count pkt a;
          a = a\<lparr>an_flows := snd (ft_observe pkt (an_flows a))\<rparr>;
          a = index_hosts pkt a;
          a = index_arp pkt a in
      index_app (pk_app pkt) pkt a)"

definition observe :: "(bytes \<Rightarrow> bytes) \<Rightarrow> decoded_packet \<Rightarrow> bytes \<Rightarrow> analyzer \<Rightarrow> analyzer dres" where
  "observe md5 pkt frame a =
     (let a = index_packet pkt a in
      and_then (ra_push md5 pkt frame (an_reassembly a)) (\<lambda>(app, ra).
      let a = a\<lparr>an_reassembly := ra\<rparr>;
          a = (case app of None \<Rightarrow> a | Some app \<Rightarrow> index_recovered app pkt a) in
      and_then (ir_push md5 pkt frame (an_ip_reassembly a)) (\<lambda>(whole, ir).
      let a = a\<lparr>an_ip_reassembly := ir\<rparr> in
      Ok (case whole of None \<Rightarrow> a | Some p \<Rightarrow> index_recovered (pk_app p) p a))))"

text \<open>A whole capture: each packet with the frame it was decoded from.\<close>

fun observe_all :: "(bytes \<Rightarrow> bytes) \<Rightarrow> (decoded_packet \<times> bytes) list \<Rightarrow> analyzer \<Rightarrow> analyzer dres" where
  "observe_all md5 [] a = Ok a"
| "observe_all md5 ((pkt, frame) # ps) a = and_then (observe md5 pkt frame a) (observe_all md5 ps)"

definition an_duration :: "analyzer \<Rightarrow> rat" where
  "an_duration a =
     (case (cn_first_seen (an_counters a), cn_last_seen (an_counters a)) of
        (Some f, Some l) \<Rightarrow> delta_secs l f
      | _ \<Rightarrow> 0)"

definition an_is_empty :: "analyzer \<Rightarrow> bool" where
  "an_is_empty a \<longleftrightarrow> cn_packets (an_counters a) = 0"

section \<open>What folding in a packet does to each index\<close>

lemma index_app_views [simp]:
  "an_config (index_app app pkt a) = an_config a"
  "an_counters (index_app app pkt a) = an_counters a"
  "an_timeline (index_app app pkt a) = an_timeline a"
  "an_hosts (index_app app pkt a) = an_hosts a"
  "an_arp (index_app app pkt a) = an_arp a"
  "an_flows (index_app app pkt a) = an_flows a"
  "an_reassembly (index_app app pkt a) = an_reassembly a"
  "an_ip_reassembly (index_app app pkt a) = an_ip_reassembly a"
  "an_ioc (index_app app pkt a) = an_ioc a"
  by (simp_all add: index_app_def split: app_layer.splits)

lemma index_recovered_views [simp]:
  "an_config (index_recovered app pkt a) = an_config a"
  "an_counters (index_recovered app pkt a) = an_counters a"
  "an_timeline (index_recovered app pkt a) = an_timeline a"
  "an_hosts (index_recovered app pkt a) = an_hosts a"
  "an_arp (index_recovered app pkt a) = an_arp a"
  "an_reassembly (index_recovered app pkt a) = an_reassembly a"
  "an_ip_reassembly (index_recovered app pkt a) = an_ip_reassembly a"
  "an_ioc (index_recovered app pkt a) = an_ioc a"
  by (simp_all add: index_recovered_def Let_def split: option.splits prod.splits)

lemma count_views [simp]:
  "an_config (count pkt a) = an_config a"
  "an_hosts (count pkt a) = an_hosts a"
  "an_arp (count pkt a) = an_arp a"
  "an_flows (count pkt a) = an_flows a"
  "an_dns (count pkt a) = an_dns a"
  "an_tls (count pkt a) = an_tls a"
  "an_http (count pkt a) = an_http a"
  "an_reassembly (count pkt a) = an_reassembly a"
  "an_ip_reassembly (count pkt a) = an_ip_reassembly a"
  "an_ioc (count pkt a) = an_ioc a"
  by (simp_all add: count_def Let_def)

text \<open>An invariant that relates the state to the packets folded in so far.\<close>

lemma observe_all_invariant:
  assumes "observe_all md5 ps a = Ok a'" and "P [] a"
    and "\<And>qs p frame a a'. P qs a \<Longrightarrow> observe md5 p frame a = Ok a' \<Longrightarrow> P (qs @ [p]) a'"
  shows "P (map fst ps) a'"
proof -
  have "P (qs @ map fst ps) a'" if "P qs a" "observe_all md5 ps a = Ok a'" for qs a
    using that
  proof (induction ps arbitrary: qs a)
    case (Cons p ps)
    obtain pkt frame where p: "p = (pkt, frame)" by force
    from Cons.prems(2) obtain b where b: "observe md5 pkt frame a = Ok b" "observe_all md5 ps b = Ok a'"
      by (auto simp: p)
    from Cons.IH [OF assms(3) [OF Cons.prems(1) b(1)] b(2)] show ?case by (simp add: p)
  qed simp
  from this [OF assms(2,1)] show ?thesis by simp
qed

text \<open>
  A part of the state that the packet alone determines, whatever the reassemblers recover: its value
  after a capture is a fold over the packets, and an invariant of the steps holds of it.
\<close>

locale observed_view =
  fixes view :: "analyzer \<Rightarrow> 's" and step :: "decoded_packet \<Rightarrow> 's \<Rightarrow> 's"
  assumes view_observe: "observe md5 pkt frame a = Ok a' \<Longrightarrow> view a' = step pkt (view a)"
begin

lemma view_observe_all:
  "observe_all md5 ps a = Ok a' \<Longrightarrow> view a' = foldl (\<lambda>s p. step (fst p) s) (view a) ps"
  by (induction md5 ps a rule: observe_all.induct) (auto simp: view_observe)

lemma view_invariant:
  assumes "observe_all md5 ps a = Ok a'" and "P [] (view a)"
    and "\<And>qs p s. P qs s \<Longrightarrow> P (qs @ [p]) (step p s)"
  shows "P (map fst ps) (view a')"
  by (rule observe_all_invariant [where P = "\<lambda>qs a. P qs (view a)", OF assms(1,2)])
    (simp add: assms(3) view_observe)

end

text \<open>The counters and the timeline together.\<close>

definition count_view :: "decoded_packet \<Rightarrow> counters \<times> (int, nat \<times> nat) btree \<Rightarrow>
    counters \<times> (int, nat \<times> nat) btree" where
  "count_view pkt = (\<lambda>(c, t).
     let ts = pm_timestamp (pk_meta pkt); len = unat (pm_wire_len (pk_meta pkt));
         c = count_packet pkt c in
     (count_transport (pk_transport pkt) (count_network (pk_network pkt)
        (if ts_is_zero ts then c else count_time ts c)),
      if ts_is_zero ts then t else bt_entry (0, 0) (\<lambda>(p, b). (p + 1, b + len)) (secs ts) t))"

lemma index_packet_views [simp]:
  "(an_counters (index_packet pkt a), an_timeline (index_packet pkt a)) =
     count_view pkt (an_counters a, an_timeline a)"
  "an_hosts (index_packet pkt a) = hosts_observe pkt (an_hosts a)"
  "an_arp (index_packet pkt a) = arp_packet pkt (an_arp a)"
  "an_config (index_packet pkt a) = an_config a"
  "an_ioc (index_packet pkt a) = an_ioc a"
  "an_flows (index_packet pkt a) = snd (ft_observe pkt (an_flows a))"
  "an_reassembly (index_packet pkt a) = an_reassembly a"
  "an_ip_reassembly (index_packet pkt a) = an_ip_reassembly a"
  by (simp_all add: index_packet_def Let_def index_hosts_def index_arp_def)
    (simp add: count_def count_view_def Let_def)

lemma observe_OkE:
  assumes "observe md5 pkt frame a = Ok a'"
  obtains app ra whole ir b where
    "ra_push md5 pkt frame (an_reassembly a) = Ok (app, ra)"
    and "ir_push md5 pkt frame (an_ip_reassembly a) = Ok (whole, ir)"
    and "b = (case app of None \<Rightarrow> (index_packet pkt a)\<lparr>an_reassembly := ra\<rparr>
      | Some m \<Rightarrow> index_recovered m pkt ((index_packet pkt a)\<lparr>an_reassembly := ra\<rparr>))"
    and "a' = (case whole of None \<Rightarrow> b\<lparr>an_ip_reassembly := ir\<rparr>
      | Some p \<Rightarrow> index_recovered (pk_app p) p (b\<lparr>an_ip_reassembly := ir\<rparr>))"
proof -
  obtain app ra where ra: "ra_push md5 pkt frame (an_reassembly a) = Ok (app, ra)"
    using assms by (auto simp: observe_def Let_def)
  let ?b = "case app of None \<Rightarrow> (index_packet pkt a)\<lparr>an_reassembly := ra\<rparr>
      | Some m \<Rightarrow> index_recovered m pkt ((index_packet pkt a)\<lparr>an_reassembly := ra\<rparr>)"
  have "an_ip_reassembly ?b = an_ip_reassembly a" by (simp split: option.splits)
  then obtain whole ir where "ir_push md5 pkt frame (an_ip_reassembly a) = Ok (whole, ir)"
    "a' = (case whole of None \<Rightarrow> ?b\<lparr>an_ip_reassembly := ir\<rparr>
      | Some p \<Rightarrow> index_recovered (pk_app p) p (?b\<lparr>an_ip_reassembly := ir\<rparr>))"
    using assms unfolding observe_def Let_def by (auto simp: ra)
  with ra that show thesis by blast
qed

lemma observe_views:
  assumes "observe md5 pkt frame a = Ok a'"
  shows "(an_counters a', an_timeline a') = count_view pkt (an_counters a, an_timeline a)"
    and "an_hosts a' = hosts_observe pkt (an_hosts a)"
    and "an_arp a' = arp_packet pkt (an_arp a)"
    and "an_config a' = an_config a"
    and "an_ioc a' = an_ioc a"
  using assms by (auto elim!: observe_OkE split: option.splits)

interpretation counted: observed_view "\<lambda>a. (an_counters a, an_timeline a)" count_view
  by unfold_locales (rule observe_views(1))

interpretation hosted: observed_view an_hosts hosts_observe
  by unfold_locales (rule observe_views(2))

interpretation arped: observed_view an_arp arp_packet
  by unfold_locales (rule observe_views(3))

interpretation configured: observed_view "\<lambda>a. (an_config a, an_ioc a)" "\<lambda>_ s. s"
  by unfold_locales (simp add: observe_views(4,5))

section \<open>Everything is counted once\<close>

abbreviation wire :: "decoded_packet \<Rightarrow> nat" where
  "wire p \<equiv> unat (pm_wire_len (pk_meta p))"

definition is_ip :: "decoded_packet \<Rightarrow> bool" where
  "is_ip p \<longleftrightarrow> src_ip p \<noteq> None"

definition is_timed :: "decoded_packet \<Rightarrow> bool" where
  "is_timed p \<longleftrightarrow> \<not> ts_is_zero (pm_timestamp (pk_meta p))"

lemma is_ip_iff: "is_ip p \<longleftrightarrow> from_packet p \<noteq> None" "is_ip p \<longleftrightarrow> dst_ip p \<noteq> None"
  by (auto simp: is_ip_def from_packet_def src_ip_def dst_ip_def ip_protocol_def Let_def
      split: network_layer.splits prod.splits)

lemma table_sum_hm_entry:
  assumes "hm_valid m" and "\<And>v. g (f v) = g v + n" and "g d = 0"
  shows "table_sum g (hm_entry d f k m) = table_sum g m + n"
  using table_sum_update [OF assms(1), of g k "f (unwrap_or d (map_of m k))"] assms(2,3)
  by (auto simp: hm_entry_def unwrap_or_def split: option.splits)

lemma table_sum_bt_entry:
  assumes "bt_valid m" and "\<And>v. g (f v) = g v + n" and "g d = 0"
  shows "table_sum g (bt_entry d f k m) = table_sum g m + n"
  using table_sum_bt_put [OF assms(1), of g k "f (unwrap_or d (map_of m k))"] assms(2,3)
  by (auto simp: bt_entry_def unwrap_or_def split: option.splits)

lemma entry_valid [simp]:
  "hm_valid m \<Longrightarrow> hm_valid (hm_entry d f k m)"
  "bt_valid t \<Longrightarrow> bt_valid (bt_entry d f k t)"
  by (simp_all add: hm_entry_def bt_entry_def bt_put_valid)

definition counted_ok :: "decoded_packet list \<Rightarrow> counters \<times> (int, nat \<times> nat) btree \<Rightarrow> bool" where
  "counted_ok ps = (\<lambda>(c, t).
     cn_packets c = length ps \<and> cn_bytes c = sum_list (map wire ps) \<and>
     cn_ipv4 c + cn_ipv6 c = length (filter is_ip ps) \<and>
     cn_ipv4 c + cn_ipv6 c + cn_arp c + cn_other_l3 c = length ps \<and>
     cn_tcp c + cn_udp c + cn_icmp c \<le> length ps \<and> cn_fragments c \<le> cn_ipv4 c + cn_ipv6 c \<and>
     bt_valid t \<and> table_sum fst t = length (filter is_timed ps) \<and>
     table_sum snd t = sum_list (map wire (filter is_timed ps)))"

lemma count_parts [simp]:
  "cn_packets (count_transport tr c) = cn_packets c" "cn_packets (count_network n c) = cn_packets c"
  "cn_packets (count_time ts c) = cn_packets c"
  "cn_bytes (count_transport tr c) = cn_bytes c" "cn_bytes (count_network n c) = cn_bytes c"
  "cn_bytes (count_time ts c) = cn_bytes c"
  "cn_ipv4 (count_transport tr c) = cn_ipv4 c" "cn_ipv4 (count_time ts c) = cn_ipv4 c"
  "cn_ipv6 (count_transport tr c) = cn_ipv6 c" "cn_ipv6 (count_time ts c) = cn_ipv6 c"
  "cn_arp (count_transport tr c) = cn_arp c" "cn_arp (count_time ts c) = cn_arp c"
  "cn_other_l3 (count_transport tr c) = cn_other_l3 c" "cn_other_l3 (count_time ts c) = cn_other_l3 c"
  "cn_fragments (count_transport tr c) = cn_fragments c" "cn_fragments (count_time ts c) = cn_fragments c"
  "cn_tcp (count_network n c) = cn_tcp c" "cn_tcp (count_time ts c) = cn_tcp c"
  "cn_udp (count_network n c) = cn_udp c" "cn_udp (count_time ts c) = cn_udp c"
  "cn_icmp (count_network n c) = cn_icmp c" "cn_icmp (count_time ts c) = cn_icmp c"
  by (simp_all add: count_transport_def count_network_def count_time_def
      split: transport_layer.splits network_layer.splits)

lemma count_packet_sel [simp]:
  "cn_packets (count_packet p c) = cn_packets c + 1" "cn_bytes (count_packet p c) = cn_bytes c + wire p"
  "cn_ipv4 (count_packet p c) = cn_ipv4 c" "cn_ipv6 (count_packet p c) = cn_ipv6 c"
  "cn_arp (count_packet p c) = cn_arp c" "cn_other_l3 (count_packet p c) = cn_other_l3 c"
  "cn_fragments (count_packet p c) = cn_fragments c" "cn_tcp (count_packet p c) = cn_tcp c"
  "cn_udp (count_packet p c) = cn_udp c" "cn_icmp (count_packet p c) = cn_icmp c"
  by (simp_all add: count_packet_def)

lemma count_layers:
  "cn_ipv4 (count_network (pk_network p) c) + cn_ipv6 (count_network (pk_network p) c) =
     cn_ipv4 c + cn_ipv6 c + (if is_ip p then 1 else 0)"
  "cn_ipv4 (count_network (pk_network p) c) + cn_ipv6 (count_network (pk_network p) c) +
     cn_arp (count_network (pk_network p) c) + cn_other_l3 (count_network (pk_network p) c) =
   Suc (cn_ipv4 c + cn_ipv6 c + cn_arp c + cn_other_l3 c)"
  "cn_fragments (count_network (pk_network p) c) \<le> cn_fragments c + (if is_ip p then 1 else 0)"
  "cn_tcp (count_transport tr c) + cn_udp (count_transport tr c) + cn_icmp (count_transport tr c) \<le>
   Suc (cn_tcp c + cn_udp c + cn_icmp c)"
  by (simp_all add: count_network_def count_transport_def is_ip_def src_ip_def
      split: network_layer.splits transport_layer.splits)

lemma counted_ok_step:
  assumes "counted_ok ps s" shows "counted_ok (ps @ [p]) (count_view p s)"
proof -
  obtain c t where s: "s = (c, t)" by force
  let ?c = "if is_timed p then count_time (pm_timestamp (pk_meta p)) (count_packet p c) else count_packet p c"
  let ?t = "if is_timed p then bt_entry (0, 0) (\<lambda>(n, b). (n + 1, b + wire p)) (secs (pm_timestamp (pk_meta p))) t else t"
  have bins: "table_sum fst (bt_entry (0, 0) (\<lambda>(n, b). (n + 1, b + wire p)) k t) = table_sum fst t + 1"
    "table_sum snd (bt_entry (0, 0) (\<lambda>(n, b). (n + 1, b + wire p)) k t) = table_sum snd t + wire p" for k
    by (rule table_sum_bt_entry; use assms in \<open>auto simp: s counted_ok_def\<close>)+
  have step: "count_view p s =
      (count_transport (pk_transport p) (count_network (pk_network p) ?c), ?t)"
    by (simp add: s count_view_def Let_def is_timed_def)
  have same: "cn_packets ?c = Suc (cn_packets c)" "cn_bytes ?c = cn_bytes c + wire p" "cn_ipv4 ?c = cn_ipv4 c"
    "cn_ipv6 ?c = cn_ipv6 c" "cn_arp ?c = cn_arp c" "cn_other_l3 ?c = cn_other_l3 c"
    "cn_fragments ?c = cn_fragments c" "cn_tcp ?c = cn_tcp c" "cn_udp ?c = cn_udp c" "cn_icmp ?c = cn_icmp c"
    by simp_all
  have tl: "bt_valid ?t \<and> table_sum fst ?t = length (filter is_timed (ps @ [p])) \<and>
      table_sum snd ?t = sum_list (map wire (filter is_timed (ps @ [p])))"
    using assms bins by (auto simp: s counted_ok_def)
  note L = count_layers(1) [of p ?c] count_layers(2) [of p ?c] count_layers(3) [of p ?c]
    count_layers(4) [of "pk_transport p" "count_network (pk_network p) ?c"]
  have "cn_packets c = length ps" "cn_bytes c = sum_list (map wire ps)"
    "cn_ipv4 c + cn_ipv6 c = length (filter is_ip ps)"
    "cn_ipv4 c + cn_ipv6 c + cn_arp c + cn_other_l3 c = length ps"
    "cn_tcp c + cn_udp c + cn_icmp c \<le> length ps" "cn_fragments c \<le> cn_ipv4 c + cn_ipv6 c"
    using assms by (simp_all add: s counted_ok_def)
  then show ?thesis
    unfolding counted_ok_def step case_prod_conv using L tl
    by (simp only: count_parts same length_append filter_append map_append sum_list_append) auto
qed

definition hosted_ok :: "decoded_packet list \<Rightarrow> (ip_addr, host_stat) hashmap \<Rightarrow> bool" where
  "hosted_ok ps hosts \<longleftrightarrow> hm_valid hosts \<and>
     table_sum ho_packets_sent hosts = length (filter is_ip ps) \<and>
     table_sum ho_packets_received hosts = length (filter is_ip ps) \<and>
     table_sum ho_bytes_sent hosts = sum_list (map wire (filter is_ip ps)) \<and>
     table_sum ho_bytes_received hosts = sum_list (map wire (filter is_ip ps)) \<and>
     fst ` set hosts = {ip. \<exists>p \<in> set ps. src_ip p = Some ip \<or> dst_ip p = Some ip}"

lemma host_sent_sel [simp]:
  "ho_packets_sent (host_sent p d s) = ho_packets_sent s + 1"
  "ho_bytes_sent (host_sent p d s) = ho_bytes_sent s + wire p"
  "ho_packets_received (host_sent p d s) = ho_packets_received s"
  "ho_bytes_received (host_sent p d s) = ho_bytes_received s"
  "ho_peers (host_sent p d s) = bs_insert d (ho_peers s)"
  by (simp_all add: host_sent_def Let_def split: transport_layer.splits)

lemma host_received_sel [simp]:
  "ho_packets_sent (host_received p d s) = ho_packets_sent s"
  "ho_bytes_sent (host_received p d s) = ho_bytes_sent s"
  "ho_packets_received (host_received p d s) = ho_packets_received s + 1"
  "ho_bytes_received (host_received p d s) = ho_bytes_received s + wire p"
  "ho_peers (host_received p d s) = bs_insert d (ho_peers s)"
  "ho_scanned_ports (host_received p d s) = ho_scanned_ports s"
  by (simp_all add: host_received_def)

lemma keys_hm_entry: "fst ` set (hm_entry d f k m) = insert k (fst ` set m)"
  by (induction m) (auto simp: hm_entry_def)

lemma hosted_ok_step:
  assumes "hosted_ok ps hosts" shows "hosted_ok (ps @ [p]) (hosts_observe p hosts)"
proof (cases "is_ip p")
  case True
  then obtain s d where sd: "src_ip p = Some s" "dst_ip p = Some d"
    using is_ip_iff(2) [of p] by (auto simp: is_ip_def)
  let ?m = "hm_entry host_default (host_sent p d) s hosts"
  have v: "hm_valid hosts" "hm_valid ?m" using assms by (simp_all add: hosted_ok_def)
  have sums: "table_sum g (hm_entry host_default (host_received p s) d ?m) = table_sum g hosts + n + m"
    if "\<And>v. g (host_sent p d v) = g v + n" "\<And>v. g (host_received p s v) = g v + m" "g host_default = 0"
    for g :: "host_stat \<Rightarrow> nat" and n m :: nat
    using table_sum_hm_entry [OF v(2), of g "host_received p s" m host_default d]
      table_sum_hm_entry [OF v(1), of g "host_sent p d" n host_default s] that by simp
  show ?thesis
    using assms True sums [of ho_packets_sent 1 0] sums [of ho_packets_received 0 1]
      sums [of ho_bytes_sent "wire p" 0] sums [of ho_bytes_received 0 "wire p"]
    by (auto simp: hosted_ok_def hosts_observe_def sd keys_hm_entry host_default_def)
next
  case False
  then have "src_ip p = None" "dst_ip p = None"
    using is_ip_iff(2) [of p] by (auto simp: is_ip_def)
  then show ?thesis using assms by (simp add: hosted_ok_def hosts_observe_def is_ip_def)
qed

lemma hm_valid_record [simp]: "hm_valid flows \<Longrightarrow> hm_valid (ft_record_app k app flows)"
  by (simp add: ft_record_app_def split: option.splits)

lemma table_sum_record:
  assumes "hm_valid flows" and "\<And>f. g (fl_record_app app f) = g f"
  shows "table_sum g (ft_record_app k app flows) = table_sum g flows"
  using table_sum_update [OF assms(1), of g k] assms(2)
  by (auto simp: ft_record_app_def split: option.splits) (metis add_right_cancel)

lemma index_recovered_flows:
  assumes "hm_valid (an_flows a)"
  shows "hm_valid (an_flows (index_recovered app p a)) \<and>
    table_sum fl_packets (an_flows (index_recovered app p a)) = table_sum fl_packets (an_flows a) \<and>
    table_sum fl_bytes (an_flows (index_recovered app p a)) = table_sum fl_bytes (an_flows a)"
  using assms
  by (auto simp: index_recovered_def Let_def table_sum_record split: option.splits)

definition flows_counted :: "decoded_packet list \<Rightarrow> flow_table \<Rightarrow> bool" where
  "flows_counted ps flows \<longleftrightarrow> hm_valid flows \<and>
     table_sum fl_packets flows = length (filter is_ip ps) \<and>
     table_sum fl_bytes flows = sum_list (map wire (filter is_ip ps))"

lemma flows_counted_step:
  assumes "flows_counted ps (an_flows a)" and "observe md5 p frame a = Ok a'"
  shows "flows_counted (ps @ [p]) (an_flows a')"
proof -
  have rec: "flows_counted qs (an_flows (index_recovered app q b)) = flows_counted qs (an_flows b)"
    if "flows_counted qs (an_flows b)" for qs app q b
    using that index_recovered_flows [of b app q] by (auto simp: flows_counted_def)
  have base: "flows_counted (ps @ [p]) (an_flows (index_packet p a))"
    using assms(1) is_ip_iff(1) [of p] by (auto simp: flows_counted_def table_sum_observe)
  show ?thesis
    using assms(2) base by (auto elim!: observe_OkE simp: rec split: option.splits)
qed

definition conserved :: "decoded_packet list \<Rightarrow> analyzer \<Rightarrow> bool" where
  "conserved ps a \<longleftrightarrow>
     counted_ok ps (an_counters a, an_timeline a) \<and> hosted_ok ps (an_hosts a) \<and>
     flows_counted ps (an_flows a)"

lemma conserved_run:
  assumes "observe_all md5 ps (an_new cfg) = Ok a" shows "conserved (map fst ps) a"
  unfolding conserved_def
proof (intro conjI)
  show "counted_ok (map fst ps) (an_counters a, an_timeline a)"
    by (rule counted.view_invariant [OF assms]; (rule counted_ok_step)?)
      (simp_all add: counted_ok_def an_new_def counters_default_def)
  show "hosted_ok (map fst ps) (an_hosts a)"
    by (rule hosted.view_invariant [OF assms]; (rule hosted_ok_step)?)
      (simp_all add: hosted_ok_def an_new_def)
  show "flows_counted (map fst ps) (an_flows a)"
    by (rule observe_all_invariant [OF assms]; (rule flows_counted_step)?)
      (simp_all add: flows_counted_def an_new_def)
qed

section \<open>What an attacker can make grow stays bounded\<close>

text \<open>Every entry of a hash map satisfies a predicate.\<close>

definition hm_all :: "('k \<Rightarrow> 'v \<Rightarrow> bool) \<Rightarrow> ('k, 'v) hashmap \<Rightarrow> bool" where
  "hm_all Q m \<longleftrightarrow> hm_valid m \<and> (\<forall>(k, v) \<in> set m. Q k v)"

lemma hm_all_Nil [simp]: "hm_all Q []"
  by (simp add: hm_all_def)

lemma hm_all_lookup: "hm_all Q m \<Longrightarrow> map_of m k = Some v \<Longrightarrow> Q k v"
  by (auto simp: hm_all_def dest!: map_of_SomeD)

lemma hm_all_update: "hm_all Q m \<Longrightarrow> Q k v \<Longrightarrow> hm_all Q (AList.update k v m)"
  by (auto simp: hm_all_def dest!: alist_update_values)

lemma hm_all_entry: "hm_all Q m \<Longrightarrow> Q k d \<Longrightarrow> (\<And>v. Q k v \<Longrightarrow> Q k (f v)) \<Longrightarrow> hm_all Q (hm_entry d f k m)"
  by (auto simp: hm_entry_def unwrap_or_def intro!: hm_all_update dest: hm_all_lookup split: option.splits)

definition is_set :: "'a::linorder btset \<Rightarrow> bool" where
  "is_set s \<longleftrightarrow> sorted s \<and> distinct s"

lemma is_set_insert: "is_set s \<Longrightarrow> is_set (bs_insert x s)"
  by (simp add: is_set_def bs_insert_sorted)

lemma is_set_Nil [simp]: "is_set []"
  by (simp add: is_set_def)

lemma set_insert_capped: "set (insert_capped cap x s) \<subseteq> insert x (set s)"
  by (simp add: insert_capped_def subset_insertI)

definition dns_ok :: "dns_index \<Rightarrow> bool" where
  "dns_ok x \<longleftrightarrow>
     hm_all (\<lambda>_ st. set_ok 32 (dn_resolved st) \<and> is_set (dn_qtypes st)) (dx_names x) \<and>
     hm_all (\<lambda>parent names. set_ok 10000 names \<and> (\<forall>n \<in> set names. parent_domain n = parent))
       (dx_subdomains x) \<and>
     hm_valid (dx_resolved_ips x) \<and> length (dx_resolved_ips x) \<le> MAX_RESOLVED"

lemma dns_ok_resolution: "dns_ok x \<Longrightarrow> dns_ok (record_resolution ip name x)"
  by (auto simp: dns_ok_def record_resolution_def length_alist_update)

lemma dns_ok_question: "dns_ok x \<Longrightarrow> dns_ok (dns_question_step d q x)"
  by (auto simp: dns_ok_def dns_question_step_def Let_def dns_stat_default_def is_set_insert set_ok_insert
      intro!: hm_all_entry dest!: subsetD [OF set_insert_capped])

lemma dns_ok_answer: "dns_ok x \<Longrightarrow> dns_ok (dns_answer_step r x)"
  by (auto simp: dns_answer_step_def Let_def split: option.splits intro!: dns_ok_resolution)
    (auto simp: dns_ok_def set_ok_insert intro!: hm_all_update dest: hm_all_lookup)

lemma dns_ok_index: "dns_ok x \<Longrightarrow> dns_ok (index_dns d pkt x)"
proof -
  have q: "dns_ok y \<Longrightarrow> dns_ok (foldl (\<lambda>x q. dns_question_step d q x) y qs)" for y qs
    by (induction qs arbitrary: y) (simp_all add: dns_ok_question)
  have r: "dns_ok y \<Longrightarrow> dns_ok (foldl (\<lambda>x r. dns_answer_step r x) y rs)" for y rs
    by (induction rs arbitrary: y) (simp_all add: dns_ok_answer)
  assume "dns_ok x"
  then have "dns_ok (x\<lparr>dx_servers := m\<rparr>)" for m by (simp add: dns_ok_def)
  with \<open>dns_ok x\<close> show ?thesis
    by (auto simp: index_dns_def Let_def intro!: q r split: option.splits)
qed

definition host_ok :: "host_stat \<Rightarrow> bool" where
  "host_ok s \<longleftrightarrow> is_set (ho_peers s) \<and> hm_all (\<lambda>_. is_set) (ho_scanned_ports s)"

definition hosts_ok :: "(ip_addr, host_stat) hashmap \<Rightarrow> bool" where
  "hosts_ok = hm_all (\<lambda>_. host_ok)"

lemma hosts_ok_step: "hosts_ok m \<Longrightarrow> hosts_ok (hosts_observe p m)"
proof -
  have s: "host_ok v \<Longrightarrow> host_ok (host_sent p d v)" for d v
    by (auto simp: host_ok_def is_set_insert) (auto simp: host_sent_def Let_def is_set_insert
      intro!: hm_all_entry split: transport_layer.splits)
  have r: "host_ok v \<Longrightarrow> host_ok (host_received p d v)" for d v
    by (simp add: host_ok_def is_set_insert)
  have d: "host_ok host_default" by (simp add: host_ok_def host_default_def)
  show "hosts_ok m \<Longrightarrow> hosts_ok (hosts_observe p m)"
    by (auto simp: hosts_ok_def hosts_observe_def s r d intro!: hm_all_entry split: option.splits)
qed

definition arp_ok :: "arp_index \<Rightarrow> bool" where
  "arp_ok x \<longleftrightarrow> hm_all (\<lambda>_. is_set) (ax_bindings x)"

lemma arp_ok_step: "arp_ok x \<Longrightarrow> arp_ok (arp_packet p x)"
  by (auto simp: arp_ok_def arp_packet_def arp_observe_def Let_def is_set_insert intro!: hm_all_entry
      split: network_layer.splits arp_op.splits)

definition analyzer_ok :: "analyzer \<Rightarrow> bool" where
  "analyzer_ok a \<longleftrightarrow>
     table_ok (an_flows a) \<and> dns_ok (an_dns a) \<and> hosts_ok (an_hosts a) \<and> arp_ok (an_arp a) \<and>
     length (hx_credential_requests (an_http a)) = min 50 (hx_cleartext_auth (an_http a)) \<and>
     reassembler_ok (an_reassembly a) \<and> ip_reassembler_ok (an_ip_reassembly a)"

lemma credentials_index:
  "length (hx_credential_requests x) = min 50 (hx_cleartext_auth x) \<Longrightarrow>
     length (hx_credential_requests (index_http h x)) = min 50 (hx_cleartext_auth (index_http h x))"
  by (simp add: index_http_def Let_def split: http_kind.splits option.splits)

lemma analyzer_ok_app: "analyzer_ok a \<Longrightarrow> analyzer_ok (index_app app pkt a)"
  by (cases app) (simp_all add: analyzer_ok_def index_app_def dns_ok_index credentials_index)

lemma analyzer_ok_recovered: "analyzer_ok a \<Longrightarrow> analyzer_ok (index_recovered app pkt a)"
  using analyzer_ok_app [of a app pkt]
  by (auto simp: index_recovered_def Let_def analyzer_ok_def table_ok_record split: option.splits)

lemma analyzer_ok_packet: "analyzer_ok a \<Longrightarrow> analyzer_ok (index_packet pkt a)"
  by (simp add: index_packet_def Let_def index_hosts_def index_arp_def)
    (rule analyzer_ok_app, simp add: analyzer_ok_def table_ok_observe hosts_ok_step arp_ok_step)

lemma analyzer_ok_parts:
  "analyzer_ok a \<Longrightarrow> reassembler_ok ra \<Longrightarrow> analyzer_ok (a\<lparr>an_reassembly := ra\<rparr>)"
  "analyzer_ok a \<Longrightarrow> ip_reassembler_ok ir \<Longrightarrow> analyzer_ok (a\<lparr>an_ip_reassembly := ir\<rparr>)"
  by (simp_all add: analyzer_ok_def)

lemma analyzer_ok_new: "analyzer_ok (an_new cfg)"
  by (simp add: analyzer_ok_def an_new_def table_ok_def dns_ok_def hosts_ok_def arp_ok_def ra_new_def
      reassembler_ok_def ir_new_def ip_reassembler_ok_def ir_tracked_def)

lemma returns_observe:
  assumes "analyzer_ok a" shows "returns analyzer_ok (observe md5 pkt frame a)"
proof -
  let ?b = "index_packet pkt a"
  have b: "analyzer_ok ?b" using assms by (rule analyzer_ok_packet)
  have ra: "returns (\<lambda>(app, ra). reassembler_ok ra) (ra_push md5 pkt frame (an_reassembly ?b))"
    using b by (intro returnsI [OF safe_ra_push] no_err_ra_push) (simp add: analyzer_ok_def)
  have ir: "returns analyzer_ok
      (and_then (ir_push md5 pkt frame (an_ip_reassembly c)) (\<lambda>(whole, ir).
        Ok (case whole of None \<Rightarrow> c\<lparr>an_ip_reassembly := ir\<rparr>
          | Some p \<Rightarrow> index_recovered (pk_app p) p (c\<lparr>an_ip_reassembly := ir\<rparr>))))"
    if "analyzer_ok c" for c
  proof -
    have "returns (\<lambda>(whole, ir). ip_reassembler_ok ir) (ir_push md5 pkt frame (an_ip_reassembly c))"
      using that by (intro returnsI [OF safe_ir_push] no_err_ir_push) (simp add: analyzer_ok_def)
    then show ?thesis
      by (rule returns_and_then) (use that in \<open>auto intro!: analyzer_ok_recovered
        analyzer_ok_parts split: option.splits\<close>)
  qed
  show ?thesis
    unfolding observe_def Let_def
    by (rule returns_and_then [OF ra], unfold split_paired_all case_prod_conv, rule ir)
      (use b in \<open>auto intro!: analyzer_ok_recovered analyzer_ok_parts split: option.splits\<close>)
qed

lemma returns_observe_all: "analyzer_ok a \<Longrightarrow> returns analyzer_ok (observe_all md5 ps a)"
proof (induction ps arbitrary: a)
  case (Cons p ps)
  show ?case
    using returns_and_then [OF returns_observe [OF Cons.prems] Cons.IH] by (cases p) simp
qed simp


lemma returns_run:
  assumes "\<And>a. observe_all md5 ps (an_new cfg) = Ok a \<Longrightarrow> analyzer_ok a \<Longrightarrow> Q a"
  shows "returns Q (observe_all md5 ps (an_new cfg))"
  using returns_observe_all [OF analyzer_ok_new, of md5 ps cfg] assms
  by (cases "observe_all md5 ps (an_new cfg)") auto

text \<open>
  C6. The indexes agree with each other and with the capture: the packet counters partition the
  packets by layer, the flows, the hosts' sent and the hosts' received totals are each exactly the
  IP packets and their bytes, the hosts are exactly the endpoints seen, and the timeline adds up to
  the packets that carry a time.
\<close>

theorem analysis_conserves: "returns (conserved (map fst ps)) (observe_all md5 ps (an_new cfg))"
  by (rule returns_run) (rule conserved_run)

section \<open>What the scan and ARP indexes hold\<close>

text \<open>The ports \<open>src\<close> is recorded to have probed on \<open>dst\<close>, and the packets that say so.\<close>

definition scanned :: "(ip_addr, host_stat) hashmap \<Rightarrow> ip_addr \<Rightarrow> ip_addr \<Rightarrow> u16 btset" where
  "scanned hosts src dst =
     unwrap_or [] (map_of (ho_scanned_ports (unwrap_or host_default (map_of hosts src))) dst)"

definition probes :: "decoded_packet \<Rightarrow> ip_addr \<Rightarrow> ip_addr \<Rightarrow> u16 set" where
  "probes p src dst =
     (if src_ip p = Some src \<and> dst_ip p = Some dst
      then (case pk_transport p of
              TrTcp t \<Rightarrow> if is_syn_only (tcp_flags t) then {tcp_dst_port t} else {}
            | _ \<Rightarrow> {})
      else {})"

lemma map_of_hm_entry:
  "map_of (hm_entry d f k m) k' = (if k' = k then Some (f (unwrap_or d (map_of m k))) else map_of m k')"
  by (simp add: hm_entry_def map_of_alist_update)

lemma unwrap_or_simps [simp]: "unwrap_or d None = d" "unwrap_or d (Some v) = v"
  by (simp_all add: unwrap_or_def)

lemma scanned_step: "set (scanned (hosts_observe p m) src dst) = set (scanned m src dst) \<union> probes p src dst"
proof -
  have sent: "unwrap_or [] (map_of (ho_scanned_ports (host_sent p d v)) e) =
      (case pk_transport p of
         TrTcp t \<Rightarrow> if is_syn_only (tcp_flags t) \<and> e = d
           then bs_insert (tcp_dst_port t) (unwrap_or [] (map_of (ho_scanned_ports v) e))
           else unwrap_or [] (map_of (ho_scanned_ports v) e)
       | _ \<Rightarrow> unwrap_or [] (map_of (ho_scanned_ports v) e))" for d v e
    by (simp add: host_sent_def Let_def map_of_hm_entry split: transport_layer.splits)
  show ?thesis
  proof (cases "is_ip p")
    case True
    then obtain s d where "src_ip p = Some s" "dst_ip p = Some d"
      using is_ip_iff(2) [of p] by (auto simp: is_ip_def)
    then show ?thesis
      by (simp add: scanned_def hosts_observe_def map_of_hm_entry sent probes_def split: transport_layer.splits)
  next
    case False
    then show ?thesis using is_ip_iff(2) [of p]
      by (auto simp: scanned_def hosts_observe_def probes_def is_ip_def split: option.splits)
  qed
qed

lemma scanned_run:
  assumes "observe_all md5 ps (an_new cfg) = Ok a"
  shows "set (scanned (an_hosts a) src dst) = (\<Union>p \<in> fst ` set ps. probes p src dst)"
proof -
  have "set (scanned (an_hosts a) src dst) = (\<Union>p \<in> set (map fst ps). probes p src dst)"
    by (rule hosted.view_invariant [OF assms]) (simp_all add: scanned_step Un_commute, simp add: scanned_def an_new_def host_default_def)
  then show ?thesis by simp
qed

lemma hosts_ok_scanned: "hosts_ok m \<Longrightarrow> is_set (scanned m src dst)"
  by (auto simp: scanned_def hosts_ok_def host_ok_def host_default_def unwrap_or_def
      dest!: hm_all_lookup split: option.splits)

lemma length_set: "is_set s \<Longrightarrow> length s = card (set s)"
  by (simp add: is_set_def distinct_card)

text \<open>The hardware addresses recorded for an IP, and the ARP packets that assert them.\<close>

definition bound_macs :: "arp_index \<Rightarrow> bytes \<Rightarrow> mac_addr btset" where
  "bound_macs x ip = unwrap_or [] (map_of (ax_bindings x) ip)"

definition arp_claims :: "decoded_packet \<Rightarrow> bytes \<Rightarrow> mac_addr set" where
  "arp_claims p ip =
     (case pk_network p of
        NetArp h \<Rightarrow>
          if arp_op h = ArpReply \<and> arp_sender_ip h = ip \<and> \<not> v4_is_unspecified ip
          then {arp_sender_mac h} else {}
      | _ \<Rightarrow> {})"

lemma bindings_observe:
  "ax_bindings (arp_observe h x) =
     (if arp_op h = ArpReply \<and> \<not> v4_is_unspecified (arp_sender_ip h)
      then hm_entry [] (bs_insert (arp_sender_mac h)) (arp_sender_ip h) (ax_bindings x) else ax_bindings x)"
  by (simp add: arp_observe_def Let_def split: arp_op.splits)

lemma bound_step: "set (bound_macs (arp_packet p x) ip) = set (bound_macs x ip) \<union> arp_claims p ip"
  by (auto simp: arp_packet_def arp_claims_def bound_macs_def bindings_observe map_of_hm_entry
      split: network_layer.splits)

lemma bound_run:
  assumes "observe_all md5 ps (an_new cfg) = Ok a"
  shows "set (bound_macs (an_arp a) ip) = (\<Union>p \<in> fst ` set ps. arp_claims p ip)"
proof -
  have "set (bound_macs (an_arp a) ip) = (\<Union>p \<in> set (map fst ps). arp_claims p ip)"
    by (rule arped.view_invariant [OF assms]) (simp_all add: bound_step Un_commute, simp add: bound_macs_def an_new_def)
  then show ?thesis by simp
qed

lemma arp_ok_bound: "arp_ok x \<Longrightarrow> is_set (bound_macs x ip)"
  by (auto simp: bound_macs_def arp_ok_def unwrap_or_def dest!: hm_all_lookup split: option.splits)

lemma config_run: "observe_all md5 ps (an_new cfg) = Ok a \<Longrightarrow> an_config a = cfg \<and> an_ioc a = None"
  using configured.view_invariant [where P = "\<lambda>_ s. s = (cfg, None)"] by (auto simp: an_new_def)

end
