(* ===== verification/Views.thy ===== *)
theory Views
  imports Analyzer Beacon
begin

text \<open>
  \<open>analysis/mod.rs\<close>, the part that reads the indexes: the talker and service tables, the beacon
  candidates and the indicator matches, with the row types of \<open>analysis/report.rs\<close>.  The lemmas show
  that the tables hold the totals of the flows and hosts they stand for, and that they do not depend
  on the order in which a hash map is iterated.
\<close>

section \<open>Rows\<close>

record talker_stat =
  ta_address :: string
  ta_packets_sent :: nat
  ta_packets_received :: nat
  ta_bytes_sent :: nat
  ta_bytes_received :: nat
  ta_total_bytes :: nat
  ta_peers :: nat
  ta_private :: bool

record service_stat =
  sv_service :: string
  sv_port :: u16
  sv_protocol :: string
  sv_flows :: nat
  sv_packets :: nat
  sv_bytes :: nat

record ioc_hit =
  ih_kind :: string
  ih_indicator :: string
  ih_observed :: string
  ih_context :: string
  ih_source :: string
  ih_tag :: "string option"
  ih_count :: nat

record ioc_match_set =
  ims_indicators_loaded :: nat
  ims_sources :: "source_info list"
  ims_ip :: "ioc_hit list"
  ims_domain :: "ioc_hit list"
  ims_ja3 :: "ioc_hit list"

definition ims_is_empty :: "ioc_match_set \<Rightarrow> bool" where
  "ims_is_empty m \<longleftrightarrow> ims_ip m = [] \<and> ims_domain m = [] \<and> ims_ja3 m = []"

definition ims_total :: "ioc_match_set \<Rightarrow> nat" where
  "ims_total m = length (ims_ip m) + length (ims_domain m) + length (ims_ja3 m)"

section \<open>Talkers\<close>

definition talker_row :: "ip_addr \<times> host_stat \<Rightarrow> talker_stat" where
  "talker_row = (\<lambda>(ip, s).
     \<lparr>ta_address = show_ip ip, ta_packets_sent = ho_packets_sent s,
      ta_packets_received = ho_packets_received s, ta_bytes_sent = ho_bytes_sent s,
      ta_bytes_received = ho_bytes_received s,
      ta_total_bytes = ho_bytes_sent s + ho_bytes_received s,
      ta_peers = length (ho_peers s), ta_private = is_private ip\<rparr>)"

definition talker_le :: "talker_stat \<Rightarrow> talker_stat \<Rightarrow> bool" where
  "talker_le a b \<longleftrightarrow> ta_total_bytes b < ta_total_bytes a \<or>
     (ta_total_bytes a = ta_total_bytes b \<and> ta_address a \<le> ta_address b)"

definition top_talkers :: "nat \<Rightarrow> analyzer \<Rightarrow> talker_stat list" where
  "top_talkers n a = take n (sort_by talker_le (map talker_row (an_hosts a)))"

section \<open>Services\<close>

definition service_new :: "flow \<Rightarrow> u16 \<Rightarrow> string \<Rightarrow> service_stat" where
  "service_new f port name =
     \<lparr>sv_service = name, sv_port = port, sv_protocol = proto_name (flow_key.fk_protocol (fl_key f)),
      sv_flows = 0, sv_packets = 0, sv_bytes = 0\<rparr>"

definition service_add :: "flow \<Rightarrow> service_stat \<Rightarrow> service_stat" where
  "service_add f e =
     e\<lparr>sv_flows := sv_flows e + 1, sv_packets := sv_packets e + fl_packets f,
       sv_bytes := sv_bytes e + fl_bytes f\<rparr>"

definition service_step :: "flow \<Rightarrow> (u8 \<times> u16, service_stat) btree \<Rightarrow> (u8 \<times> u16, service_stat) btree" where
  "service_step f m =
     (case fl_service f of
        None \<Rightarrow> m
      | Some (_, port, name) \<Rightarrow>
          bt_entry (service_new f port name) (service_add f) (flow_key.fk_protocol (fl_key f), port) m)"

definition service_le :: "service_stat \<Rightarrow> service_stat \<Rightarrow> bool" where
  "service_le a b \<longleftrightarrow>
     sv_bytes b < sv_bytes a \<or>
     (sv_bytes a = sv_bytes b \<and>
       (sv_service a < sv_service b \<or> (sv_service a = sv_service b \<and> sv_port a \<le> sv_port b)))"

definition service_map :: "flow list \<Rightarrow> (u8 \<times> u16, service_stat) btree" where
  "service_map fs = foldl (\<lambda>m f. service_step f m) [] fs"

definition services :: "nat \<Rightarrow> analyzer \<Rightarrow> service_stat list" where
  "services n a = take n (sort_by service_le (map snd (service_map (map snd (an_flows a)))))"

section \<open>Beacons\<close>

definition beacon_of :: "analysis_config \<Rightarrow> flow \<Rightarrow> beacon_score option" where
  "beacon_of cfg f =
     (let stats = client_stats f in
      if ds_packets stats < cf_beacon_min_packets cfg then None
      else
        case score_intervals (ds_timestamps stats) of
          None \<Rightarrow> None
        | Some score \<Rightarrow>
            if bc_jitter score > cf_beacon_max_jitter cfg
              \<or> bc_interval score < fst (cf_beacon_interval_range cfg)
              \<or> bc_interval score > snd (cf_beacon_interval_range cfg)
            then None
            else
              let (server_ip, server_port) = fl_server f in
              Some (score\<lparr>bc_flow := show_flow_key (fl_key f),
                bc_destination := show_ip server_ip @ '':'' @ show_nat (unat server_port),
                bc_sni := fl_sni f, bc_samples_truncated := ds_samples_truncated stats\<rparr>))"

definition beacon_le :: "beacon_score \<Rightarrow> beacon_score \<Rightarrow> bool" where
  "beacon_le a b \<longleftrightarrow> bc_confidence b < bc_confidence a \<or>
     (bc_confidence a = bc_confidence b \<and> bc_flow a \<le> bc_flow b)"

definition beacons :: "analyzer \<Rightarrow> beacon_score list" where
  "beacons a = sort_by beacon_le (List.map_filter (beacon_of (an_config a)) (map snd (an_flows a)))"

section \<open>Indicator matches\<close>

definition hit_le :: "ioc_hit \<Rightarrow> ioc_hit \<Rightarrow> bool" where
  "hit_le a b \<longleftrightarrow> ih_count b < ih_count a \<or>
     (ih_count a = ih_count b \<and> ih_observed a \<le> ih_observed b)"

fun ip_hits :: "ioc_set \<Rightarrow> (ip_addr \<times> host_stat) list \<Rightarrow> ioc_hit list dres" where
  "ip_hits s [] = Ok []"
| "ip_hits s ((ip, stat) # hosts) =
     and_then (match_ip s ip) (\<lambda>m.
     and_then (ip_hits s hosts) (\<lambda>hits.
     Ok (case m of
           None \<Rightarrow> hits
         | Some h \<Rightarrow>
             \<lparr>ih_kind = ''ip'', ih_indicator = im_indicator h, ih_observed = show_ip ip,
              ih_context = ''host'', ih_source = im_source h, ih_tag = im_tag h,
              ih_count = ho_packets_sent stat + ho_packets_received stat\<rparr> # hits)))"

type_synonym note_map = "(string, ioc_match \<times> string btset \<times> nat) btree"

definition note_domain :: "ioc_set \<Rightarrow> string \<Rightarrow> string \<Rightarrow> nat \<Rightarrow> note_map \<Rightarrow> note_map" where
  "note_domain s observed src cnt m =
     (case match_domain s observed of
        None \<Rightarrow> m
      | Some hit \<Rightarrow>
          bt_entry (hit, [], 0) (\<lambda>(h, seen, n). (h, bs_insert src seen, n + cnt))
            (to_ascii_lowercase observed) m)"

definition domain_notes :: "ioc_set \<Rightarrow> analyzer \<Rightarrow> note_map" where
  "domain_notes s a =
     (let m = foldl (\<lambda>m (name, st). note_domain s name ''dns'' (dn_queries st + dn_responses st) m) []
            (dx_names (an_dns a));
          m = foldl (\<lambda>m (host, cnt). note_domain s host ''http'' cnt m) m (hx_hosts (an_http a)) in
      foldl (\<lambda>m (sni, cnt). note_domain s sni ''sni'' cnt m) m (tx_sni (an_tls a)))"

definition domain_hit :: "string \<times> ioc_match \<times> string btset \<times> nat \<Rightarrow> ioc_hit" where
  "domain_hit = (\<lambda>(observed, hit, seen, cnt).
     \<lparr>ih_kind = ''domain'', ih_indicator = im_indicator hit, ih_observed = observed,
      ih_context = join ''/'' seen, ih_source = im_source hit, ih_tag = im_tag hit, ih_count = cnt\<rparr>)"

definition ja3_hit :: "ioc_set \<Rightarrow> string \<times> nat \<times> string option \<Rightarrow> ioc_hit option" where
  "ja3_hit s = (\<lambda>(hash, cnt, sni).
     map_option (\<lambda>hit.
       \<lparr>ih_kind = ''ja3'', ih_indicator = im_indicator hit, ih_observed = hash,
        ih_context = (case sni of Some n \<Rightarrow> ''tls client sni='' @ n | None \<Rightarrow> ''tls client''),
        ih_source = im_source hit, ih_tag = im_tag hit, ih_count = cnt\<rparr>)
     (match_ja3 s hash))"

definition ioc_matches :: "analyzer \<Rightarrow> ioc_match_set option dres" where
  "ioc_matches a =
     (case an_ioc a of
        None \<Rightarrow> Ok None
      | Some s \<Rightarrow>
          and_then (ip_hits s (an_hosts a)) (\<lambda>ips.
          Ok (Some
            \<lparr>ims_indicators_loaded = ioc_len s, ims_sources = is_manifest s,
             ims_ip = sort_by hit_le ips,
             ims_domain = sort_by hit_le (map domain_hit (domain_notes s a)),
             ims_ja3 = sort_by hit_le (List.map_filter (ja3_hit s) (tx_ja3 (an_tls a)))\<rparr>)))"

definition unanswered_syn_count :: "analyzer \<Rightarrow> nat" where
  "unanswered_syn_count a =
     length (filter (\<lambda>f. flow_key.fk_protocol (fl_key f) = TCP \<and> is_unanswered_syn f) (map snd (an_flows a)))"

section \<open>The orders are total\<close>

interpretation talker: total_preorder talker_le
  by unfold_locales (auto simp: talker_le_def)

interpretation service: total_preorder service_le
  by unfold_locales (auto simp: service_le_def)

interpretation beacon: total_preorder beacon_le
  by unfold_locales (auto simp: beacon_le_def)

interpretation hit: total_preorder hit_le
  by unfold_locales (auto simp: hit_le_def)

section \<open>Tables do not depend on the iteration order\<close>

text \<open>
  The talker table is the same whatever the iteration order of the host map, provided different
  hosts print differently.
\<close>

lemma talkers_order_independent:
  assumes "mset (an_hosts a) = mset (an_hosts b)" and "distinct (map (show_ip \<circ> fst) (an_hosts a))"
  shows "top_talkers n a = top_talkers n b"
proof -
  have inj: "x = y" if "x \<in> set (an_hosts a)" "y \<in> set (an_hosts a)"
    "ta_address (talker_row x) = ta_address (talker_row y)" for x y
  proof (rule inj_onD [of "show_ip \<circ> fst" "set (an_hosts a)"])
    show "inj_on (show_ip \<circ> fst) (set (an_hosts a))" using assms(2) by (simp add: distinct_map)
  qed (use that in \<open>simp_all add: talker_row_def case_prod_beta\<close>)
  have "sort_by talker_le (map talker_row (an_hosts a)) = sort_by talker_le (map talker_row (an_hosts b))"
  proof (rule talker.sort_by_unique)
    fix x y
    assume x: "x \<in> set (map talker_row (an_hosts a))" and y: "y \<in> set (map talker_row (an_hosts a))"
      and "talker_le x y" "talker_le y x"
    then have "ta_address x = ta_address y" by (auto simp: talker_le_def)
    then show "x = y" using x y inj by auto
  qed (simp add: assms(1))
  then show ?thesis by (simp add: top_talkers_def)
qed

lemma talkers_order_independent_witness:
  "top_talkers 20 ((an_new config_default)\<lparr>an_hosts := [(V4 [10, 0, 0, 1], host_default), (V4 [10, 0, 0, 2], host_default)]\<rparr>) =
   top_talkers 20 ((an_new config_default)\<lparr>an_hosts := [(V4 [10, 0, 0, 2], host_default), (V4 [10, 0, 0, 1], host_default)]\<rparr>)"
proof (rule talkers_order_independent)
  have "show_ip (V4 [10, 0, 0, 1]) \<noteq> show_ip (V4 [10, 0, 0, 2])" by code_simp
  then show "distinct (map (show_ip \<circ> fst)
      (an_hosts ((an_new config_default)\<lparr>an_hosts := [(V4 [10, 0, 0, 1], host_default), (V4 [10, 0, 0, 2], host_default)]\<rparr>)))"
    by (simp del: show_ip.simps)
qed simp

text \<open>The flows a service row stands for.\<close>

definition service_key :: "flow \<Rightarrow> (u8 \<times> u16) option" where
  "service_key f =
     map_option (\<lambda>(_, port, _). (flow_key.fk_protocol (fl_key f), port)) (fl_service f)"

definition service_flows :: "flow list \<Rightarrow> u8 \<times> u16 \<Rightarrow> flow list" where
  "service_flows fs k = filter (\<lambda>f. service_key f = Some k) fs"

definition service_totals :: "flow list \<Rightarrow> u8 \<times> u16 \<Rightarrow> service_stat option" where
  "service_totals fs = (\<lambda>(protocol, port).
     let gs = service_flows fs (protocol, port) in
     if gs = [] then None
     else Some
       \<lparr>sv_service = unwrap_or '''' (service_name port (protocol = TCP)), sv_port = port,
        sv_protocol = proto_name protocol, sv_flows = length gs,
        sv_packets = sum_list (map fl_packets gs), sv_bytes = sum_list (map fl_bytes gs)\<rparr>)"

lemma fl_service_name:
  "fl_service f = Some (ip, port, name) \<Longrightarrow>
     service_name port (flow_key.fk_protocol (fl_key f) = TCP) = Some name"
  by (auto simp: fl_service_def Let_def split: prod.splits option.splits)

lemma service_map_snoc: "service_map (fs @ [f]) = service_step f (service_map fs)"
  by (simp add: service_map_def)

lemma service_map_valid: "bt_valid (service_map fs)"
  by (induction fs rule: rev_induct)
    (auto simp: service_map_snoc service_step_def split: option.splits, simp add: service_map_def)

lemma service_flows_snoc:
  "service_flows (fs @ [f]) k = service_flows fs k @ (if service_key f = Some k then [f] else [])"
  by (simp add: service_flows_def)

lemma map_of_bt_entry:
  "map_of (bt_entry d g k m) k' = (if k' = k then Some (g (unwrap_or d (map_of m k))) else map_of m k')"
  by (simp add: bt_entry_def map_of_bt_put)

lemma service_map_totals: "map_of (service_map fs) = service_totals fs"
proof (induction fs rule: rev_induct)
  case Nil
  show ?case by (simp add: service_map_def service_totals_def service_flows_def fun_eq_iff)
next
  case (snoc f fs)
  show ?case
  proof (cases "fl_service f")
    case None
    then show ?thesis
      using snoc by (simp add: service_map_snoc service_step_def service_totals_def service_flows_snoc service_key_def)
  next
    case (Some x)
    obtain ip port name where x: "x = (ip, port, name)" by (cases x) auto
    let ?p = "flow_key.fk_protocol (fl_key f)"
    have name: "service_name port (?p = TCP) = Some name"
      using fl_service_name [of f ip port name] Some x by simp
    have key: "service_key f = Some (?p, port)" by (simp add: service_key_def Some x)
    have "map_of (service_step f (service_map fs)) k = service_totals (fs @ [f]) k" for k
    proof (cases "k = (?p, port)")
      case True
      then show ?thesis
        by (auto simp: service_step_def Some x map_of_bt_entry snoc service_totals_def service_flows_snoc
            key Let_def service_add_def service_new_def name)
    next
      case False
      then show ?thesis
        by (auto simp: service_step_def Some x map_of_bt_entry snoc service_totals_def service_flows_snoc
            key split: prod.splits)
    qed
    then show ?thesis by (simp add: service_map_snoc fun_eq_iff)
  qed
qed

lemma service_totals_mset:
  assumes "mset fs = mset gs" shows "service_totals fs = service_totals gs"
proof -
  have m: "mset (service_flows fs k) = mset (service_flows gs k)" for k
    using assms by (simp add: service_flows_def mset_filter)
  have "length (service_flows fs k) = length (service_flows gs k)"
    "(service_flows fs k = []) = (service_flows gs k = [])"
    "sum_list (map g (service_flows fs k)) = sum_list (map g (service_flows gs k))" for k and g :: "flow \<Rightarrow> nat"
    using m [of k] by (metis size_mset, metis mset_zero_iff, metis mset_map sum_mset_sum_list)
  then show ?thesis by (auto simp: service_totals_def fun_eq_iff Let_def)
qed

text \<open>
  The service table has one row for each protocol and port that some flow is recognised by, with
  exactly the number, the packets and the bytes of those flows; it does not depend on the iteration
  order of the flow table.
\<close>

lemma service_rows_total:
  "map_of (service_map (map snd flows)) = service_totals (map snd flows) \<and>
   (mset flows = mset flows' \<longrightarrow>
      services n (a\<lparr>an_flows := flows\<rparr>) = services n (a\<lparr>an_flows := flows'\<rparr>))"
proof -
  have "service_map (map snd flows) = service_map (map snd flows')" if "mset flows = mset flows'"
    by (rule bt_ext [OF service_map_valid service_map_valid])
      (use that in \<open>simp add: service_map_totals service_totals_mset [of "map snd flows" "map snd flows'"]\<close>)
  then show ?thesis by (simp add: service_map_totals services_def)
qed

definition two_flows :: flow_table where
  "two_flows =
     (let k1 = FlowKey (V4 [10, 0, 0, 1]) 53 (V4 [10, 0, 0, 2]) 4000 17;
          k2 = FlowKey (V4 [10, 0, 0, 1]) 80 (V4 [10, 0, 0, 2]) 4000 6 in
      [(k1, flow_new k1 ts_zero BToA), (k2, flow_new k2 ts_zero BToA)])"

lemma service_rows_total_witness:
  "services 20 ((an_new config_default)\<lparr>an_flows := two_flows\<rparr>) =
   services 20 ((an_new config_default)\<lparr>an_flows := rev two_flows\<rparr>)"
  using service_rows_total [of two_flows "rev two_flows" 20 "an_new config_default"] by simp

section \<open>Indicator matches are complete\<close>

definition packet_wf :: "decoded_packet \<Rightarrow> bool" where
  "packet_wf p \<longleftrightarrow> pred_option ip_wf (src_ip p) \<and> pred_option ip_wf (dst_ip p)"

lemma returns_match_ip:
  assumes "ioc_ok s" and "ip_wf ip"
  shows "\<exists>m. match_ip s ip = (Ok m :: (_, 'e) res)"
proof -
  obtain r where "find_cidr ip (is_cidrs s) = (Ok r :: (_, 'e) res)"
    using find_cidr_total [of "is_cidrs s" ip, where ?'e = 'e] assms by (auto simp: ioc_ok_def)
  then show ?thesis by (auto simp: match_ip_def split: option.splits)
qed

lemma ip_hits_observed:
  assumes "ioc_ok s" and "\<forall>ip \<in> fst ` set hosts. ip_wf ip"
  shows "returns (\<lambda>hits. ih_observed ` set hits =
    show_ip ` {ip \<in> fst ` set hosts. match_ip s ip \<noteq> (Ok None :: _ dres)}) (ip_hits s hosts)"
  using assms(2)
proof (induction hosts)
  case (Cons h hosts)
  obtain ip stat where h: "h = (ip, stat)" by force
  obtain m where m: "match_ip s ip = (Ok m :: _ dres)"
    using returns_match_ip [OF assms(1), of ip] Cons.prems by (auto simp: h)
  from Cons obtain hits where "ip_hits s hosts = Ok hits"
    "ih_observed ` set hits = show_ip ` {ip \<in> fst ` set hosts. match_ip s ip \<noteq> (Ok None :: _ dres)}"
    by (cases "ip_hits s hosts") auto
  then show ?case by (cases m) (auto simp: h m)
qed simp

definition ioc_report_ok :: "ioc_set \<Rightarrow> decoded_packet list \<Rightarrow> ioc_match_set option \<Rightarrow> bool" where
  "ioc_report_ok s ps r \<longleftrightarrow>
     (case r of
        None \<Rightarrow> ioc_is_empty s
      | Some m \<Rightarrow>
          ims_indicators_loaded m = ioc_len s \<and> sorted_wrt hit_le (ims_ip m) \<and>
          ih_observed ` set (ims_ip m) =
            show_ip ` {ip. (\<exists>p \<in> set ps. src_ip p = Some ip \<or> dst_ip p = Some ip) \<and>
              match_ip s ip \<noteq> (Ok None :: _ dres)})"

lemma ioc_matches_ok:
  assumes "list_all packet_wf ps" and "conserved ps a" and "pred_option ioc_ok (an_ioc a)"
  shows "returns (\<lambda>r. case an_ioc a of None \<Rightarrow> r = None | Some s \<Rightarrow> ioc_report_ok s ps r) (ioc_matches a)"
proof (cases "an_ioc a")
  case None
  then show ?thesis by (simp add: ioc_matches_def)
next
  case (Some s)
  have keys: "fst ` set (an_hosts a) = {ip. \<exists>p \<in> set ps. src_ip p = Some ip \<or> dst_ip p = Some ip}"
    using assms(2) by (simp add: conserved_def hosted_ok_def)
  have wf: "\<forall>ip \<in> fst ` set (an_hosts a). ip_wf ip"
    unfolding keys using assms(1) by (fastforce simp: packet_wf_def list_all_iff)
  have "returns (\<lambda>hits. ih_observed ` set hits =
      show_ip ` {ip. (\<exists>p \<in> set ps. src_ip p = Some ip \<or> dst_ip p = Some ip) \<and>
        match_ip s ip \<noteq> (Ok None :: _ dres)}) (ip_hits s (an_hosts a))"
    using assms(3) by (intro returns_mono [OF ip_hits_observed [OF _ wf]]) (simp_all only: keys mem_Collect_eq Some option.pred_inject)
  then show ?thesis
    by (cases "ip_hits s (an_hosts a)")
      (auto simp: Some ioc_matches_def ioc_report_ok_def hit.sorted_sort_by)
qed

lemma set_iocs_parts [simp]:
  "analyzer_ok (set_iocs s a) = analyzer_ok a" "conserved ps (set_iocs s a) = conserved ps a"
  "pred_option ioc_ok (an_ioc (set_iocs s a)) = (ioc_is_empty s \<or> ioc_ok s)"
  by (simp_all add: set_iocs_def analyzer_ok_def conserved_def)

lemma ioc_matches_run:
  assumes "ioc_ok s" and "\<forall>p \<in> fst ` set ps. packet_wf p" and "observe_all md5 ps (an_new cfg) = Ok a"
  shows "returns (ioc_report_ok s (map fst ps)) (ioc_matches (set_iocs s a))"
proof (rule returns_mono [OF ioc_matches_ok])
  show "list_all packet_wf (map fst ps)" using assms(2) by (auto simp: list_all_iff)
  show "conserved (map fst ps) (set_iocs s a)" using conserved_run [OF assms(3)] by simp
  show "pred_option ioc_ok (an_ioc (set_iocs s a))" using assms(1) by simp
qed (auto simp: set_iocs_def ioc_report_ok_def split: if_splits)

text \<open>
  C10. Matching indicators after a capture never fails, and reports exactly those endpoints of the
  captured packets that the indicator set matches, strongest first; no report is made only when no
  indicator was loaded.
\<close>

theorem ioc_hits_complete:
  assumes "ioc_ok s" and "\<forall>p \<in> fst ` set ps. packet_wf p"
  shows "returns (\<lambda>a. returns (ioc_report_ok s (map fst ps)) (ioc_matches (set_iocs s a)))
    (observe_all md5 ps (an_new cfg))"
  by (rule returns_run) (rule ioc_matches_run [OF assms])

theorem ioc_hits_complete_witness:
  "returns (\<lambda>a. returns (ioc_report_ok (ioc_default\<lparr>is_ips := [(V4 [10, 0, 0, 2], \<lparr>pv_source = ''manual'', pv_tag = None\<rparr>)]\<rparr>)
      [sample_packet [10, 0, 0, 1] [10, 0, 0, 2] (sample_tcp 1025 80 0 SYN) 0 0])
    (ioc_matches (set_iocs (ioc_default\<lparr>is_ips := [(V4 [10, 0, 0, 2], \<lparr>pv_source = ''manual'', pv_tag = None\<rparr>)]\<rparr>) a)))
    (observe_all (\<lambda>bs. bs) [(sample_packet [10, 0, 0, 1] [10, 0, 0, 2] (sample_tcp 1025 80 0 SYN) 0 0, [])]
      (an_new config_default))"
  using ioc_hits_complete [of "ioc_default\<lparr>is_ips := [(V4 [10, 0, 0, 2], \<lparr>pv_source = ''manual'', pv_tag = None\<rparr>)]\<rparr>"
      "[(sample_packet [10, 0, 0, 1] [10, 0, 0, 2] (sample_tcp 1025 80 0 SYN) 0 0, [])]" "\<lambda>bs. bs" config_default]
  by (simp add: ioc_ok_def ioc_default_def hm_valid_def packet_wf_def sample_packet_def sample_ip_def
      src_ip_def dst_ip_def)

end
