(* ===== verification/Findings.thy ===== *)
theory Findings
  imports Views Human Entropy
begin

text \<open>
  \<open>analysis/findings.rs\<close>: the heuristics that turn the indexes into findings.  Each heuristic is a
  function from the analyzer to the findings it pushes (none or one, up to three for the indicators);
  \<open>collect\<close> runs them in the code's order and sorts by severity and id.  Percentages and ratios are
  exact rationals, the entropy is a real number, an infinite ratio is \<open>None\<close>.  The theorems relate
  single findings to the packets of the capture: a port scan and an ARP conflict are reported exactly
  when the packets show one.
\<close>

section \<open>Findings\<close>

datatype severity = SevInfo | SevLow | SevMedium | SevHigh

fun sev_rank :: "severity \<Rightarrow> nat" where
  "sev_rank SevInfo = 0"
| "sev_rank SevLow = 1"
| "sev_rank SevMedium = 2"
| "sev_rank SevHigh = 3"

lemma sev_rank_inj [simp]: "sev_rank a = sev_rank b \<longleftrightarrow> a = b"
  by (cases a; cases b) simp_all

text \<open>The derived order of the enum.\<close>

instantiation severity :: linorder
begin

definition less_eq_severity :: "severity \<Rightarrow> severity \<Rightarrow> bool" where
  "less_eq_severity a b \<longleftrightarrow> sev_rank a \<le> sev_rank b"

definition less_severity :: "severity \<Rightarrow> severity \<Rightarrow> bool" where
  "less_severity a b \<longleftrightarrow> sev_rank a < sev_rank b"

instance
  by standard (auto simp: less_eq_severity_def less_severity_def)

end

fun show_severity :: "severity \<Rightarrow> string" where
  "show_severity SevInfo = ''info''"
| "show_severity SevLow = ''low''"
| "show_severity SevMedium = ''medium''"
| "show_severity SevHigh = ''high''"

record finding =
  fg_id :: string
  fg_severity :: severity
  fg_title :: string
  fg_detail :: string
  fg_evidence :: "string list"
  fg_technique :: "string list"

definition fg_new :: "string \<Rightarrow> severity \<Rightarrow> string \<Rightarrow> string \<Rightarrow> finding" where
  "fg_new slug sev title detail =
     \<lparr>fg_id = slug, fg_severity = sev, fg_title = title, fg_detail = detail, fg_evidence = [],
      fg_technique = []\<rparr>"

definition fg_with :: "string list \<Rightarrow> finding \<Rightarrow> finding" where
  "fg_with evidence f = f\<lparr>fg_evidence := take 12 evidence\<rparr>"

definition fg_attack :: "string list \<Rightarrow> finding \<Rightarrow> finding" where
  "fg_attack ids f = f\<lparr>fg_technique := ids\<rparr>"

text \<open>The two characters outside ASCII the texts use, as UTF-8.\<close>

definition em_dash :: string where "em_dash = [CHR 0xE2, CHR 0x80, CHR 0x94]"
definition arrow :: string where "arrow = [CHR 0xE2, CHR 0x86, CHR 0x92]"

text \<open>\<open>sni=\<dots>\<close> behind an evidence line, when there is one.\<close>

definition show_sni :: "string option \<Rightarrow> string" where
  "show_sni sni = (case sni of None \<Rightarrow> '''' | Some s \<Rightarrow> '' sni='' @ s)"

section \<open>Indicators\<close>

definition ioc_evidence :: "ioc_hit \<Rightarrow> string" where
  "ioc_evidence h =
     ih_indicator h @ '' '' @ arrow @ '' '' @ ih_observed h @ '' ['' @ ih_context h @ ''] via '' @
     ih_source h @ (case ih_tag h of None \<Rightarrow> '''' | Some t \<Rightarrow> '' ('' @ t @ '')'')"

definition ioc_finding :: "string \<Rightarrow> string \<Rightarrow> string \<Rightarrow> string \<Rightarrow> ioc_hit list \<Rightarrow> finding list" where
  "ioc_finding slug title detail unit hits =
     (if hits = [] then []
      else [fg_with (map (\<lambda>h. ioc_evidence h @ '' ('' @ show_nat (ih_count h) @ '' '' @ unit @ '')'') hits)
              (fg_new slug SevHigh (show_nat (length hits) @ title) detail)])"

definition ioc_hits :: "analyzer \<Rightarrow> finding list dres" where
  "ioc_hits a =
     and_then (ioc_matches a) (\<lambda>r.
     Ok (case r of
           None \<Rightarrow> []
         | Some m \<Rightarrow>
             ioc_finding ''ioc-ip-match'' '' host(s) matched an IP/CIDR indicator''
               (''An address in the capture matches a threat-intel indicator. Confirm the source is current and the indicator specific '' @
                em_dash @ '' recycled cloud addresses and broad ranges produce stale hits.'')
               ''packet(s)'' (ims_ip m) @
             ioc_finding ''ioc-domain-match'' '' name(s) matched a domain indicator''
               (''A DNS name, HTTP host or TLS SNI matches a threat-intel domain. A parent-domain indicator also matches its subdomains, so a shared-hosting or CDN parent can catch benign names '' @
                em_dash @ '' check which subdomain actually appears.'')
               ''lookup(s)/hit(s)'' (ims_domain m) @
             ioc_finding ''ioc-ja3-match'' '' TLS client(s) matched a JA3 indicator''
               (''A TLS ClientHello fingerprint matches a threat-intel JA3 hash. JA3 identifies the client stack, not the host, so a shared library or common tool can share a fingerprint with the flagged one '' @
                em_dash @ '' corroborate with the destination before escalating.'')
               ''handshake(s)'' (ims_ja3 m)))"

section \<open>Timing and names\<close>

definition beacon_evidence :: "beacon_score \<Rightarrow> string" where
  "beacon_evidence b =
     bc_flow b @ '' every '' @ human_duration (bc_interval b) @ '' (jitter '' @
     human_percent (bc_jitter b) @ '', '' @ show_nat (bc_samples b) @ '' samples, confidence '' @
     fmt_fixed 2 (bc_confidence b) @ '')'' @ show_sni (bc_sni b)"

definition beaconing :: "analyzer \<Rightarrow> finding list" where
  "beaconing a =
     (let bs = beacons a in
      if bs = [] then []
      else
        let strong = length (filter (\<lambda>b. bc_confidence b \<ge> 8 / 10) bs);
            sev = (if strong > 0 then SevHigh else SevMedium) in
        [fg_with (map beacon_evidence (take 12 bs)) (fg_attack [''T1071'']
           (fg_new ''periodic-beaconing'' sev
              (show_nat (length bs) @ '' flow(s) with machine-regular timing'')
              (''Inter-arrival times are far more regular than human-driven traffic. Scheduled jobs and telemetry agents look like this too '' @
               em_dash @ '' confirm the process behind the connection before escalating.'')))])"

definition tunnel_hits :: "analyzer \<Rightarrow> (string \<times> nat) list" where
  "tunnel_hits a =
     map (\<lambda>(parent, subs). (parent, length subs))
       (filter (\<lambda>(parent, subs). length subs \<ge> cf_dns_subdomain_threshold (an_config a))
          (dx_subdomains (an_dns a)))"

definition dns_tunnelling :: "analyzer \<Rightarrow> finding list" where
  "dns_tunnelling a =
     (let hits = tunnel_hits a in
      if hits = [] then []
      else
        let hits = sort_by (\<lambda>x y. snd y \<le> snd x) hits;
            line = (\<lambda>(parent, cnt).
              let sample = (case map_of (dx_subdomains (an_dns a)) parent of
                    Some (s # _) \<Rightarrow> s | _ \<Rightarrow> '''') in
              parent @ '': '' @ show_nat cnt @ '' distinct subdomains, e.g. '' @ sample) in
        [fg_with (map line (take 12 hits)) (fg_attack [''T1071.004'']
           (fg_new ''dns-subdomain-volume'' SevHigh
              (show_nat (length hits) @ '' domain(s) queried with unusually many subdomains'')
              ''A high count of distinct subdomains under one parent is the standard signature of DNS tunnelling or data staging over DNS. CDNs and some AV vendors also generate these, so check the parent domain's reputation.''))])"

definition first_label :: "string \<Rightarrow> string" where
  "first_label name = hd (split_on CHR ''.'' name)"

definition dga_hits :: "analyzer \<Rightarrow> (string \<times> real \<times> nat) list" where
  "dga_hits a =
     List.map_filter (\<lambda>(name, st).
       let label = first_label name in
       if length label < 12 then None
       else
         let entropy = shannon_entropy label in
         if entropy \<ge> of_rat (cf_dns_entropy_threshold (an_config a))
         then Some (name, entropy, dn_queries st + dn_responses st) else None)
       (dx_names (an_dns a))"

definition nxdomain_of :: "analyzer \<Rightarrow> string \<Rightarrow> nat" where
  "nxdomain_of a name =
     (case map_of (dx_names (an_dns a)) name of None \<Rightarrow> 0 | Some st \<Rightarrow> dn_nxdomain st)"

definition dga_like_names :: "analyzer \<Rightarrow> finding list" where
  "dga_like_names a =
     (let hits = dga_hits a in
      if hits = [] then []
      else
        let hits = sort_by (\<lambda>x y. fst (snd y) \<le> fst (snd x)) hits;
            nxdomain_heavy = length (filter (\<lambda>(n, _, _). nxdomain_of a n > 0) hits);
            sev = (if nxdomain_heavy > 2 then SevHigh else SevMedium);
            line = (\<lambda>(name, entropy, cnt).
              let nx = nxdomain_of a name in
              name @ '' (entropy '' @ fmt_fixed 2 entropy @ '' bits/char, '' @ show_nat cnt @ '' lookups'' @
              (if nx > 0 then '', '' @ show_nat nx @ '' NXDOMAIN'' else '''') @ '')'') in
        [fg_with (map line (take 12 hits)) (fg_attack [''T1568.002'']
           (fg_new ''high-entropy-dns'' sev
              (show_nat (length hits) @ '' high-entropy DNS name(s)'')
              ''Randomised-looking labels are produced by domain generation algorithms and by encoded tunnel payloads. Cloud and CDN infrastructure also uses hashed hostnames, so correlate with the parent domain before acting.''))])"

section \<open>Scans and uploads\<close>

text \<open>\<open>iter().max().unwrap_or(0)\<close>\<close>

definition max_or_0 :: "nat list \<Rightarrow> nat" where
  "max_or_0 ns = foldl max 0 ns"

definition scan_hits :: "analyzer \<Rightarrow> (string \<times> nat \<times> nat) list" where
  "scan_hits a =
     List.map_filter (\<lambda>(ip, stat).
       let widest = max_or_0 (map (\<lambda>(_, ports). length ports) (ho_scanned_ports stat));
           total_targets = length (filter (\<lambda>(_, ports). length ports > 1) (ho_scanned_ports stat)) in
       if widest \<ge> cf_scan_port_threshold (an_config a)
       then Some (show_ip ip, widest, total_targets) else None)
       (an_hosts a)"

definition port_scanning :: "analyzer \<Rightarrow> finding list" where
  "port_scanning a =
     (let hits = scan_hits a in
      if hits = [] then []
      else
        let hits = sort_by (\<lambda>x y. fst (snd y) \<le> fst (snd x)) hits;
            unanswered = unanswered_syn_count a;
            line = (\<lambda>(ip, widest, targets).
              ip @ '': up to '' @ show_nat widest @ '' ports probed on a single host, '' @
              show_nat targets @ '' host(s) targeted'') in
        [fg_with (map line (take 12 hits)) (fg_attack [''T1046'']
           (fg_new ''port-scan'' SevHigh
              (show_nat (length hits) @ '' host(s) exhibiting port-scan behaviour'')
              (''SYNs were sent to many ports on the same destination. '' @ show_nat unanswered @
               '' TCP flow(s) in this capture never received a reply, which is consistent with scanning closed or filtered ports. Vulnerability scanners and monitoring agents produce the same pattern.'')))])"

definition is_egress :: "analysis_config \<Rightarrow> flow \<Rightarrow> bool" where
  "is_egress cfg f \<longleftrightarrow>
     fl_scope f = ScopeOutbound \<and>
     ds_payload_bytes (client_stats f) \<ge> cf_exfil_bytes_threshold cfg \<and>
     (case upload_ratio f of None \<Rightarrow> True | Some r \<Rightarrow> r \<ge> cf_exfil_ratio_threshold cfg)"

definition egress_line :: "flow \<Rightarrow> string" where
  "egress_line f =
     show_flow_key (fl_key f) @ '' sent '' @ human_bytes (ds_payload_bytes (client_stats f)) @
     '' up vs '' @ human_bytes (ds_payload_bytes (server_stats f)) @ '' down (ratio '' @
     (case upload_ratio f of None \<Rightarrow> ''inf'' | Some r \<Rightarrow> fmt_fixed 1 r) @ ''x) over '' @
     human_duration (duration_secs f) @ show_sni (fl_sni f)"

definition data_egress :: "analyzer \<Rightarrow> finding list" where
  "data_egress a =
     (let hits = filter (is_egress (an_config a)) (map snd (an_flows a));
          worst = max_or_0 (map (\<lambda>f. ds_payload_bytes (client_stats f)) hits) in
      if hits = [] then []
      else
        [fg_with (map egress_line hits) (fg_attack [''T1048'']
           (fg_new ''outbound-upload-heavy'' SevMedium
              (show_nat (length hits) @ '' outbound flow(s) dominated by upload'')
              (''Internal hosts pushed substantially more data out than they pulled back (largest single flow: '' @
               human_bytes worst @ ''). Backups, cloud sync and CI artefact uploads look identical '' @
               em_dash @ '' confirm the destination is expected.'')))])"

section \<open>Cleartext and obsolete protocols\<close>

definition cleartext_credentials :: "analyzer \<Rightarrow> finding list" where
  "cleartext_credentials a =
     (if hx_cleartext_auth (an_http a) = 0 then []
      else
        [fg_with (hx_credential_requests (an_http a)) (fg_attack [''T1040'']
           (fg_new ''cleartext-http-credentials'' SevHigh
              (''HTTP Authorization sent in the clear on '' @ show_nat (hx_cleartext_auth (an_http a)) @ '' request(s)'')
              ''Credentials travelled over unencrypted HTTP and are recoverable by anyone on the path. The header values are not stored by this tool; re-run with the capture in a packet viewer if you need to confirm the account.''))])"

definition cleartext_line :: "flow \<Rightarrow> string option" where
  "cleartext_line f =
     (case fl_service f of
        None \<Rightarrow> None
      | Some (ip, port, _) \<Rightarrow>
          (case is_cleartext_service port (flow_key.fk_protocol (fl_key f) = TCP) of
             None \<Rightarrow> None
           | Some name \<Rightarrow>
               if ds_payload_bytes (fl_a_to_b f) + ds_payload_bytes (fl_b_to_a f) = 0 then None
               else Some (name @ '' on '' @ show_ip ip @ '':'' @ show_nat (unat port) @ '' '' @ em_dash @ '' '' @
                 human_bytes (fl_bytes f) @ '' across '' @ show_nat (fl_packets f) @ '' packet(s)'')))"

definition cleartext_services :: "analyzer \<Rightarrow> finding list" where
  "cleartext_services a =
     (let hits = List.map_filter cleartext_line (map snd (an_flows a)) in
      if hits = [] then []
      else
        let hits = remdups_adj (sort_by (\<le>) hits) in
        [fg_with hits (fg_attack [''T1040'']
           (fg_new ''cleartext-service'' SevLow
              (show_nat (length hits) @ '' unencrypted service flow(s)'')
              ''These protocols carry their payload, and often their authentication, without transport encryption.''))])"

definition obsolete_line :: "flow \<Rightarrow> string option" where
  "obsolete_line f =
     (case fl_tls_version f of
        None \<Rightarrow> None
      | Some v \<Rightarrow>
          if 0x0300 \<le> v \<and> v \<le> 0x0302
          then Some (show_flow_key (fl_key f) @ '' '' @ version_name v @ show_sni (fl_sni f)) else None)"

definition obsolete_tls :: "analyzer \<Rightarrow> finding list" where
  "obsolete_tls a =
     (if tx_obsolete_versions (an_tls a) = 0 then []
      else
        [fg_with (take 12 (List.map_filter obsolete_line (map snd (an_flows a)))) (fg_attack [''T1040'']
           (fg_new ''obsolete-tls'' SevMedium
              (show_nat (tx_obsolete_versions (an_tls a)) @ '' TLS handshake(s) negotiated a deprecated version'')
              ''SSL 3.0 / TLS 1.0 / TLS 1.1 are deprecated and have known downgrade and padding-oracle weaknesses. Trace these back to the client or appliance that cannot negotiate anything newer.''))])"

section \<open>Overlaps, ARP and the capture itself\<close>

definition overlapping_segments :: "analyzer \<Rightarrow> finding list" where
  "overlapping_segments a =
     (let n = rs_conflicting_overlaps (ra_stats (an_reassembly a)) in
      if n = 0 then []
      else
        [fg_with [show_nat n @ '' conflicting overlap(s) across '' @ show_nat (ra_tracked (an_reassembly a)) @
             '' tracked stream(s); first writer was kept'']
           (fg_new ''tcp-overlap-conflict'' SevMedium
              (show_nat n @ '' TCP segment(s) overlapped earlier data with different bytes'')
              (''Retransmissions normally repeat what they replace. A disagreement means the same sequence range carried two different payloads, which is how an attacker makes a monitor and the destination host read different requests. Duplicated capture points and rewriting middleboxes produce it too '' @
               em_dash @ '' check whether the capture merges more than one tap before escalating.''))])"

definition fragment_overlap :: "analyzer \<Rightarrow> finding list" where
  "fragment_overlap a =
     (let n = is_conflicting_overlaps (ir_stats (an_ip_reassembly a)) in
      if n = 0 then []
      else
        [fg_with [show_nat n @ '' conflicting fragment overlap(s) across '' @
             show_nat (ir_tracked (an_ip_reassembly a)) @ '' tracked datagram(s); first writer was kept'']
           (fg_new ''ip-fragment-overlap'' SevMedium
              (show_nat n @ '' IP fragment(s) overlapped earlier data with different bytes'')
              (''Fragments of one datagram should not disagree about the same bytes. When they do, a monitor and the destination host can reassemble different datagrams from the same fragments '' @
               em_dash @ '' the teardrop / fragment-overlap evasion. A misbehaving fragmenting router or a capture that merges more than one tap produces it too; check the capture topology before escalating.''))])"

definition conflict_lines :: "analyzer \<Rightarrow> string list" where
  "conflict_lines a =
     map (\<lambda>(ip, macs). show_ip (V4 ip) @ '' claimed by '' @ join '', '' (map show_mac macs))
       (filter (\<lambda>(_, macs). length macs > 1) (ax_bindings (an_arp a)))"

definition arp_conflicts :: "analyzer \<Rightarrow> finding list" where
  "arp_conflicts a =
     (let conflicts = conflict_lines a in
      if conflicts = [] then []
      else
        [fg_with conflicts (fg_attack [''T1557.002'']
           (fg_new ''arp-address-conflict'' SevHigh
              (show_nat (length conflicts) @ '' IP(s) claimed by more than one MAC'')
              ''Multiple hardware addresses answered for the same IP. This is the signature of ARP cache poisoning, but it is also produced by HA failover pairs, clustered virtual IPs and misconfigured static addressing.''))])"

text \<open>\<open>if c { notes.push(note) }\<close>\<close>

definition note_if :: "bool \<Rightarrow> string \<Rightarrow> string list" where
  "note_if c note = (if c then [note] else [])"

definition quality_notes :: "analyzer \<Rightarrow> string list" where
  "quality_notes a =
     (let c = an_counters a; ipre = ir_stats (an_ip_reassembly a); re = ra_stats (an_reassembly a);
          pct = of_nat (cn_truncated_packets c) / of_nat (max (cn_packets c) 1) * (100 :: rat);
          external_only = list_all (\<lambda>(ip, _). \<not> is_private ip) (an_hosts a) in
      note_if (cn_truncated_packets c > 0)
        (show_nat (cn_truncated_packets c) @ '' of '' @ show_nat (cn_packets c) @ '' packets ('' @
         fmt_fixed 1 pct @ ''%) were cut short by the capture snaplen '' @ em_dash @
         '' application-layer decoding is incomplete for those'') @
      note_if (cn_decode_warnings c > 0)
        (show_nat (cn_decode_warnings c) @ '' decode warning(s) were raised across the capture'') @
      note_if (cn_fragments c > 0)
        (show_nat (cn_fragments c) @ '' IP fragment(s) seen; '' @ show_nat (is_reassembled ipre) @
         '' datagram(s) were reassembled from them and re-decoded, recovering transport and application detail single fragments could not carry'') @
      note_if (is_dropped_datagrams ipre > 0)
        (show_nat (is_dropped_datagrams ipre) @
         '' fragmented datagram(s) went untracked because the reassembly table was full, so their later fragments were not rebuilt'') @
      note_if (rs_recovered re > 0)
        (show_nat (rs_recovered re) @
         '' application message(s) were only readable after TCP stream reassembly; single-segment decoding alone would have missed them'') @
      note_if (rs_dropped_streams re > 0)
        (show_nat (rs_dropped_streams re) @
         '' TCP direction(s) went untracked because the reassembly stream table was full, so split messages on those were not rebuilt'') @
      note_if (an_hosts a \<noteq> [] \<and> external_only)
        ''No RFC1918 / link-local addresses were observed, so internal-vs-external flow classification is not meaningful for this capture'')"

definition capture_quality :: "analyzer \<Rightarrow> finding list" where
  "capture_quality a =
     (let notes = quality_notes a in
      if notes = [] then []
      else
        [fg_with notes
           (fg_new ''capture-quality'' SevInfo ''Capture caveats affecting confidence''
              ''Conditions in the capture itself that limit what the analysis can see.'')])"

section \<open>All of them\<close>

definition finding_le :: "finding \<Rightarrow> finding \<Rightarrow> bool" where
  "finding_le x y \<longleftrightarrow> fg_severity y < fg_severity x \<or>
     (fg_severity x = fg_severity y \<and> fg_id x \<le> fg_id y)"

definition heuristics :: "analyzer \<Rightarrow> finding list" where
  "heuristics a =
     beaconing a @ dns_tunnelling a @ dga_like_names a @ port_scanning a @ data_egress a @
     cleartext_credentials a @ cleartext_services a @ obsolete_tls a @ overlapping_segments a @
     fragment_overlap a @ arp_conflicts a @ capture_quality a"

definition collect :: "analyzer \<Rightarrow> finding list dres" where
  "collect a = and_then (ioc_hits a) (\<lambda>out. Ok (sort_by finding_le (out @ heuristics a)))"

interpretation findings: total_preorder finding_le
  by unfold_locales (auto simp: finding_le_def)

section \<open>The list of findings\<close>

text \<open>A heuristic pushes nothing, or one finding with its own id and at most twelve pieces of evidence.\<close>

definition at_most_one :: "string \<Rightarrow> finding list \<Rightarrow> bool" where
  "at_most_one slug fs \<longleftrightarrow>
     (case fs of
        [] \<Rightarrow> True
      | [f] \<Rightarrow> fg_id f = slug \<and> length (fg_evidence f) \<le> 12 \<and>
          (fg_evidence f \<noteq> [] \<or> slug = ''obsolete-tls'')
      | _ \<Rightarrow> False)"

lemma at_most_one_Nil [simp]: "at_most_one slug []"
  by (simp add: at_most_one_def)

lemma at_most_one_finding [simp]:
  "at_most_one slug [fg_with ev (fg_attack ids (fg_new slug' sev title detail))] \<longleftrightarrow>
     slug' = slug \<and> (ev \<noteq> [] \<or> slug = ''obsolete-tls'')"
  "at_most_one slug [fg_with ev (fg_new slug' sev title detail)] \<longleftrightarrow>
     slug' = slug \<and> (ev \<noteq> [] \<or> slug = ''obsolete-tls'')"
  by (auto simp: at_most_one_def fg_with_def fg_attack_def fg_new_def)

lemma at_most_one_ids: "at_most_one slug fs \<Longrightarrow> fg_id ` set fs = (if fs = [] then {} else {slug})"
  by (auto simp: at_most_one_def split: list.splits)

lemma sort_by_Nil_iff [simp]: "sort_by le xs = [] \<longleftrightarrow> xs = []"
  by (metis mset_sort_by mset_zero_iff)

lemma at_most_one_heuristics:
  "at_most_one ''periodic-beaconing'' (beaconing a)"
  "at_most_one ''dns-subdomain-volume'' (dns_tunnelling a)"
  "at_most_one ''high-entropy-dns'' (dga_like_names a)"
  "at_most_one ''port-scan'' (port_scanning a)"
  "at_most_one ''outbound-upload-heavy'' (data_egress a)"
  "at_most_one ''cleartext-service'' (cleartext_services a)"
  "at_most_one ''obsolete-tls'' (obsolete_tls a)"
  "at_most_one ''tcp-overlap-conflict'' (overlapping_segments a)"
  "at_most_one ''ip-fragment-overlap'' (fragment_overlap a)"
  "at_most_one ''arp-address-conflict'' (arp_conflicts a)"
  "at_most_one ''capture-quality'' (capture_quality a)"
  by (simp_all add: beaconing_def dns_tunnelling_def dga_like_names_def port_scanning_def data_egress_def
      cleartext_services_def obsolete_tls_def overlapping_segments_def fragment_overlap_def
      arp_conflicts_def capture_quality_def Let_def)

lemma at_most_one_credentials:
  "analyzer_ok a \<Longrightarrow> at_most_one ''cleartext-http-credentials'' (cleartext_credentials a)"
  by (auto simp: cleartext_credentials_def analyzer_ok_def)

lemma at_most_one_ioc: "at_most_one slug (ioc_finding slug title detail unit hits)"
  by (simp add: ioc_finding_def)

definition SLUGS :: "string list" where
  "SLUGS =
     [''ioc-ip-match'', ''ioc-domain-match'', ''ioc-ja3-match'', ''periodic-beaconing'',
      ''dns-subdomain-volume'', ''high-entropy-dns'', ''port-scan'', ''outbound-upload-heavy'',
      ''cleartext-http-credentials'', ''cleartext-service'', ''obsolete-tls'', ''tcp-overlap-conflict'',
      ''ip-fragment-overlap'', ''arp-address-conflict'', ''capture-quality'']"

lemma distinct_SLUGS: "distinct SLUGS"
  by (simp add: SLUGS_def)

definition evidence_ok :: "finding \<Rightarrow> bool" where
  "evidence_ok f \<longleftrightarrow> fg_id f \<in> set SLUGS \<and> length (fg_evidence f) \<le> 12 \<and>
     (fg_evidence f \<noteq> [] \<or> fg_id f = ''obsolete-tls'')"

definition findings_ok :: "finding list \<Rightarrow> bool" where
  "findings_ok fs \<longleftrightarrow> sorted_wrt finding_le fs \<and> distinct (map fg_id fs) \<and> list_all evidence_ok fs"

lemma at_most_one_all:
  "list_all2 at_most_one slugs fss \<Longrightarrow> distinct slugs \<Longrightarrow> set slugs \<subseteq> set SLUGS \<Longrightarrow>
     distinct (map fg_id (concat fss)) \<and> list_all evidence_ok (concat fss) \<and>
     fg_id ` set (concat fss) \<subseteq> set slugs"
proof (induction rule: list_all2_induct)
  case (Cons slug slugs fs fss)
  have one: "distinct (map fg_id fs)" "list_all evidence_ok fs" "fg_id ` set fs \<subseteq> {slug}"
    using Cons.hyps(1) Cons.prems(2) by (auto simp: at_most_one_def evidence_ok_def split: list.splits)
  have rest: "distinct (map fg_id (concat fss))" "list_all evidence_ok (concat fss)"
    "fg_id ` set (concat fss) \<subseteq> set slugs"
    using Cons by auto
  have "slug \<notin> set slugs" using Cons.prems(1) by simp
  then have "fg_id ` set fs \<inter> fg_id ` set (concat fss) = {}"
    using one(3) rest(3) by blast
  then have "distinct (map fg_id (fs @ concat fss))"
    using one(1) rest(1) by (simp only: map_append distinct_append set_map)
  moreover have "fg_id ` set (fs @ concat fss) \<subseteq> set (slug # slugs)"
    using one(3) rest(3) by (simp only: set_append image_Un set_simps) blast
  ultimately show ?case using one(2) rest(2) by (simp only: concat.simps list_all_append simp_thms)
qed simp

lemma findings_ok_sort:
  assumes "distinct (map fg_id fs)" and "list_all evidence_ok fs"
  shows "findings_ok (sort_by finding_le fs)"
proof -
  have "mset (map fg_id (sort_by finding_le fs)) = mset (map fg_id fs)" by simp
  then have "distinct (map fg_id (sort_by finding_le fs))" using assms(1) by (metis mset_eq_imp_distinct_iff)
  then show ?thesis
    using assms(2) by (simp add: findings_ok_def findings.sorted_sort_by list_all_iff)
qed

lemma collect_ok:
  assumes "analyzer_ok a" and "ioc_matches a = Ok r"
  shows "returns findings_ok (collect a)"
proof -
  let ?h = "[beaconing a, dns_tunnelling a, dga_like_names a, port_scanning a, data_egress a,
     cleartext_credentials a, cleartext_services a, obsolete_tls a, overlapping_segments a,
     fragment_overlap a, arp_conflicts a, capture_quality a]"
  obtain x y z where h: "ioc_hits a = Ok (x @ y @ z)" "at_most_one ''ioc-ip-match'' x"
    "at_most_one ''ioc-domain-match'' y" "at_most_one ''ioc-ja3-match'' z"
  proof (cases r)
    case None
    with assms(2) that [of "[]" "[]" "[]"] show thesis by (simp add: ioc_hits_def)
  next
    case (Some m)
    with assms(2) show thesis
      by (intro that) (auto simp: ioc_hits_def intro: at_most_one_ioc)
  qed
  have "list_all2 at_most_one SLUGS (x # y # z # ?h)"
    using h by (simp add: SLUGS_def at_most_one_heuristics at_most_one_credentials [OF assms(1)])
  from at_most_one_all [OF this distinct_SLUGS subset_refl]
  have "findings_ok (sort_by finding_le (concat (x # y # z # ?h)))" by (intro findings_ok_sort) auto
  moreover have "(x @ y @ z) @ heuristics a = concat (x # y # z # ?h)" by (simp add: heuristics_def)
  ultimately show ?thesis by (simp only: collect_def h(1) and_then.simps returns_simps)
qed

text \<open>
  C9. After any capture, with or without indicators, the findings come without failure, most severe
  first and by id within a severity, each at most once, each with a known id and at most twelve pieces
  of evidence; only the obsolete-TLS finding can be without evidence.
\<close>

theorem findings_well_formed:
  assumes "ioc_ok s" and "\<forall>p \<in> fst ` set ps. packet_wf p"
  shows "returns (\<lambda>a. returns findings_ok (collect (set_iocs s a))) (observe_all md5 ps (an_new cfg))"
proof (rule returns_run)
  fix a assume a: "observe_all md5 ps (an_new cfg) = Ok a" "analyzer_ok a"
  obtain r where r: "ioc_matches (set_iocs s a) = Ok r"
    using ioc_matches_run [OF assms a(1)] by (cases "ioc_matches (set_iocs s a)") auto
  have "analyzer_ok (set_iocs s a)" using a(2) by (simp add: analyzer_ok_def set_iocs_def)
  from collect_ok [OF this r] show "returns findings_ok (collect (set_iocs s a))" .
qed

theorem findings_well_formed_witness:
  "returns (\<lambda>a. returns findings_ok (collect (set_iocs ioc_default a)))
     (observe_all (\<lambda>bs. bs) [(sample_packet [10, 0, 0, 1] [10, 0, 0, 2] (sample_tcp 1025 80 0 SYN) 0 0, [])]
       (an_new config_default))"
  by (rule findings_well_formed)
    (simp_all add: packet_wf_def sample_packet_def sample_ip_def src_ip_def dst_ip_def)

section \<open>What the findings say about the packets\<close>

lemma collect_run:
  assumes "observe_all md5 ps (an_new cfg) = Ok a"
  shows "collect a = Ok (sort_by finding_le (heuristics a))"
  using config_run [OF assms] by (simp add: collect_def ioc_hits_def ioc_matches_def)

lemma reported:
  assumes "analyzer_ok a"
  shows "''port-scan'' \<in> fg_id ` set (heuristics a) \<longleftrightarrow> scan_hits a \<noteq> []"
    and "''arp-address-conflict'' \<in> fg_id ` set (heuristics a) \<longleftrightarrow> conflict_lines a \<noteq> []"
proof -
  have "port_scanning a = [] \<longleftrightarrow> scan_hits a = []" "arp_conflicts a = [] \<longleftrightarrow> conflict_lines a = []"
    by (simp_all add: port_scanning_def arp_conflicts_def Let_def)
  then show "''port-scan'' \<in> fg_id ` set (heuristics a) \<longleftrightarrow> scan_hits a \<noteq> []"
    and "''arp-address-conflict'' \<in> fg_id ` set (heuristics a) \<longleftrightarrow> conflict_lines a \<noteq> []"
    by (simp_all add: heuristics_def image_Un at_most_one_heuristics [THEN at_most_one_ids]
        at_most_one_credentials [OF assms, THEN at_most_one_ids])
qed

lemma max_or_0_ge: "0 < n \<Longrightarrow> n \<le> max_or_0 ns \<longleftrightarrow> (\<exists>m \<in> set ns. n \<le> m)"
proof -
  have "n \<le> foldl max k ns \<longleftrightarrow> n \<le> k \<or> (\<exists>m \<in> set ns. n \<le> m)" for k
    by (induction ns arbitrary: k) auto
  then show "0 < n \<Longrightarrow> n \<le> max_or_0 ns \<longleftrightarrow> (\<exists>m \<in> set ns. n \<le> m)" by (simp add: max_or_0_def)
qed

lemma map_filter_Nil: "List.map_filter f xs = [] \<longleftrightarrow> (\<forall>x \<in> set xs. f x = None)"
  by (induction xs) (auto simp: List.map_filter_def)

lemma scan_hits_iff:
  assumes "hosts_ok (an_hosts a)" and "0 < cf_scan_port_threshold (an_config a)"
  shows "scan_hits a \<noteq> [] \<longleftrightarrow>
    (\<exists>src dst. cf_scan_port_threshold (an_config a) \<le> length (scanned (an_hosts a) src dst))"
proof
  let ?t = "cf_scan_port_threshold (an_config a)"
  have inner: "hm_valid (ho_scanned_ports st)" if "(ip, st) \<in> set (an_hosts a)" for ip st
    using assms(1) that by (auto simp: hosts_ok_def host_ok_def hm_all_def)
  have outer: "hm_valid (an_hosts a)" using assms(1) by (simp add: hosts_ok_def hm_all_def)
  {
    assume "scan_hits a \<noteq> []"
    then obtain ip st dst ports where m: "(ip, st) \<in> set (an_hosts a)"
      "(dst, ports) \<in> set (ho_scanned_ports st)" "?t \<le> length ports"
      by (auto simp: scan_hits_def map_filter_Nil Let_def max_or_0_ge [OF assms(2)] split: if_splits)
    then have "map_of (an_hosts a) ip = Some st" "map_of (ho_scanned_ports st) dst = Some ports"
      using outer inner [OF m(1)] by (auto simp: hm_valid_def intro: map_of_is_SomeI)
    then show "\<exists>src dst. ?t \<le> length (scanned (an_hosts a) src dst)"
      using m(3) by (intro exI [of _ ip] exI [of _ dst]) (simp add: scanned_def)
  next
    assume "\<exists>src dst. ?t \<le> length (scanned (an_hosts a) src dst)"
    then obtain src dst where t: "?t \<le> length (scanned (an_hosts a) src dst)" by blast
    then obtain st ports where "map_of (an_hosts a) src = Some st" "map_of (ho_scanned_ports st) dst = Some ports"
      "?t \<le> length ports"
      using assms(2) by (auto simp: scanned_def unwrap_or_def host_default_def split: option.splits)
    then have "(src, st) \<in> set (an_hosts a)" "(dst, ports) \<in> set (ho_scanned_ports st)" "?t \<le> length ports"
      by (auto dest: map_of_SomeD)
    moreover from this have "?t \<le> max_or_0 (map (\<lambda>(_, ports). length ports) (ho_scanned_ports st))"
      by (subst max_or_0_ge [OF assms(2)]) force
    ultimately show "scan_hits a \<noteq> []"
      unfolding scan_hits_def map_filter_Nil by (auto simp: Let_def intro!: bexI [of _ "(src, st)"])
  }
qed

lemma scan_hits_run:
  assumes "observe_all md5 ps (an_new cfg) = Ok a" and "analyzer_ok a" and "0 < cf_scan_port_threshold cfg"
  shows "scan_hits a \<noteq> [] \<longleftrightarrow>
    (\<exists>src dst. cf_scan_port_threshold cfg \<le> card (\<Union>p \<in> fst ` set ps. probes p src dst))"
proof -
  have h: "hosts_ok (an_hosts a)" and c: "an_config a = cfg"
    using config_run [OF assms(1)] assms(2) by (auto simp: analyzer_ok_def)
  have "length (scanned (an_hosts a) src dst) = card (\<Union>p \<in> fst ` set ps. probes p src dst)" for src dst
    using scanned_run [OF assms(1)] length_set [OF hosts_ok_scanned [OF h]] by metis
  then show ?thesis using scan_hits_iff [OF h] assms(3) by (simp add: c)
qed

lemma port_scan_is_high: "scan_hits a \<noteq> [] \<Longrightarrow> \<exists>f \<in> set (heuristics a). fg_id f = ''port-scan'' \<and> fg_severity f = SevHigh"
  by (auto simp: heuristics_def port_scanning_def Let_def fg_with_def fg_attack_def fg_new_def)

text \<open>
  C11. A port scan is reported exactly when some source sent bare SYNs to at least the threshold number
  of different ports of one destination, counted over the packets of the capture.
\<close>

theorem port_scan_reported_iff:
  assumes "0 < cf_scan_port_threshold cfg"
  shows "returns (\<lambda>a. returns (\<lambda>fs. ''port-scan'' \<in> fg_id ` set fs \<longleftrightarrow>
      (\<exists>src dst. cf_scan_port_threshold cfg \<le> card (\<Union>p \<in> fst ` set ps. probes p src dst))) (collect a))
    (observe_all md5 ps (an_new cfg))"
proof (rule returns_run)
  fix a assume a: "observe_all md5 ps (an_new cfg) = Ok a" "analyzer_ok a"
  show "returns (\<lambda>fs. ''port-scan'' \<in> fg_id ` set fs \<longleftrightarrow>
      (\<exists>src dst. cf_scan_port_threshold cfg \<le> card (\<Union>p \<in> fst ` set ps. probes p src dst))) (collect a)"
    using reported(1) [OF a(2)] scan_hits_run [OF a assms] by (simp add: collect_run [OF a(1)])
qed

theorem port_scan_reported_iff_witness:
  "returns (\<lambda>a. returns (\<lambda>fs. ''port-scan'' \<in> fg_id ` set fs \<longleftrightarrow>
      (\<exists>src dst. 15 \<le> card (\<Union>p \<in> fst ` set (syn_scan 20). probes p src dst))) (collect a))
    (observe_all (\<lambda>bs. bs) (syn_scan 20) (an_new config_default))"
  using port_scan_reported_iff [of config_default "syn_scan 20" "\<lambda>bs. bs"] by (simp add: config_default_def)

lemma conflict_lines_iff:
  assumes "arp_ok (an_arp a)"
  shows "conflict_lines a \<noteq> [] \<longleftrightarrow> (\<exists>ip. 2 \<le> length (bound_macs (an_arp a) ip))"
proof
  have valid: "hm_valid (ax_bindings (an_arp a))" using assms by (simp add: arp_ok_def hm_all_def)
  {
    assume "conflict_lines a \<noteq> []"
    then obtain ip macs where "(ip, macs) \<in> set (ax_bindings (an_arp a))" "1 < length macs"
      by (auto simp: conflict_lines_def filter_empty_conv)
    then have "map_of (ax_bindings (an_arp a)) ip = Some macs" "2 \<le> length macs"
      using valid by (auto simp: hm_valid_def intro: map_of_is_SomeI)
    then show "\<exists>ip. 2 \<le> length (bound_macs (an_arp a) ip)"
      by (intro exI [of _ ip]) (simp add: bound_macs_def)
  next
    assume "\<exists>ip. 2 \<le> length (bound_macs (an_arp a) ip)"
    then obtain ip macs where "map_of (ax_bindings (an_arp a)) ip = Some macs" "1 < length macs"
      by (auto simp: bound_macs_def unwrap_or_def split: option.splits)
    then show "conflict_lines a \<noteq> []"
      by (auto simp: conflict_lines_def filter_empty_conv dest!: map_of_SomeD)
  }
qed

lemma conflict_lines_run:
  assumes "observe_all md5 ps (an_new cfg) = Ok a" and "analyzer_ok a"
  shows "conflict_lines a \<noteq> [] \<longleftrightarrow> (\<exists>ip. 2 \<le> card (\<Union>p \<in> fst ` set ps. arp_claims p ip))"
proof -
  have h: "arp_ok (an_arp a)" using assms(2) by (simp add: analyzer_ok_def)
  have "length (bound_macs (an_arp a) ip) = card (\<Union>p \<in> fst ` set ps. arp_claims p ip)" for ip
    using bound_run [OF assms(1)] length_set [OF arp_ok_bound [OF h]] by metis
  then show ?thesis using conflict_lines_iff [OF h] by simp
qed


section \<open>Which names can be flagged\<close>

lemma log2_13: "log 2 13 < (38 / 10 :: real)"
proof -
  have "5 * log 2 13 = log 2 ((13 :: real) ^ 5)" by (subst log_nat_power) auto
  moreover have "log 2 ((2 :: real) ^ 19) = 19" by (subst log_nat_power) auto
  moreover have "log 2 ((13 :: real) ^ 5) < log 2 (2 ^ 19)" by (subst log_less_cancel_iff) auto
  ultimately show ?thesis by linarith
qed

text \<open>
  With the default threshold no name is flagged as machine-generated unless its first label has at
  least 14 characters: the documented minimum of 12 is not enough for an entropy of 3.8 bits.
\<close>

lemma flagged_label_length:
  "list_all (\<lambda>(name, entropy, n). 14 \<le> length (first_label name) \<and> 38 / 10 \<le> entropy \<and> entropy \<le> 8)
     (dga_hits (a\<lparr>an_config := config_default\<rparr>))"
proof -
  have "14 \<le> length l" if "38 / 10 \<le> shannon_entropy l" for l
  proof (rule ccontr)
    assume "\<not> 14 \<le> length l"
    then have "log 2 (real (max 1 (length l))) \<le> log 2 13" by (intro log_mono) auto
    then show False using that entropy_upper [of l] log2_13 by linarith
  qed
  then show ?thesis
    by (auto simp: list_all_iff dga_hits_def List.map_filter_def config_default_def Let_def of_rat_divide
        entropy_upper8 split: if_splits)
qed

section \<open>A finding without evidence\<close>

definition sample_hello :: "tls_kind \<Rightarrow> u16 \<Rightarrow> tls_hello" where
  "sample_hello kind version =
     \<lparr>th_kind = kind, th_record_version = 0x0301, th_negotiated_version = version, th_sni = None,
      th_alpn = [], th_cipher_suites = [], th_extensions = [], th_ja3 = '''', th_ja3_md5 = '''',
      th_session_id_len = 0, th_complete = True\<rparr>"

text \<open>A ClientHello that offers TLS 1.0, and the server's answer on the same flow.\<close>

definition upgraded_handshake :: "(decoded_packet \<times> bytes) list" where
  "upgraded_handshake =
     [((sample_packet [10, 0, 0, 1] [10, 0, 0, 2] (sample_tcp 50000 443 1 ACK) 0 0)
         \<lparr>pk_app := AppTls (sample_hello Client 0x0301)\<rparr>, []),
      ((sample_packet [10, 0, 0, 2] [10, 0, 0, 1] (sample_tcp 443 50000 1 ACK) 0 0)
         \<lparr>pk_app := AppTls (sample_hello Server 0x0303)\<rparr>, [])]"

lemma tls_packet: "an_tls (index_packet p a) =
    (case pk_app p of AppTls h \<Rightarrow> index_tls h (an_tls a) | _ \<Rightarrow> an_tls a)"
  by (simp add: index_packet_def Let_def index_hosts_def index_arp_def index_app_def split: app_layer.splits)

lemma observe_complete:
  assumes "pk_transport p = TrTcp t" and "from_packet p = Some k" and "is_complete (pk_app p)"
    and "frag_info p = None"
  shows "observe md5 p frame a = Ok ((index_packet p a)\<lparr>an_reassembly := ra_close k (an_reassembly a)\<rparr>)"
  using assms by (simp add: observe_def Let_def ra_push_def ir_push_def)

lemma upgraded_parts:
  "list_all (\<lambda>(p, _). (case pk_transport p of TrTcp _ \<Rightarrow> True | _ \<Rightarrow> False) \<and> from_packet p \<noteq> None \<and>
     is_complete (pk_app p) \<and> frag_info p = None) upgraded_handshake"
  "List.map_filter obsolete_line
     (map snd (foldl (\<lambda>m (p, _). snd (ft_observe p m)) [] upgraded_handshake)) = []"
  by code_simp+

text \<open>
  The obsolete-TLS finding can be without any evidence: a ClientHello that offers TLS 1.0 is
  counted, but once the server has answered with a newer version no flow is listed.
\<close>

lemma obsolete_tls_without_evidence:
  "returns (\<lambda>a. map (\<lambda>f. (fg_id f, fg_evidence f)) (obsolete_tls a) = [(''obsolete-tls'', [])])
    (observe_all (\<lambda>bs. bs) upgraded_handshake (an_new config_default))"
proof -
  obtain p q where pq: "upgraded_handshake = [(p, []), (q, [])]"
    and app: "pk_app p = AppTls (sample_hello Client 0x0301)" "pk_app q = AppTls (sample_hello Server 0x0303)"
    by (simp add: upgraded_handshake_def)
  obtain k t k' t' where *: "pk_transport p = TrTcp t" "from_packet p = Some k" "is_complete (pk_app p)"
    "frag_info p = None" "pk_transport q = TrTcp t'" "from_packet q = Some k'" "is_complete (pk_app q)"
    "frag_info q = None"
    using upgraded_parts(1) by (auto simp: pq split: transport_layer.splits)
  show ?thesis
    using upgraded_parts(2)
    by (simp add: pq observe_complete [OF *(1-4)] observe_complete [OF *(5-8)] obsolete_tls_def fg_with_def
        fg_attack_def fg_new_def tls_packet app an_new_def index_tls_def sample_hello_def
        is_obsolete_version_def)
qed

end
