(* ===== verification/Report.thy ===== *)
theory Report
  imports Findings
begin

text \<open>
  \<open>analysis/report.rs\<close>: the report built from the analyzer.  The tool's version string and the time of
  the build are parameters; the serialisation of the records is left out.  The theorems show that the
  summary is about exactly the packets of the capture and that no table of the report leaves out a row
  that outweighs one it lists.
\<close>

section \<open>Rows\<close>

record protocol_counts =
  pc_ipv4 :: nat
  pc_ipv6 :: nat
  pc_arp :: nat
  pc_tcp :: nat
  pc_udp :: nat
  pc_icmp :: nat
  pc_other :: nat
  pc_fragments :: nat

record summary =
  su_packets :: nat
  su_bytes :: nat
  su_captured_bytes :: nat
  su_flows :: nat
  su_hosts :: nat
  su_first_seen :: "string option"
  su_last_seen :: "string option"
  su_duration_secs :: rat
  su_packets_per_sec :: rat
  su_bits_per_sec :: rat
  su_truncated_packets :: nat
  su_decode_warnings :: nat
  su_counts :: protocol_counts

record flow_summary =
  fy_flow :: string
  fy_source :: string
  fy_destination :: string
  fy_protocol :: string
  fy_service :: "string option"
  fy_scope :: string
  fy_packets :: nat
  fy_bytes :: nat
  fy_bytes_up :: nat
  fy_bytes_down :: nat
  fy_duration_secs :: rat
  fy_first_seen :: string
  fy_last_seen :: string
  fy_sni :: "string option"
  fy_ja3 :: "string option"
  fy_protocols :: "string list"
  fy_reset :: bool
  fy_resolved_dest :: "string option"

record dns_overview =
  do_unique_names :: nat
  do_queries :: nat
  do_nxdomain :: nat
  do_servers :: "(string \<times> nat) list"
  do_top_names :: "(string \<times> nat) list"
  do_top_parents :: "(string \<times> nat) list"

record tls_overview =
  to_handshakes :: nat
  to_unique_sni :: nat
  to_no_sni :: nat
  to_obsolete_versions :: nat
  to_top_sni :: "(string \<times> nat) list"
  to_top_ja3 :: "(string \<times> nat \<times> string option) list"

record http_overview =
  ho_requests :: nat
  ho_responses :: nat
  ho_cleartext_auth :: nat
  ho_top_hosts :: "(string \<times> nat) list"
  ho_top_user_agents :: "(string \<times> nat) list"

record report =
  re_schema_version :: nat
  re_tool :: string
  re_generated_at :: string
  re_source :: string
  re_summary :: summary
  re_findings :: "finding list"
  re_talkers :: "talker_stat list"
  re_services :: "service_stat list"
  re_top_flows :: "flow_summary list"
  re_beacons :: "beacon_score list"
  re_dns :: dns_overview
  re_tls :: tls_overview
  re_http :: http_overview
  re_timeline :: "(int \<times> nat \<times> nat) list"
  re_ioc :: "ioc_match_set option"

definition SCHEMA_VERSION :: nat where "SCHEMA_VERSION = 1"

section \<open>Building\<close>

definition rate :: "rat \<Rightarrow> rat \<Rightarrow> rat" where
  "rate tot dur = (if 0 < dur then tot / dur else 0)"

definition counts_of :: "counters \<Rightarrow> protocol_counts" where
  "counts_of c =
     \<lparr>pc_ipv4 = cn_ipv4 c, pc_ipv6 = cn_ipv6 c, pc_arp = cn_arp c, pc_tcp = cn_tcp c,
      pc_udp = cn_udp c, pc_icmp = cn_icmp c, pc_other = cn_other_l3 c, pc_fragments = cn_fragments c\<rparr>"

definition summary_of :: "analyzer \<Rightarrow> summary" where
  "summary_of a =
     (let duration = an_duration a; c = an_counters a in
      \<lparr>su_packets = cn_packets c, su_bytes = cn_bytes c, su_captured_bytes = cn_captured_bytes c,
       su_flows = length (an_flows a), su_hosts = length (an_hosts a),
       su_first_seen = map_option to_rfc3339 (cn_first_seen c),
       su_last_seen = map_option to_rfc3339 (cn_last_seen c),
       su_duration_secs = duration,
       su_packets_per_sec = rate (of_nat (cn_packets c)) duration,
       su_bits_per_sec = rate (of_nat (cn_bytes c) * 8) duration,
       su_truncated_packets = cn_truncated_packets c, su_decode_warnings = cn_decode_warnings c,
       su_counts = counts_of c\<rparr>)"

definition show_endpoint :: "ip_addr \<times> u16 \<Rightarrow> string" where
  "show_endpoint = (\<lambda>(ip, port). show_ip ip @ '':'' @ show_nat (unat port))"

definition flow_summary_of :: "dns_index \<Rightarrow> flow \<Rightarrow> flow_summary" where
  "flow_summary_of dns f =
     \<lparr>fy_flow = show_flow_key (fl_key f), fy_source = show_endpoint (fl_client f),
      fy_destination = show_endpoint (fl_server f),
      fy_protocol = proto_name (flow_key.fk_protocol (fl_key f)),
      fy_service = map_option (\<lambda>(_, _, name). name) (fl_service f),
      fy_scope = show_flow_scope (fl_scope f), fy_packets = fl_packets f, fy_bytes = fl_bytes f,
      fy_bytes_up = ds_bytes (client_stats f), fy_bytes_down = ds_bytes (server_stats f),
      fy_duration_secs = duration_secs f, fy_first_seen = to_rfc3339 (fl_first_seen f),
      fy_last_seen = to_rfc3339 (fl_last_seen f), fy_sni = fl_sni f, fy_ja3 = fl_ja3 f,
      fy_protocols = fl_protocols f, fy_reset = was_reset f,
      fy_resolved_dest = name_for dns (fst (fl_server f))\<rparr>"

text \<open>Largest count first, ties by name: the order of every top table.\<close>

definition count_le :: "string \<times> nat \<Rightarrow> string \<times> nat \<Rightarrow> bool" where
  "count_le x y \<longleftrightarrow> snd y < snd x \<or> (snd x = snd y \<and> fst x \<le> fst y)"

definition top_map :: "(string \<times> nat) list \<Rightarrow> nat \<Rightarrow> (string \<times> nat) list" where
  "top_map m n = take n (sort_by count_le m)"

definition ja3_le :: "string \<times> nat \<times> string option \<Rightarrow> string \<times> nat \<times> string option \<Rightarrow> bool" where
  "ja3_le x y \<longleftrightarrow> fst (snd y) < fst (snd x) \<or> (fst (snd x) = fst (snd y) \<and> fst x \<le> fst y)"

definition dns_overview_of :: "nat \<Rightarrow> dns_index \<Rightarrow> dns_overview" where
  "dns_overview_of n x =
     \<lparr>do_unique_names = length (dx_names x), do_queries = table_sum dn_queries (dx_names x),
      do_nxdomain = table_sum dn_nxdomain (dx_names x),
      do_servers = take n (sort_by (\<lambda>x y. snd y \<le> snd x) (map (\<lambda>(k, v). (show_ip k, v)) (dx_servers x))),
      do_top_names = top_map (map (\<lambda>(k, v). (k, dn_queries v + dn_responses v)) (dx_names x)) n,
      do_top_parents = top_map (map (\<lambda>(k, v). (k, length v)) (dx_subdomains x)) n\<rparr>"

definition tls_overview_of :: "nat \<Rightarrow> tls_index \<Rightarrow> tls_overview" where
  "tls_overview_of n x =
     \<lparr>to_handshakes = table_sum (\<lambda>v. v) (tx_sni x) + tx_no_sni x, to_unique_sni = length (tx_sni x),
      to_no_sni = tx_no_sni x, to_obsolete_versions = tx_obsolete_versions x,
      to_top_sni = top_map (tx_sni x) n, to_top_ja3 = take n (sort_by ja3_le (tx_ja3 x))\<rparr>"

definition http_overview_of :: "nat \<Rightarrow> http_index \<Rightarrow> http_overview" where
  "http_overview_of n x =
     \<lparr>ho_requests = hx_requests x, ho_responses = hx_responses x,
      ho_cleartext_auth = hx_cleartext_auth x, ho_top_hosts = top_map (hx_hosts x) n,
      ho_top_user_agents = top_map (hx_user_agents x) n\<rparr>"

definition build :: "string \<Rightarrow> int \<Rightarrow> analyzer \<Rightarrow> string \<Rightarrow> report dres" where
  "build version now a source =
     (let n = cf_top_n (an_config a) in
      and_then (collect a) (\<lambda>fs.
      and_then (ioc_matches a) (\<lambda>ioc.
      Ok \<lparr>re_schema_version = SCHEMA_VERSION, re_tool = ''cbna '' @ version,
          re_generated_at = to_rfc3339 (ts_new now 0), re_source = source,
          re_summary = summary_of a, re_findings = fs, re_talkers = top_talkers n a,
          re_services = services n a,
          re_top_flows = map (flow_summary_of (an_dns a)) (take n (by_bytes (an_flows a))),
          re_beacons = take n (beacons a), re_dns = dns_overview_of n (an_dns a),
          re_tls = tls_overview_of n (an_tls a), re_http = http_overview_of n (an_http a),
          re_timeline = an_timeline a, re_ioc = ioc\<rparr>)))"

interpretation counted_rows: total_preorder count_le
  by unfold_locales (auto simp: count_le_def)

interpretation ja3_rows: total_preorder ja3_le
  by unfold_locales (auto simp: ja3_le_def)

section \<open>What the report says\<close>

text \<open>The first rows of a table outweigh every row that was cut.\<close>

definition tops :: "('a \<Rightarrow> 'a \<Rightarrow> bool) \<Rightarrow> nat \<Rightarrow> 'a list \<Rightarrow> 'a list \<Rightarrow> bool" where
  "tops le n shown all \<longleftrightarrow> length shown = min n (length all) \<and>
     (\<exists>cut. mset all = mset shown + mset cut \<and> list_all (\<lambda>x. list_all (le x) cut) shown)"

context total_preorder
begin

lemma tops_sort_by: "tops le n (take n (sort_by le xs)) xs"
proof -
  let ?s = "sort_by le xs"
  have "mset xs = mset (take n ?s) + mset (drop n ?s)"
    by (metis append_take_drop_id mset_append mset_sort_by)
  then show ?thesis
    unfolding tops_def
    by (intro conjI exI [of _ "drop n ?s"]) (auto simp: list_all_iff intro: take_sort_by_best)
qed

end

definition summary_ok :: "decoded_packet list \<Rightarrow> summary \<Rightarrow> bool" where
  "summary_ok ps su \<longleftrightarrow>
     su_packets su = length ps \<and> su_bytes su = sum_list (map wire ps) \<and>
     su_hosts su = card {ip. \<exists>p \<in> set ps. src_ip p = Some ip \<or> dst_ip p = Some ip} \<and>
     pc_ipv4 (su_counts su) + pc_ipv6 (su_counts su) = length (filter is_ip ps) \<and>
     pc_ipv4 (su_counts su) + pc_ipv6 (su_counts su) + pc_arp (su_counts su) + pc_other (su_counts su) =
       su_packets su"

definition report_ok :: "decoded_packet list \<Rightarrow> analyzer \<Rightarrow> report \<Rightarrow> bool" where
  "report_ok ps a r \<longleftrightarrow>
     (let n = cf_top_n (an_config a) in
      summary_ok ps (re_summary r) \<and> findings_ok (re_findings r) \<and>
      tops talker_le n (re_talkers r) (map talker_row (an_hosts a)) \<and>
      tops service_le n (re_services r) (map snd (service_map (map snd (an_flows a)))) \<and>
      (\<exists>fs. tops bytes_desc n fs (map snd (an_flows a)) \<and>
         re_top_flows r = map (flow_summary_of (an_dns a)) fs) \<and>
      tops count_le n (do_top_names (re_dns r))
        (map (\<lambda>(k, v). (k, dn_queries v + dn_responses v)) (dx_names (an_dns a))) \<and>
      table_sum fst (re_timeline r) = length (filter is_timed ps) \<and>
      (case an_ioc a of None \<Rightarrow> re_ioc r = None | Some s \<Rightarrow> ioc_report_ok s ps (re_ioc r)))"

lemma summary_ok_run:
  assumes "conserved ps a" shows "summary_ok ps (summary_of a)"
proof -
  have h: "hosted_ok ps (an_hosts a)" and c: "counted_ok ps (an_counters a, an_timeline a)"
    using assms by (auto simp: conserved_def)
  have "length (an_hosts a) = card (fst ` set (an_hosts a))"
    using h distinct_card [of "map fst (an_hosts a)"] by (simp add: hosted_ok_def hm_valid_def)
  then show ?thesis
    using h c by (simp add: summary_ok_def summary_of_def Let_def counts_of_def counted_ok_def hosted_ok_def)
qed

lemma build_ok:
  assumes "analyzer_ok a" and "conserved ps a" and "list_all packet_wf ps" and "pred_option ioc_ok (an_ioc a)"
  shows "returns (report_ok ps a) (build version now a source)"
proof -
  obtain r where r: "ioc_matches a = Ok r"
    "case an_ioc a of None \<Rightarrow> r = None | Some s \<Rightarrow> ioc_report_ok s ps r"
    using ioc_matches_ok [OF assms(3,2,4)] by (cases "ioc_matches a") auto
  obtain fs where fs: "collect a = Ok fs" "findings_ok fs"
    using collect_ok [OF assms(1) r(1)] by (cases "collect a") auto
  have "table_sum fst (an_timeline a) = length (filter is_timed ps)"
    using assms(2) by (simp add: conserved_def counted_ok_def)
  then show ?thesis
    using fs r(2) summary_ok_run [OF assms(2)]
    by (cases "an_ioc a") (auto simp: build_def Let_def r(1) report_ok_def top_talkers_def talker.tops_sort_by services_def
        service.tops_sort_by dns_overview_of_def top_map_def counted_rows.tops_sort_by by_bytes_def
        intro: exI [of _ "take (cf_top_n (an_config a)) (sort_by bytes_desc (map snd (an_flows a)))"]
          by_bytes.tops_sort_by)
qed



end
