(* ===== verification/CaptureFile.thy ===== *)
theory CaptureFile
  imports Packet
begin

unbundle bit_operations_syntax

text \<open>
  \<open>cbna-capture\<close>: the pcap and pcapng readers (\<open>file.rs\<close>), the pcap writer (\<open>writer.rs\<close>) and the
  packet and error types of \<open>lib.rs\<close>.  The reader is driven from memory, as \<open>from_bytes\<close> does: the
  bytes not yet read are part of the state, and the one I/O error is the end of input.  An outcome
  \<open>Ok None\<close> is the end of the stream, \<open>Ok (Some p)\<close> a packet, \<open>Err e\<close> an error handed to the caller.
\<close>

section \<open>Packets and errors\<close>

record raw_packet =
  rp_meta :: packet_meta
  rp_data :: bytes

definition raw_packet_new :: "nat \<Rightarrow> timestamp \<Rightarrow> u32 \<Rightarrow> bytes \<Rightarrow> raw_packet" where
  "raw_packet_new idx timestamp wire_len data =
     \<lparr>rp_meta = \<lparr>pm_index = idx, pm_timestamp = timestamp, pm_captured_len = word_of_nat (length data),
                 pm_wire_len = wire_len\<rparr>,
      rp_data = data\<rparr>"

datatype capture_error =
    CeIo
  | CeUnknownFormat string u32
  | CeMalformed string
  | CeImplausibleLength nat u32 u32
  | CeLiveUnavailable

definition MAX_PACKET_BYTES :: u32 where "MAX_PACKET_BYTES = 262144"

text \<open>The format \<open>{:#010x}\<close>.\<close>

definition show_hex010 :: "u32 \<Rightarrow> string" where
  "show_hex010 v = ''0x'' @ pad0 8 (show_hex (unat v))"

fun show_capture_error :: "capture_error \<Rightarrow> string" where
  "show_capture_error CeIo = ''io error: failed to fill whole buffer''"
| "show_capture_error (CeUnknownFormat p m) =
     p @ '' is not a pcap or pcapng file (bad magic '' @ show_hex010 m @ '')''"
| "show_capture_error (CeMalformed s) = ''malformed capture file: '' @ s"
| "show_capture_error (CeImplausibleLength i len limit) =
     ''packet '' @ show_nat i @ '' declares '' @ show_nat (unat len) @ '' captured bytes, above the '' @
     show_nat (unat limit) @ '' byte limit''"
| "show_capture_error CeLiveUnavailable =
     ''live capture is not compiled in; rebuild with --features live''"

section \<open>The source\<close>

definition PCAP_MAGIC_LE :: u32 where "PCAP_MAGIC_LE = 0xa1b2c3d4"
definition PCAP_MAGIC_BE :: u32 where "PCAP_MAGIC_BE = 0xd4c3b2a1"
definition PCAP_MAGIC_NS_LE :: u32 where "PCAP_MAGIC_NS_LE = 0xa1b23c4d"
definition PCAP_MAGIC_NS_BE :: u32 where "PCAP_MAGIC_NS_BE = 0x4d3cb2a1"
definition PCAPNG_BLOCK_SHB :: u32 where "PCAPNG_BLOCK_SHB = 0x0a0d0d0a"
definition BLOCK_IDB :: u32 where "BLOCK_IDB = 1"
definition BLOCK_SPB :: u32 where "BLOCK_SPB = 3"
definition BLOCK_EPB :: u32 where "BLOCK_EPB = 6"
definition MAX_BLOCK_BYTES :: u32 where "MAX_BLOCK_BYTES = 16777216"

lemmas file_consts = PCAP_MAGIC_LE_def PCAP_MAGIC_BE_def PCAP_MAGIC_NS_LE_def PCAP_MAGIC_NS_BE_def
  PCAPNG_BLOCK_SHB_def BLOCK_IDB_def BLOCK_SPB_def BLOCK_EPB_def MAX_BLOCK_BYTES_def MAX_PACKET_BYTES_def

datatype file_format = Pcap | PcapNg

record iface =
  if_link_type :: link_type
  if_ts_resolution :: nat

record file_source =
  fs_path :: string
  fs_format :: file_format
  fs_rest :: bytes
  fs_big_endian :: bool
  fs_nanosecond_ts :: bool
  fs_link_type :: link_type
  fs_interfaces :: "iface list"
  fs_index :: nat
  fs_finished :: bool

text \<open>\<open>read_exact\<close> on what is left; a short read consumes it.\<close>

definition read_exact :: "nat \<Rightarrow> file_source \<Rightarrow> bytes option \<times> file_source" where
  "read_exact n fs =
     (if n \<le> length (fs_rest fs)
      then (Some (take n (fs_rest fs)), fs\<lparr>fs_rest := drop n (fs_rest fs)\<rparr>)
      else (None, fs\<lparr>fs_rest := []\<rparr>))"

text \<open>\<open>u32::swap_bytes\<close> and \<open>u16::swap_bytes\<close>.\<close>

definition swap_bytes32 :: "u32 \<Rightarrow> u32" where
  "swap_bytes32 w =
     be32 (ucast w) (ucast (drop_bit 8 w)) (ucast (drop_bit 16 w)) (ucast (drop_bit 24 w))"

definition swap_bytes16 :: "u16 \<Rightarrow> u16" where
  "swap_bytes16 w = be16 (ucast w) (ucast (drop_bit 8 w))"

definition u32_from :: "bool \<Rightarrow> bytes \<Rightarrow> (u32, 'e) res" where
  "u32_from big_endian b =
     and_then (index b 0) (\<lambda>b0. and_then (index b 1) (\<lambda>b1.
     and_then (index b 2) (\<lambda>b2. and_then (index b 3) (\<lambda>b3.
     let v = le32 b0 b1 b2 b3 in Ok (if big_endian then swap_bytes32 v else v)))))"

definition u16_from :: "bool \<Rightarrow> bytes \<Rightarrow> (u16, 'e) res" where
  "u16_from big_endian b =
     and_then (index b 0) (\<lambda>b0. and_then (index b 1) (\<lambda>b1.
     let v = be16 b1 b0 in Ok (if big_endian then swap_bytes16 v else v)))"

text \<open>\<open>self.u32_from(&body[a..a + 4])\<close> and the 16-bit form.\<close>

definition u32_at :: "bool \<Rightarrow> bytes \<Rightarrow> nat \<Rightarrow> (u32, 'e) res" where
  "u32_at big_endian body a = and_then (sub_list body a (a + 4)) (u32_from big_endian)"

definition u16_at :: "bool \<Rightarrow> bytes \<Rightarrow> nat \<Rightarrow> (u16, 'e) res" where
  "u16_at big_endian body a = and_then (sub_list body a (a + 2)) (u16_from big_endian)"

text \<open>\<open>skip\<close> reads in chunks of 4096; over memory that is one read.\<close>

function skip_loop :: "nat \<Rightarrow> file_source \<Rightarrow> bool \<times> file_source" where
  "skip_loop remaining fs =
     (if remaining > 0 then
        let n = min remaining 4096 in
        case read_exact n fs of
          (None, fs') \<Rightarrow> (False, fs')
        | (Some _, fs') \<Rightarrow> skip_loop (remaining - n) fs'
      else (True, fs))"
  by pat_completeness auto
termination by (relation "measure fst") auto

declare skip_loop.simps [simp del]

section \<open>pcap\<close>

definition read_pcap_header :: "bool \<Rightarrow> bool \<Rightarrow> file_source \<Rightarrow> (file_source, capture_error) res" where
  "read_pcap_header big_endian nanosecond fs =
     (let fs = fs\<lparr>fs_big_endian := big_endian, fs_nanosecond_ts := nanosecond\<rparr> in
      case read_exact 20 fs of
        (None, _) \<Rightarrow> Err CeIo
      | (Some rest, fs) \<Rightarrow>
          and_then (u32_at False rest 16) (\<lambda>link.
          let link = (if big_endian then swap_bytes32 link else link) in
          Ok (fs\<lparr>fs_link_type := link_type_from link\<rparr>)))"

definition next_pcap :: "file_source \<Rightarrow> (raw_packet option, capture_error) res \<times> file_source" where
  "next_pcap fs =
     (case read_exact 16 fs of
        (None, fs) \<Rightarrow> (Ok None, fs\<lparr>fs_finished := True\<rparr>)
      | (Some hdr, fs) \<Rightarrow>
          (case and_then (u32_at (fs_big_endian fs) hdr 0) (\<lambda>ts_sec.
                and_then (u32_at (fs_big_endian fs) hdr 4) (\<lambda>ts_frac.
                and_then (u32_at (fs_big_endian fs) hdr 8) (\<lambda>caplen.
                and_then (u32_at (fs_big_endian fs) hdr 12) (\<lambda>wirelen.
                Ok (ts_sec, ts_frac, caplen, wirelen))))) of
             Ok (ts_sec, ts_frac, caplen, wirelen) \<Rightarrow>
               let fs = fs\<lparr>fs_index := fs_index fs + 1\<rparr> in
               if caplen > MAX_PACKET_BYTES
               then (Err (CeImplausibleLength (fs_index fs) caplen MAX_PACKET_BYTES), fs\<lparr>fs_finished := True\<rparr>)
               else
                 (case read_exact (unat caplen) fs of
                    (None, fs) \<Rightarrow> (Ok None, fs\<lparr>fs_finished := True\<rparr>)
                  | (Some data, fs) \<Rightarrow>
                      let timestamp = (if fs_nanosecond_ts fs then ts_new (uint ts_sec) ts_frac
                                       else ts_from_micros (uint ts_sec) ts_frac) in
                      (Ok (Some (raw_packet_new (fs_index fs) timestamp (max wirelen caplen) data)), fs))
           | Err e \<Rightarrow> (Err e, fs)
           | Panic \<Rightarrow> (Panic, fs)))"

section \<open>pcapng\<close>

definition read_pcapng_section_header :: "file_source \<Rightarrow> (file_source, capture_error) res" where
  "read_pcapng_section_header fs =
     (case read_exact 8 fs of
        (None, _) \<Rightarrow> Err CeIo
      | (Some buf, fs) \<Rightarrow>
          and_then (u32_at False buf 4) (\<lambda>byte_order.
          if byte_order \<noteq> 0x1a2b3c4d \<and> byte_order \<noteq> 0x4d3c2b1a
          then Err (CeMalformed (''section header byte-order magic '' @ show_hex010 byte_order @
                                 '' is not recognised''))
          else
            let fs = fs\<lparr>fs_big_endian := (byte_order = 0x4d3c2b1a)\<rparr> in
            and_then (u32_at (fs_big_endian fs) buf 0) (\<lambda>total_len.
            if \<not> (12 \<le> total_len \<and> total_len \<le> MAX_BLOCK_BYTES)
            then Err (CeMalformed (''section header block length '' @ show_nat (unat total_len) @
                                   '' is out of range''))
            else
              (case skip_loop (unat total_len - 12) fs of
                 (True, fs) \<Rightarrow> Ok fs
               | (False, _) \<Rightarrow> Err CeIo))))"

text \<open>The interface description block: its options after the fixed eight bytes.\<close>

definition ts_resolution_of :: "u8 \<Rightarrow> nat" where
  "ts_resolution_of raw =
     (let e = unat (raw AND 0x7F) in
      if raw AND 0x80 \<noteq> 0 then 2 ^ min e 63 else 10 ^ min e 18)"

function idb_options :: "bool \<Rightarrow> bytes \<Rightarrow> nat \<Rightarrow> iface \<Rightarrow> (iface, capture_error) res" where
  "idb_options big_endian body off i =
     (if off + 4 \<le> length body then
        and_then (u16_at big_endian body off) (\<lambda>code.
        and_then (u16_at big_endian body (off + 2)) (\<lambda>len.
        let val_start = off + 4; val_end = val_start + unat len in
        if val_end > length body then Ok i
        else
          and_then
            (if code = 9 \<and> len = 1
             then and_then (index body val_start) (\<lambda>raw. Ok (i\<lparr>if_ts_resolution := ts_resolution_of raw\<rparr>))
             else Ok i) (\<lambda>i.
          if code = 0 then Ok i
          else idb_options big_endian body (val_start + (unat len + 3) div 4 * 4) i)))
      else Ok i)"
  by pat_completeness auto
termination by (relation "measure (\<lambda>(b, body, off, i). Suc (length body) - off)") auto

declare idb_options.simps [simp del]

definition parse_idb :: "bool \<Rightarrow> bytes \<Rightarrow> (iface, capture_error) res" where
  "parse_idb big_endian body =
     (if length body < 8 then Err (CeMalformed ''interface description block is too short'')
      else
        and_then (u16_at big_endian body 0) (\<lambda>link.
        and_then (idb_options big_endian body 8
          \<lparr>if_link_type = link_type_from (ucast link), if_ts_resolution = 1000000\<rparr>) (\<lambda>i.
        Ok (if if_ts_resolution i = 0 then i\<lparr>if_ts_resolution := 1000000\<rparr> else i))))"

text \<open>
  The enhanced packet block.  \<open>self.index\<close> is counted once the block has its fixed part; the
  packet is built with the new count.  Dividing by a zero resolution would panic.  Seconds are an \<open>as i64\<close> cast, which wraps.
\<close>

definition as_i64 :: "nat \<Rightarrow> int" where
  "as_i64 n = sint (word_of_nat n :: 64 word)"

definition epb_packet :: "file_source \<Rightarrow> bytes \<Rightarrow> (raw_packet, capture_error) res" where
  "epb_packet fs body =
     (let big = fs_big_endian fs in
      and_then (u32_at big body 0) (\<lambda>iface_id.
      and_then (u32_at big body 4) (\<lambda>ts_high.
      and_then (u32_at big body 8) (\<lambda>ts_low.
      and_then (u32_at big body 12) (\<lambda>caplen.
      and_then (u32_at big body 16) (\<lambda>wirelen.
      if caplen > MAX_PACKET_BYTES
      then Err (CeImplausibleLength (fs_index fs) caplen MAX_PACKET_BYTES)
      else
        let stop = 20 + unat caplen in
        if stop > length body
        then Err (CeMalformed (''packet '' @ show_nat (fs_index fs) @ '' claims '' @ show_nat (unat caplen) @
                               '' bytes but its block holds '' @ show_nat (length body - 20)))
        else
          let resolution = (if unat iface_id < length (fs_interfaces fs)
                            then if_ts_resolution (fs_interfaces fs ! unat iface_id) else 1000000);
              ticks = unat ts_high * 2 ^ 32 + unat ts_low in
          if resolution = 0 then Panic
          else
            let secs = as_i64 (ticks div resolution);
                frac = ticks mod resolution;
                nanos = word_of_nat (frac * 1000000000 div resolution)
            in and_then (sub_list body 20 stop) (\<lambda>data.
               Ok (raw_packet_new (fs_index fs) (ts_new secs nanos) (max wirelen caplen) data))))))))"

definition parse_epb :: "file_source \<Rightarrow> bytes \<Rightarrow> (raw_packet, capture_error) res \<times> file_source" where
  "parse_epb fs body =
     (if length body < 20 then (Err (CeMalformed ''enhanced packet block is too short''), fs)
      else let fs = fs\<lparr>fs_index := fs_index fs + 1\<rparr> in (epb_packet fs body, fs))"

text \<open>
  One block: the outcome handed to the caller (the \<open>return\<close>s of the loop), or the source with which
  the loop goes on.
\<close>

type_synonym outcome = "(raw_packet option, capture_error) res \<times> file_source"

definition finish :: "file_source \<Rightarrow> file_source" where
  "finish fs = fs\<lparr>fs_finished := True\<rparr>"

definition block_body :: "u32 \<Rightarrow> bytes \<Rightarrow> file_source \<Rightarrow> outcome + file_source" where
  "block_body block_type body fs =
     (if block_type = PCAPNG_BLOCK_SHB then
        (case (if length body \<ge> 4 then and_then (u32_at False body 0) (\<lambda>bom. Ok (bom = 0x4d3c2b1a))
               else Ok (fs_big_endian fs)) of
           Ok big \<Rightarrow> Inr (fs\<lparr>fs_big_endian := big, fs_interfaces := []\<rparr>)
         | Err e \<Rightarrow> Inl (Err e, fs)
         | Panic \<Rightarrow> Inl (Panic, fs))
      else if block_type = BLOCK_IDB then
        (case parse_idb (fs_big_endian fs) body of
           Ok i \<Rightarrow>
             let fs = (if fs_interfaces fs = [] then fs\<lparr>fs_link_type := if_link_type i\<rparr> else fs)
             in Inr (fs\<lparr>fs_interfaces := fs_interfaces fs @ [i]\<rparr>)
         | Err e \<Rightarrow> Inl (Err e, fs)
         | Panic \<Rightarrow> Inl (Panic, fs))
      else if block_type = BLOCK_EPB then
        (case parse_epb fs body of
           (Ok p, fs) \<Rightarrow> Inl (Ok (Some p), fs)
         | (Err e, fs) \<Rightarrow> Inl (Err e, finish fs)
         | (Panic, fs) \<Rightarrow> Inl (Panic, fs))
      else if block_type = BLOCK_SPB then
        (if length body < 4 then Inr fs
         else
           (case and_then (u32_at (fs_big_endian fs) body 0) (\<lambda>orig_len.
                 and_then (sub_from body 4) (\<lambda>data. Ok (orig_len, data))) of
              Ok (orig_len, data) \<Rightarrow>
                let fs = fs\<lparr>fs_index := fs_index fs + 1\<rparr> in
                Inl (Ok (Some (raw_packet_new (fs_index fs) ts_zero
                       (max orig_len (word_of_nat (length data))) data)), fs)
            | Err e \<Rightarrow> Inl (Err e, fs)
            | Panic \<Rightarrow> Inl (Panic, fs)))
      else Inr fs)"

definition ng_block :: "file_source \<Rightarrow> outcome + file_source" where
  "ng_block fs =
     (case read_exact 8 fs of
        (None, fs) \<Rightarrow> Inl (Ok None, finish fs)
      | (Some head, fs) \<Rightarrow>
          (case and_then (u32_at (fs_big_endian fs) head 0) (\<lambda>block_type.
                and_then (u32_at (fs_big_endian fs) head 4) (\<lambda>total_len. Ok (block_type, total_len))) of
             Ok (block_type, total_len) \<Rightarrow>
               if \<not> (12 \<le> total_len \<and> total_len \<le> MAX_BLOCK_BYTES) \<or> total_len mod 4 \<noteq> 0
               then Inl (Err (CeMalformed (''block '' @ show_hex010 block_type @
                      '' declares an invalid length of '' @ show_nat (unat total_len))), finish fs)
               else
                 (case read_exact (unat total_len - 12) fs of
                    (None, fs) \<Rightarrow> Inl (Ok None, finish fs)
                  | (Some body, fs) \<Rightarrow>
                      (case skip_loop 4 fs of
                         (False, fs) \<Rightarrow> Inl (Err CeIo, finish fs)
                       | (True, fs) \<Rightarrow> block_body block_type body fs))
           | Err e \<Rightarrow> Inl (Err e, fs)
           | Panic \<Rightarrow> Inl (Panic, fs)))"

text \<open>Every block that does not end the loop takes at least eight bytes.\<close>

lemma read_exact_Some:
  "read_exact n fs = (Some bs, fs') \<Longrightarrow>
     length bs = n \<and> fs_rest fs = bs @ fs_rest fs' \<and> fs' = fs\<lparr>fs_rest := drop n (fs_rest fs)\<rparr>"
  by (auto simp: read_exact_def split: if_splits)

lemma skip_loop_rest: "skip_loop n fs = (ok, fs') \<Longrightarrow> length (fs_rest fs') \<le> length (fs_rest fs)"
proof (induction n fs rule: skip_loop.induct)
  case (1 n fs)
  then show ?case
    by (subst (asm) (2) skip_loop.simps)
      (fastforce simp: Let_def read_exact_def split: prod.splits option.splits if_splits)
qed

lemma block_body_rest: "block_body t body fs = Inr fs' \<Longrightarrow> fs_rest fs' = fs_rest fs"
  by (auto simp: block_body_def Let_def split: if_splits res.splits prod.splits)

lemma read_exact_shorter:
  "read_exact n fs = (Some bs, fs') \<Longrightarrow> length (fs_rest fs') + n = length (fs_rest fs)"
  by (auto simp: read_exact_def split: if_splits)

lemma ng_block_rest: "ng_block fs = Inr fs' \<Longrightarrow> length (fs_rest fs') + 8 \<le> length (fs_rest fs)"
proof -
  assume *: "ng_block fs = Inr fs'"
  obtain head fs1 where 1: "read_exact 8 fs = (Some head, fs1)"
    using * by (cases "read_exact 8 fs"; cases "fst (read_exact 8 fs)") (auto simp: ng_block_def)
  obtain t len where 2: "and_then (u32_at (fs_big_endian fs1) head 0) (\<lambda>block_type.
      and_then (u32_at (fs_big_endian fs1) head 4) (\<lambda>total_len. Ok (block_type, total_len))) = (Ok (t, len) :: (_, capture_error) res)"
    using * by (auto simp: ng_block_def 1 split: res.splits)
  obtain body fs2 where 3: "read_exact (unat len - 12) fs1 = (Some body, fs2)"
    using * by (cases "read_exact (unat len - 12) fs1"; cases "fst (read_exact (unat len - 12) fs1)")
      (auto simp: ng_block_def 1 2 split: if_splits)
  obtain fs3 where 4: "skip_loop 4 fs2 = (True, fs3)" "block_body t body fs3 = Inr fs'"
    using * by (auto simp: ng_block_def 1 2 3 split: if_splits prod.splits bool.splits)
  show ?thesis
    using read_exact_shorter [OF 1] read_exact_shorter [OF 3] skip_loop_rest [OF 4(1)] block_body_rest [OF 4(2)]
    by simp
qed

function next_pcapng :: "file_source \<Rightarrow> outcome" where
  "next_pcapng fs = (case ng_block fs of Inl r \<Rightarrow> r | Inr fs' \<Rightarrow> next_pcapng fs')"
  by pat_completeness auto
termination by (relation "measure (\<lambda>fs. length (fs_rest fs))") (auto dest: ng_block_rest)

declare next_pcapng.simps [simp del]

section \<open>Opening and reading\<close>

definition from_reader_labelled :: "bytes \<Rightarrow> string \<Rightarrow> (file_source, capture_error) res" where
  "from_reader_labelled input path =
     (let src = \<lparr>fs_path = path, fs_format = Pcap, fs_rest = input, fs_big_endian = False,
                 fs_nanosecond_ts = False, fs_link_type = LtEthernet, fs_interfaces = [], fs_index = 0,
                 fs_finished = False\<rparr>
      in case read_exact 4 src of
           (None, _) \<Rightarrow> Err CeIo
         | (Some magic_bytes, src) \<Rightarrow>
             and_then (u32_from False magic_bytes) (\<lambda>magic.
             if magic = PCAP_MAGIC_LE then read_pcap_header False False src
             else if magic = PCAP_MAGIC_NS_LE then read_pcap_header False True src
             else if magic = PCAP_MAGIC_BE then read_pcap_header True False src
             else if magic = PCAP_MAGIC_NS_BE then read_pcap_header True True src
             else if swap_bytes32 magic = PCAPNG_BLOCK_SHB \<or> magic = PCAPNG_BLOCK_SHB
             then read_pcapng_section_header (src\<lparr>fs_format := PcapNg\<rparr>)
             else Err (CeUnknownFormat path magic)))"

definition from_bytes :: "bytes \<Rightarrow> (file_source, capture_error) res" where
  "from_bytes input = from_reader_labelled input ''<memory>''"

definition next_packet :: "file_source \<Rightarrow> outcome" where
  "next_packet fs =
     (if fs_finished fs then (Ok None, fs)
      else case fs_format fs of Pcap \<Rightarrow> next_pcap fs | PcapNg \<Rightarrow> next_pcapng fs)"

definition fs_description :: "file_source \<Rightarrow> string" where
  "fs_description fs =
     fs_path fs @ '' ('' @ (case fs_format fs of Pcap \<Rightarrow> ''pcap'' | PcapNg \<Rightarrow> ''pcapng'') @ '', '' @
     link_type_name (fs_link_type fs) @ '')''"

section \<open>Reading to the end\<close>

lemma read_exact_rest: "length (fs_rest (snd (read_exact n fs))) \<le> length (fs_rest fs)"
  by (simp add: read_exact_def)

lemma block_body_out: "block_body t body fs = Inl (r, fs') \<Longrightarrow> fs_rest fs' = fs_rest fs"
  by (auto simp: block_body_def Let_def parse_epb_def finish_def split: if_splits res.splits prod.splits)

lemma ng_block_out: "ng_block fs = Inl (r, fs') \<Longrightarrow> r \<noteq> Ok None \<Longrightarrow> length (fs_rest fs') < length (fs_rest fs)"
proof -
  assume *: "ng_block fs = Inl (r, fs')" and r: "r \<noteq> Ok None"
  obtain head fs1 where 1: "read_exact 8 fs = (Some head, fs1)"
    using * r by (cases "read_exact 8 fs"; cases "fst (read_exact 8 fs)") (auto simp: ng_block_def)
  have "length (fs_rest fs') \<le> length (fs_rest fs1)"
    using * r
    by (auto simp: ng_block_def 1 finish_def dest!: block_body_out skip_loop_rest read_exact_shorter
        split: if_splits prod.splits option.splits res.splits bool.splits)
  then show ?thesis using read_exact_shorter [OF 1] by simp
qed

lemma next_pcapng_out:
  "next_pcapng fs = (r, fs') \<Longrightarrow> r \<noteq> Ok None \<Longrightarrow> length (fs_rest fs') < length (fs_rest fs)"
proof (induction fs rule: next_pcapng.induct)
  case (1 fs)
  show ?case
  proof (cases "ng_block fs")
    case (Inl p)
    with "1.prems" show ?thesis by (cases p) (auto simp: next_pcapng.simps [of fs] dest: ng_block_out)
  next
    case (Inr fs1)
    with "1.IH" [OF Inr] "1.prems" ng_block_rest [OF Inr] show ?thesis by (simp add: next_pcapng.simps [of fs])
  qed
qed

lemma next_pcap_out: "next_pcap fs = (r, fs') \<Longrightarrow> r \<noteq> Ok None \<Longrightarrow> length (fs_rest fs') < length (fs_rest fs)"
proof -
  assume *: "next_pcap fs = (r, fs')" and r: "r \<noteq> Ok None"
  obtain hdr fs1 where 1: "read_exact 16 fs = (Some hdr, fs1)"
    using * r by (cases "read_exact 16 fs"; cases "fst (read_exact 16 fs)") (auto simp: next_pcap_def)
  have "length (fs_rest fs') \<le> length (fs_rest fs1)"
    using * r by (auto simp: next_pcap_def 1 Let_def dest!: read_exact_shorter
        split: if_splits prod.splits option.splits res.splits)
  then show ?thesis using read_exact_shorter [OF 1] by simp
qed

lemma next_packet_out:
  "next_packet fs = (r, fs') \<Longrightarrow> r \<noteq> Ok None \<Longrightarrow> length (fs_rest fs') < length (fs_rest fs)"
  using next_pcap_out [of fs r fs'] next_pcapng_out [of fs r fs']
  by (simp add: next_packet_def split: if_splits file_format.splits)

text \<open>The loop of every consumer, \<open>while let Some(next) = source.next_packet()\<close>.\<close>

function read_all :: "file_source \<Rightarrow> (raw_packet, capture_error) res list" where
  "read_all fs =
     (case next_packet fs of
        (Ok None, fs') \<Rightarrow> []
      | (Ok (Some p), fs') \<Rightarrow> Ok p # read_all fs'
      | (Err e, fs') \<Rightarrow> Err e # read_all fs'
      | (Panic, fs') \<Rightarrow> [Panic])"
  by pat_completeness auto
termination
  by (relation "measure (\<lambda>fs. length (fs_rest fs))") (auto dest: next_packet_out [OF sym])

declare read_all.simps [simp del]

section \<open>No panic, bounded packets\<close>

definition raw_packet_ok :: "nat \<Rightarrow> raw_packet \<Rightarrow> bool" where
  "raw_packet_ok limit p \<longleftrightarrow>
     length (rp_data p) \<le> limit \<and> pm_captured_len (rp_meta p) = word_of_nat (length (rp_data p)) \<and>
     word_of_nat (length (rp_data p)) \<le> pm_wire_len (rp_meta p)"

text \<open>Data within the size of the largest block; at most \<open>MAX_PACKET_BYTES\<close> from a pcap file.\<close>

definition packet_limit :: "file_format \<Rightarrow> nat" where
  "packet_limit f = (case f of Pcap \<Rightarrow> unat MAX_PACKET_BYTES | PcapNg \<Rightarrow> unat MAX_BLOCK_BYTES - 16)"

definition source_ok :: "file_source \<Rightarrow> bool" where
  "source_ok fs \<longleftrightarrow> list_all (\<lambda>i. if_ts_resolution i \<noteq> 0) (fs_interfaces fs)"

definition outcome_ok :: "file_format \<Rightarrow> outcome \<Rightarrow> bool" where
  "outcome_ok f = (\<lambda>(r, fs). safe (pred_option (raw_packet_ok (packet_limit f))) r \<and> source_ok fs \<and> fs_format fs = f)"

lemma unat_consts [simp]: "unat MAX_PACKET_BYTES = 262144" "unat MAX_BLOCK_BYTES = 16777216"
  by (simp_all add: file_consts)

lemma u32_at_val: "a + 4 \<le> length body \<Longrightarrow> \<exists>v. u32_at big body a = Ok v"
  by (simp add: u32_at_def u32_from_def Let_def)

lemma u16_at_val: "a + 2 \<le> length body \<Longrightarrow> \<exists>v. u16_at big body a = Ok v"
  by (simp add: u16_at_def u16_from_def Let_def)

lemma idb_options_safe: "safe (\<lambda>_. True) (idb_options big body off i)"
proof (induction big body off i rule: idb_options.induct)
  case (1 big body off i)
  show ?case
  proof (cases "off + 4 \<le> length body")
    case True
    obtain code len where r: "u16_at big body off = (Ok code :: (u16, capture_error) res)"
      "u16_at big body (off + 2) = (Ok len :: (u16, capture_error) res)"
      using u16_at_val [of off body big] u16_at_val [of "off + 2" body big] True by auto
    show ?thesis
    proof (cases "off + 4 + unat len > length body \<or> code = 0")
      case True
      then show ?thesis
        by (subst idb_options.simps) (auto simp: r Let_def simp del: add_2_eq_Suc')
    next
      case False
      then have "\<exists>i'. (if code = 9 \<and> len = 1
             then and_then (index body (off + 4)) (\<lambda>raw. Ok (i\<lparr>if_ts_resolution := ts_resolution_of raw\<rparr>))
             else Ok i) = (Ok i' :: (iface, capture_error) res)"
        by auto
      then obtain i' where i': "(if code = 9 \<and> len = 1
             then and_then (index body (off + 4)) (\<lambda>raw. Ok (i\<lparr>if_ts_resolution := ts_resolution_of raw\<rparr>))
             else Ok i) = (Ok i' :: (iface, capture_error) res)"
        by blast
      show ?thesis
        using False "1.IH" [OF True r refl refl _ i']
        by (subst idb_options.simps) (simp only: r Let_def True i' if_True if_False de_Morgan_disj and_then.simps simp_thms)
    qed
  qed (simp add: idb_options.simps)
qed

lemma parse_idb_safe: "safe (\<lambda>i. if_ts_resolution i \<noteq> 0) (parse_idb big body)"
proof (cases "length body < 8")
  case False
  then obtain link where "u16_at big body 0 = (Ok link :: (u16, capture_error) res)"
    using u16_at_val [of 0 body big] by auto
  with False show ?thesis
    by (auto simp: parse_idb_def intro!: safe_and_then [OF idb_options_safe])
qed (simp add: parse_idb_def)

lemma word_of_nat_length_le:
  "n \<le> length body \<Longrightarrow> length body < 2 ^ 32 \<Longrightarrow> (word_of_nat n :: u32) \<le> word_of_nat (length body)"
  by (simp add: word_le_nat_alt unat_of_nat)

lemma epb_packet_safe:
  assumes "source_ok fs" and "20 \<le> length body"
  shows "safe (raw_packet_ok 262144) (epb_packet fs body)"
proof -
  have *: "\<exists>v. u32_at (fs_big_endian fs) body a = (Ok v :: (u32, capture_error) res)" if "a \<le> 16" for a
    using that assms(2) by (intro u32_at_val) simp
  obtain a b c caplen wirelen where r:
    "u32_at (fs_big_endian fs) body 0 = (Ok a :: (u32, capture_error) res)"
    "u32_at (fs_big_endian fs) body 4 = (Ok b :: (u32, capture_error) res)"
    "u32_at (fs_big_endian fs) body 8 = (Ok c :: (u32, capture_error) res)"
    "u32_at (fs_big_endian fs) body 12 = (Ok caplen :: (u32, capture_error) res)"
    "u32_at (fs_big_endian fs) body 16 = (Ok wirelen :: (u32, capture_error) res)"
    using * [of 0] * [of 4] * [of 8] * [of 12] * [of 16] by auto
  have res: "(if unat a < length (fs_interfaces fs) then if_ts_resolution (fs_interfaces fs ! unat a) else 1000000) \<noteq> 0"
    using assms(1) by (auto simp: source_ok_def list_all_length)
  have len: "unat caplen \<le> 262144 \<and> (word_of_nat (length (take (unat caplen) (drop 20 body))) :: u32) \<le> max wirelen caplen"
    if "\<not> MAX_PACKET_BYTES < caplen" "\<not> length body < 20 + unat caplen"
    using that by (simp add: word_less_nat_alt min_absorb2)
  show ?thesis
    using len res by (auto simp: epb_packet_def r Let_def raw_packet_ok_def raw_packet_new_def min_def)
qed

lemma read_exact_source:
  "read_exact n fs = (x, fs') \<Longrightarrow> fs_interfaces fs' = fs_interfaces fs \<and> fs_format fs' = fs_format fs \<and>
     fs_link_type fs' = fs_link_type fs \<and> fs_big_endian fs' = fs_big_endian fs \<and> (x = Some bs \<longrightarrow> length bs = n)"
  by (auto simp: read_exact_def split: if_splits)

lemma skip_loop_source: "skip_loop n fs = (ok, fs') \<Longrightarrow>
  fs_interfaces fs' = fs_interfaces fs \<and> fs_format fs' = fs_format fs \<and> fs_link_type fs' = fs_link_type fs"
proof (induction n fs rule: skip_loop.induct)
  case (1 n fs)
  then show ?case
    by (subst (asm) (2) skip_loop.simps)
      (fastforce simp: Let_def read_exact_def split: prod.splits option.splits if_splits)
qed

lemma u32_at_no_err [no_err_rules]: "no_err (u32_at big body a)"
  unfolding u32_at_def u32_from_def Let_def by (intro no_err_rules)

lemma next_pcap_ok:
  assumes "source_ok fs" and "fs_format fs = Pcap"
  shows "outcome_ok Pcap (next_pcap fs)"
proof (cases "read_exact 16 fs")
  case (Pair x fs1)
  show ?thesis
  proof (cases x)
    case None
    then show ?thesis
      using assms read_exact_source [OF Pair] by (simp add: next_pcap_def Pair outcome_ok_def source_ok_def)
  next
    case (Some hdr)
    have 1: "length hdr = 16" "source_ok fs1" "fs_format fs1 = Pcap"
      using read_exact_source [OF Pair, of hdr] Some assms by (simp_all add: source_ok_def)
    have *: "\<exists>v. u32_at (fs_big_endian fs1) hdr a = (Ok v :: (u32, capture_error) res)" if "a \<le> 12" for a
      using that 1 by (intro u32_at_val) simp
    obtain a b caplen wirelen where r:
      "u32_at (fs_big_endian fs1) hdr 0 = (Ok a :: (u32, capture_error) res)"
      "u32_at (fs_big_endian fs1) hdr 4 = (Ok b :: (u32, capture_error) res)"
      "u32_at (fs_big_endian fs1) hdr 8 = (Ok caplen :: (u32, capture_error) res)"
      "u32_at (fs_big_endian fs1) hdr 12 = (Ok wirelen :: (u32, capture_error) res)"
      using * [of 0] * [of 4] * [of 8] * [of 12] by auto
    let ?fs = "fs1\<lparr>fs_index := Suc (fs_index fs1)\<rparr>"
    obtain y fs2 where 2: "read_exact (unat caplen) ?fs = (y, fs2)" by force
    have 3: "source_ok fs2" "fs_format fs2 = Pcap" "y = Some data \<Longrightarrow> length data = unat caplen" for data
      using read_exact_source [OF 2, of data] 1 by (simp_all add: source_ok_def)
    have lim: "\<not> MAX_PACKET_BYTES < caplen \<Longrightarrow> unat caplen \<le> 262144" by (simp add: word_less_nat_alt)
    show ?thesis
      using 1 3 lim by (auto simp: next_pcap_def Pair Some r 2 outcome_ok_def packet_limit_def raw_packet_ok_def
          raw_packet_new_def Let_def source_ok_def split: option.splits)
  qed
qed

lemma block_body_ok:
  assumes "source_ok fs" and "fs_format fs = PcapNg" and "length body \<le> 16777204"
  shows "case block_body t body fs of Inl out \<Rightarrow> outcome_ok PcapNg out
    | Inr fs' \<Rightarrow> source_ok fs' \<and> fs_format fs' = PcapNg"
proof -
  have idb: "safe (\<lambda>i. if_ts_resolution i \<noteq> 0) (parse_idb (fs_big_endian fs) body)" by (rule parse_idb_safe)
  have epb: "20 \<le> length body \<Longrightarrow>
      safe (raw_packet_ok 262144) (epb_packet (fs\<lparr>fs_index := Suc (fs_index fs)\<rparr>) body)"
    by (rule epb_packet_safe) (use assms in \<open>simp_all add: source_ok_def\<close>)
  have val: "4 \<le> length body \<Longrightarrow> \<exists>v. u32_at big body 0 = (Ok v :: (u32, capture_error) res)" for big
    by (rule u32_at_val) simp
  have mono: "raw_packet_ok 262144 p \<Longrightarrow> raw_packet_ok (packet_limit PcapNg) p" for p
    by (simp add: raw_packet_ok_def packet_limit_def)
  consider "t = PCAPNG_BLOCK_SHB" | "t = BLOCK_IDB" | "t = BLOCK_EPB" | "t = BLOCK_SPB"
    | "t \<noteq> PCAPNG_BLOCK_SHB" "t \<noteq> BLOCK_IDB" "t \<noteq> BLOCK_EPB" "t \<noteq> BLOCK_SPB" by blast
  then show ?thesis
  proof cases
    case 1
    then show ?thesis
      using assms val [of False] by (auto simp: block_body_def source_ok_def)
  next
    case 2
    then show ?thesis
      using assms idb by (cases "parse_idb (fs_big_endian fs) body")
        (auto simp: block_body_def file_consts source_ok_def outcome_ok_def Let_def)
  next
    case 3
    then show ?thesis
      using assms epb mono
      by (cases "epb_packet (fs\<lparr>fs_index := Suc (fs_index fs)\<rparr>) body")
        (auto simp: block_body_def file_consts parse_epb_def source_ok_def outcome_ok_def finish_def not_less [symmetric])
  next
    case 4
    then show ?thesis
      using assms val [of "fs_big_endian fs"]
      by (auto simp: block_body_def file_consts source_ok_def outcome_ok_def raw_packet_ok_def raw_packet_new_def
          packet_limit_def Let_def not_less)
  next
    case 5
    then show ?thesis using assms by (simp add: block_body_def)
  qed
qed

lemma ng_block_ok:
  assumes "source_ok fs" and "fs_format fs = PcapNg"
  shows "case ng_block fs of Inl out \<Rightarrow> outcome_ok PcapNg out
    | Inr fs' \<Rightarrow> source_ok fs' \<and> fs_format fs' = PcapNg"
proof (cases "read_exact 8 fs")
  case (Pair x fs1)
  show ?thesis
  proof (cases x)
    case None
    then show ?thesis
      using assms read_exact_source [OF Pair]
      by (simp add: ng_block_def Pair outcome_ok_def source_ok_def finish_def)
  next
    case (Some head)
    have 1: "length head = 8" "source_ok fs1" "fs_format fs1 = PcapNg"
      using read_exact_source [OF Pair, of head] Some assms by (simp_all add: source_ok_def)
    obtain t len where r:
      "u32_at (fs_big_endian fs1) head 0 = (Ok t :: (u32, capture_error) res)"
      "u32_at (fs_big_endian fs1) head 4 = (Ok len :: (u32, capture_error) res)"
      using u32_at_val [of 0 head "fs_big_endian fs1", where ?'a = capture_error]
        u32_at_val [of 4 head "fs_big_endian fs1", where ?'a = capture_error] 1 by auto
    obtain y fs2 where 2: "read_exact (unat len - 12) fs1 = (y, fs2)" by force
    have 3: "source_ok fs2" "fs_format fs2 = PcapNg" "y = Some body \<Longrightarrow> length body = unat len - 12" for body
      using read_exact_source [OF 2, of body] 1 by (simp_all add: source_ok_def)
    obtain ok fs3 where 4: "skip_loop 4 fs2 = (ok, fs3)" by force
    have 5: "source_ok fs3" "fs_format fs3 = PcapNg"
      using skip_loop_source [OF 4] 3 by (simp_all add: source_ok_def)
    have lim: "len \<le> MAX_BLOCK_BYTES \<Longrightarrow> unat len - 12 \<le> 16777204"
      using unat_consts(2) by (simp add: word_le_nat_alt)
    show ?thesis
      using 1 3 5 lim block_body_ok [OF 5, of _ t]
      by (auto simp: ng_block_def Pair Some r 2 4 outcome_ok_def finish_def source_ok_def split: option.splits bool.splits)
  qed
qed

lemma next_pcapng_ok:
  "source_ok fs \<Longrightarrow> fs_format fs = PcapNg \<Longrightarrow> outcome_ok PcapNg (next_pcapng fs)"
proof (induction fs rule: next_pcapng.induct)
  case (1 fs)
  show ?case
    using "1.IH" ng_block_ok [OF "1.prems"]
    by (auto simp: next_pcapng.simps [of fs] split: sum.splits)
qed

lemma next_packet_ok: "source_ok fs \<Longrightarrow> outcome_ok (fs_format fs) (next_packet fs)"
  using next_pcap_ok [of fs] next_pcapng_ok [of fs]
  by (cases "fs_format fs") (auto simp: next_packet_def outcome_ok_def)

lemma read_all_ok:
  "source_ok fs \<Longrightarrow> list_all (safe (raw_packet_ok (packet_limit (fs_format fs)))) (read_all fs)"
proof (induction fs rule: read_all.induct)
  case (1 fs)
  obtain r fs' where n: "next_packet fs = (r, fs')" by force
  have ok: "safe (pred_option (raw_packet_ok (packet_limit (fs_format fs)))) r" "source_ok fs'" "fs_format fs' = fs_format fs"
    using next_packet_ok [OF "1.prems"] by (simp_all add: n outcome_ok_def)
  show ?case
    using "1.IH" ok by (subst read_all.simps) (auto simp: n split: res.splits option.splits)
qed

lemma read_pcap_header_ok:
  "fs_interfaces fs = [] \<Longrightarrow> safe (\<lambda>fs'. fs_interfaces fs' = [] \<and> fs_format fs' = fs_format fs) (read_pcap_header big ns fs)"
proof -
  assume fs: "fs_interfaces fs = []"
  let ?fs = "fs\<lparr>fs_big_endian := big, fs_nanosecond_ts := ns\<rparr>"
  obtain x fs1 where 1: "read_exact 20 ?fs = (x, fs1)" by force
  note 2 = read_exact_source [OF 1]
  show ?thesis
  proof (cases x)
    case (Some rest)
    then have "length rest = 20" using 2 [of rest] by simp
    then obtain v where "u32_at False rest 16 = (Ok v :: (u32, capture_error) res)"
      using u32_at_val [of 16 rest False, where ?'a = capture_error] by auto
    then show ?thesis using fs 2 Some by (simp add: read_pcap_header_def 1)
  qed (simp add: read_pcap_header_def 1)
qed

lemma read_section_header_ok:
  "fs_interfaces fs = [] \<Longrightarrow>
     safe (\<lambda>fs'. fs_interfaces fs' = [] \<and> fs_format fs' = fs_format fs \<and> fs_link_type fs' = fs_link_type fs)
       (read_pcapng_section_header fs)"
proof -
  assume fs: "fs_interfaces fs = []"
  obtain x fs1 where 1: "read_exact 8 fs = (x, fs1)" by force
  note 2 = read_exact_source [OF 1]
  show ?thesis
  proof (cases x)
    case (Some buf)
    then have "length buf = 8" using 2 [of buf] by simp
    then obtain v where v: "u32_at False buf 4 = (Ok v :: (u32, capture_error) res)"
      using u32_at_val [of 4 buf False, where ?'a = capture_error] by auto
    obtain w where "u32_at (v = 0x4d3c2b1a) buf 0 = (Ok w :: (u32, capture_error) res)"
      using u32_at_val [of 0 buf "v = 0x4d3c2b1a", where ?'a = capture_error] \<open>length buf = 8\<close> by auto
    with v show ?thesis
      using fs 2 Some by (auto simp: read_pcapng_section_header_def 1 dest: skip_loop_source split: prod.splits bool.splits)
  qed (simp add: read_pcapng_section_header_def 1)
qed

lemma from_reader_ok:
  "safe (\<lambda>fs. source_ok fs \<and> (fs_format fs = Pcap \<or> fs_link_type fs = LtEthernet)) (from_reader_labelled input path)"
proof -
  define src where "src = \<lparr>fs_path = path, fs_format = Pcap, fs_rest = input, fs_big_endian = False,
    fs_nanosecond_ts = False, fs_link_type = LtEthernet, fs_interfaces = [], fs_index = 0, fs_finished = False\<rparr>"
  obtain x fs1 where 1: "read_exact 4 src = (x, fs1)" by force
  note 2 = read_exact_source [OF 1]
  have fs: "fs_interfaces fs1 = []" "fs_interfaces (fs1\<lparr>fs_format := PcapNg\<rparr>) = []"
    "fs_format fs1 = Pcap" "fs_link_type fs1 = LtEthernet"
    using 2 by (simp_all add: src_def)
  note ok = read_pcap_header_ok [OF fs(1)] read_section_header_ok [OF fs(2)]
  show ?thesis
  proof (cases x)
    case (Some magic)
    then have "length magic = 4" using 2 [of magic] by simp
    then obtain v where "u32_from False magic = (Ok v :: (u32, capture_error) res)"
      by (simp add: u32_from_def Let_def)
    then show ?thesis
      using fs(3,4) by (auto simp: from_reader_labelled_def 1 [unfolded src_def] Some source_ok_def
          intro: safe_mono [OF ok(1)] safe_mono [OF ok(2)])
  qed (simp add: from_reader_labelled_def 1 [unfolded src_def])
qed

lemma from_bytes_ok:
  "safe (\<lambda>fs. source_ok fs \<and> (fs_format fs = Pcap \<or> fs_link_type fs = LtEthernet)) (from_bytes input)"
  unfolding from_bytes_def by (rule from_reader_ok)

text \<open>\<open>FileSource::open\<close>, given the bytes at the path.\<close>

definition file_open :: "string \<Rightarrow> bytes \<Rightarrow> (file_source, capture_error) res" where
  "file_open path input = from_reader_labelled input path"

text \<open>
  C28. Any bytes whatever can be opened and read to the end: reading terminates, nothing panics, not
  even the division by an interface's timestamp resolution, and every packet has its captured
  length recorded, at most the wire length, and is at most 262,144 bytes from a pcap file.
\<close>

theorem read_any_file:
  "safe (\<lambda>fs. list_all (safe (raw_packet_ok (packet_limit (fs_format fs)))) (read_all fs)) (from_bytes input)"
  by (rule safe_mono [OF from_bytes_ok]) (simp add: read_all_ok)

section \<open>What a pcapng section says too late\<close>

lemma pcapng_opens_as_ethernet:
  "safe (\<lambda>fs. fs_format fs = Pcap \<or> fs_link_type fs = LtEthernet) (from_bytes input)"
  by (rule safe_mono [OF from_bytes_ok]) simp

lemma wire32_small: "wire32 (ucast (b :: u8)) = [0, 0, 0, b]"
  by (auto simp: wire32_def bit_simps impossible_bit intro!: bit_word_eqI)

lemma unat_push_u8: "unat (push_bit 24 (ucast (b :: u8)) :: u32) = unat b * 2 ^ 24"
  using unat_u8_less [of b] unfolding unsigned_push_bit_eq
  by (simp add: push_bit_eq_mult take_bit_nat_eq_self)

text \<open>
  A section in the other byte order is never reached: the length of its header is read in the order
  of the section before, so a header shorter than 256 bytes is rejected as malformed and reading ends.
\<close>

lemma byte_order_switch_rejected:
  assumes "fs_format fs = PcapNg" and "\<not> fs_finished fs" and "\<not> fs_big_endian fs"
    and rest: "fs_rest fs = wire32 PCAPNG_BLOCK_SHB @ wire32 len @ rest" and len: "12 \<le> len" "len < 256"
  shows "\<exists>e. next_packet fs = (Err (CeMalformed e), finish (fs\<lparr>fs_rest := rest\<rparr>))"
proof -
  have read: "read_exact 8 fs = (Some (wire32 PCAPNG_BLOCK_SHB @ wire32 len), fs\<lparr>fs_rest := rest\<rparr>)"
    by (simp add: read_exact_def rest)
  define b :: u8 where "b = ucast len"
  have b: "ucast b = len" "12 \<le> unat b"
    using len by (simp_all add: b_def word_le_nat_alt word_less_nat_alt unsigned_take_bit_eq
        unsigned_ucast_eq take_bit_nat_eq_self word_unat_eq_iff)
  then have w: "wire32 len = [0, 0, 0, b]" using wire32_small [of b] by simp
  obtain t where t: "u32_at False (wire32 PCAPNG_BLOCK_SHB @ wire32 len) 0 = (Ok t :: (u32, capture_error) res)"
    using u32_at_val [of 0 "wire32 PCAPNG_BLOCK_SHB @ wire32 len" False, where ?'a = capture_error] by auto
  have l: "u32_at False (wire32 PCAPNG_BLOCK_SHB @ wire32 len) 4 =
      (Ok (push_bit 24 (ucast b)) :: (u32, capture_error) res)"
    by (simp add: w u32_at_def u32_from_def le32_def be32_def)
  have big: "\<not> push_bit 24 (ucast b) \<le> MAX_BLOCK_BYTES"
    using b(2) by (simp add: word_le_nat_alt unat_push_u8)
  show ?thesis
    using assms(1-3) by (simp add: next_packet_def next_pcapng.simps ng_block_def read t l big)
qed

lemma byte_order_switch_rejected_witness:
  "\<exists>e. next_packet \<lparr>fs_path = ''f'', fs_format = PcapNg, fs_rest = wire32 PCAPNG_BLOCK_SHB @ wire32 28 @ [],
      fs_big_endian = False, fs_nanosecond_ts = False, fs_link_type = LtEthernet, fs_interfaces = [],
      fs_index = 0, fs_finished = False\<rparr> = (Err (CeMalformed e), finish
     \<lparr>fs_path = ''f'', fs_format = PcapNg, fs_rest = [],
      fs_big_endian = False, fs_nanosecond_ts = False, fs_link_type = LtEthernet, fs_interfaces = [],
      fs_index = 0, fs_finished = False\<rparr>)"
  using byte_order_switch_rejected [of "\<lparr>fs_path = ''f'', fs_format = PcapNg,
      fs_rest = wire32 PCAPNG_BLOCK_SHB @ wire32 28 @ [],
      fs_big_endian = False, fs_nanosecond_ts = False, fs_link_type = LtEthernet, fs_interfaces = [],
      fs_index = 0, fs_finished = False\<rparr>" 28 "[]"] by simp

end
