(* ===== verification/PcapWriter.thy ===== *)
theory PcapWriter
  imports CaptureFile
begin

unbundle bit_operations_syntax

text \<open>
  \<open>writer.rs\<close>: the classic pcap writer of live captures, over memory (a write never fails), and what
  the reader of \<open>file.rs\<close> makes of what it wrote: the same packets, also when the file was cut off.
\<close>

section \<open>The writer\<close>

definition SNAPLEN :: u32 where "SNAPLEN = 262144"

text \<open>\<open>to_le_bytes\<close>\<close>

definition le_bytes32 :: "u32 \<Rightarrow> bytes" where "le_bytes32 w = rev (wire32 w)"
definition le_bytes16 :: "u16 \<Rightarrow> bytes" where "le_bytes16 w = rev (wire16 w)"

record pcap_writer =
  pw_out :: bytes
  pw_packets :: nat
  pw_bytes :: nat

definition link_code :: "link_type \<Rightarrow> u32" where
  "link_code lt =
     (case lt of LtNull \<Rightarrow> 0 | LtEthernet \<Rightarrow> 1 | LtRaw \<Rightarrow> 101 | LtLoop \<Rightarrow> 108 | LtLinuxSll \<Rightarrow> 113
      | LtLinuxSll2 \<Rightarrow> 276 | LtOther v \<Rightarrow> v)"

definition pw_create :: "link_type \<Rightarrow> pcap_writer" where
  "pw_create lt =
     \<lparr>pw_out = le_bytes32 PCAP_MAGIC_NS_LE @ le_bytes16 2 @ le_bytes16 4 @ le_bytes32 0 @ le_bytes32 0 @
        le_bytes32 SNAPLEN @ le_bytes32 (link_code lt),
      pw_packets = 0, pw_bytes = 0\<rparr>"

definition pcap_record :: "raw_packet \<Rightarrow> bytes" where
  "pcap_record pkt =
     (let ts = pm_timestamp (rp_meta pkt) in
      le_bytes32 (word_of_int (secs ts)) @ le_bytes32 (nanos ts) @
      le_bytes32 (word_of_nat (length (rp_data pkt))) @ le_bytes32 (pm_wire_len (rp_meta pkt)) @ rp_data pkt)"

definition pw_write :: "pcap_writer \<Rightarrow> raw_packet \<Rightarrow> pcap_writer" where
  "pw_write w pkt =
     w\<lparr>pw_out := pw_out w @ pcap_record pkt, pw_packets := pw_packets w + 1,
       pw_bytes := pw_bytes w + length (rp_data pkt)\<rparr>"

definition pw_file :: "link_type \<Rightarrow> raw_packet list \<Rightarrow> bytes" where
  "pw_file lt pkts = pw_out (foldl pw_write (pw_create lt) pkts)"

lemma pw_file_eq: "pw_file lt pkts = pw_out (pw_create lt) @ concat (map pcap_record pkts)"
proof -
  have "pw_out (foldl pw_write w pkts) = pw_out w @ concat (map pcap_record pkts)" for w
    by (induction pkts arbitrary: w) (auto simp: pw_write_def)
  then show ?thesis by (simp add: pw_file_def)
qed

section \<open>Reading the fields back\<close>

lemma length_le_bytes [simp]: "length (le_bytes32 w) = 4" "length (le_bytes16 h) = 2"
  by (simp_all add: le_bytes32_def le_bytes16_def)

lemma u32_from_le_bytes: "u32_from False (le_bytes32 w) = Ok w"
  by (simp add: u32_from_def le_bytes32_def wire32_def le32_def Let_def)

lemma u32_at_le_bytes:
  "length pre = a \<Longrightarrow> u32_at False (pre @ le_bytes32 w @ post) a = Ok w"
  by (simp add: u32_at_def u32_from_le_bytes)

text \<open>A packet the format can hold: times of 32 bits, normalised; a wire length that covers the data.\<close>

definition writable :: "raw_packet \<Rightarrow> bool" where
  "writable p \<longleftrightarrow>
     length (rp_data p) \<le> unat MAX_PACKET_BYTES \<and>
     0 \<le> secs (pm_timestamp (rp_meta p)) \<and> secs (pm_timestamp (rp_meta p)) < 2 ^ 32 \<and>
     unat (nanos (pm_timestamp (rp_meta p))) < 1000000000 \<and>
     pm_captured_len (rp_meta p) = word_of_nat (length (rp_data p)) \<and>
     pm_captured_len (rp_meta p) \<le> pm_wire_len (rp_meta p)"

definition with_index :: "nat \<Rightarrow> raw_packet \<Rightarrow> raw_packet" where
  "with_index i p = p\<lparr>rp_meta := (rp_meta p)\<lparr>pm_index := i\<rparr>\<rparr>"

fun renumber :: "nat \<Rightarrow> raw_packet list \<Rightarrow> raw_packet list" where
  "renumber i [] = []"
| "renumber i (p # ps) = with_index (Suc i) p # renumber (Suc i) ps"

text \<open>A source in the middle of a file the writer wrote.\<close>

definition in_written :: "file_source \<Rightarrow> bool" where
  "in_written fs \<longleftrightarrow> fs_format fs = Pcap \<and> \<not> fs_big_endian fs \<and> fs_nanosecond_ts fs \<and> \<not> fs_finished fs"

lemma drop_pcap_record [simp]: "drop 16 (pcap_record p) = rp_data p"
  and length_pcap_record [simp]: "length (pcap_record p) = 16 + length (rp_data p)"
  by (simp_all add: pcap_record_def Let_def)

lemma pcap_header_eq:
  "take 16 (pcap_record p) =
     le_bytes32 (word_of_int (secs (pm_timestamp (rp_meta p)))) @ le_bytes32 (nanos (pm_timestamp (rp_meta p))) @
     le_bytes32 (word_of_nat (length (rp_data p))) @ le_bytes32 (pm_wire_len (rp_meta p))"
  by (simp add: pcap_record_def Let_def)

lemma u32_at_four:
  "u32_at False (le_bytes32 a @ le_bytes32 b @ le_bytes32 c @ le_bytes32 d) 0 = Ok a"
  "u32_at False (le_bytes32 a @ le_bytes32 b @ le_bytes32 c @ le_bytes32 d) 4 = Ok b"
  "u32_at False (le_bytes32 a @ le_bytes32 b @ le_bytes32 c @ le_bytes32 d) 8 = Ok c"
  "u32_at False (le_bytes32 a @ le_bytes32 b @ le_bytes32 c @ le_bytes32 d) 12 = Ok d"
proof -
  show "u32_at False (le_bytes32 a @ le_bytes32 b @ le_bytes32 c @ le_bytes32 d) 0 = Ok a"
    by (rule u32_at_le_bytes [where pre = "[]", unfolded append_Nil]) simp
  show "u32_at False (le_bytes32 a @ le_bytes32 b @ le_bytes32 c @ le_bytes32 d) 4 = Ok b"
    by (rule u32_at_le_bytes) simp
  have "u32_at False ((le_bytes32 a @ le_bytes32 b) @ le_bytes32 c @ le_bytes32 d) 8 = Ok c"
    by (rule u32_at_le_bytes) simp
  then show "u32_at False (le_bytes32 a @ le_bytes32 b @ le_bytes32 c @ le_bytes32 d) 8 = Ok c"
    by (simp only: append_assoc)
  have "u32_at False ((le_bytes32 a @ le_bytes32 b @ le_bytes32 c) @ le_bytes32 d @ []) 12 = Ok d"
    by (rule u32_at_le_bytes) simp
  then show "u32_at False (le_bytes32 a @ le_bytes32 b @ le_bytes32 c @ le_bytes32 d) 12 = Ok d"
    by (simp only: append_assoc append_Nil2)
qed

lemma pcap_header_fields:
  "u32_at False (take 16 (pcap_record p)) 0 = Ok (word_of_int (secs (pm_timestamp (rp_meta p))))"
  "u32_at False (take 16 (pcap_record p)) 4 = Ok (nanos (pm_timestamp (rp_meta p)))"
  "u32_at False (take 16 (pcap_record p)) 8 = Ok (word_of_nat (length (rp_data p)))"
  "u32_at False (take 16 (pcap_record p)) 12 = Ok (pm_wire_len (rp_meta p))"
  unfolding pcap_header_eq by (rule u32_at_four)+

lemma next_pcap_record:
  assumes fs: "in_written fs" and p: "writable p" and rest: "fs_rest fs = pcap_record p @ tail"
  shows "next_packet fs = (Ok (Some (with_index (Suc (fs_index fs)) p)),
    fs\<lparr>fs_rest := tail, fs_index := Suc (fs_index fs)\<rparr>)"
proof -
  let ?ts = "pm_timestamp (rp_meta p)" and ?n = "word_of_nat (length (rp_data p)) :: u32"
  let ?fs1 = "fs\<lparr>fs_rest := rp_data p @ tail\<rparr>"
  have 1: "read_exact 16 fs = (Some (take 16 (pcap_record p)), ?fs1)"
    by (simp add: read_exact_def rest)
  have n: "unat ?n = length (rp_data p)"
    using p by (simp add: writable_def unat_of_nat)
  have lim: "\<not> MAX_PACKET_BYTES < ?n"
    using p n by (simp add: writable_def word_less_nat_alt)
  have 2: "read_exact (unat ?n) (?fs1\<lparr>fs_index := Suc (fs_index fs)\<rparr>) =
      (Some (rp_data p), fs\<lparr>fs_rest := tail, fs_index := Suc (fs_index fs)\<rparr>)"
    by (simp add: read_exact_def n)
  have ts: "ts_new (uint (word_of_int (secs ?ts) :: u32)) (nanos ?ts) = ?ts"
    using p by (simp add: writable_def ts_new_id uint_word_of_int)
  have pkt: "raw_packet_new i ?ts (max (pm_wire_len (rp_meta p)) ?n) (rp_data p) = with_index i p" for i
    using p by (cases p; cases "rp_meta p") (simp add: raw_packet_new_def with_index_def writable_def max_absorb1)
  show ?thesis
    using fs lim 2 ts pkt
    by (simp add: next_packet_def next_pcap_def in_written_def 1 pcap_header_fields Let_def)
qed

lemma next_pcap_cut:
  assumes fs: "in_written fs" and p: "writable p" and k: "k < 16 + length (rp_data p)"
    and rest: "fs_rest fs = take k (pcap_record p @ tail)"
  shows "fst (next_packet fs) = Ok None"
proof (cases "k < 16")
  case True
  then have "length (fs_rest fs) < 16" by (simp add: rest)
  then show ?thesis using fs by (simp add: next_packet_def in_written_def next_pcap_def read_exact_def)
next
  case False
  let ?n = "word_of_nat (length (rp_data p)) :: u32"
  let ?fs1 = "fs\<lparr>fs_rest := take (k - 16) (rp_data p)\<rparr>"
  have "fs_rest fs = take k (pcap_record p)" using k by (simp add: rest)
  then have 1: "read_exact 16 fs = (Some (take 16 (pcap_record p)), ?fs1)"
    using False by (simp add: read_exact_def drop_take)
  have n: "unat ?n = length (rp_data p)"
    using p by (simp add: writable_def unat_of_nat)
  have lim: "\<not> MAX_PACKET_BYTES < ?n"
    using p n by (simp add: writable_def word_less_nat_alt)
  have 2: "fst (read_exact (unat ?n) (?fs1\<lparr>fs_index := Suc (fs_index fs)\<rparr>)) = None"
    using k False by (simp add: read_exact_def n)
  show ?thesis
    using fs lim 2
    by (auto simp: next_packet_def next_pcap_def in_written_def 1 pcap_header_fields Let_def split: prod.splits)
qed

text \<open>The packets that are whole within the first \<open>k\<close> bytes of the records.\<close>

fun whole_records :: "nat \<Rightarrow> raw_packet list \<Rightarrow> nat" where
  "whole_records k [] = 0"
| "whole_records k (p # ps) =
     (if 16 + length (rp_data p) \<le> k then Suc (whole_records (k - (16 + length (rp_data p))) ps) else 0)"

lemma read_all_written:
  assumes "in_written fs" and "list_all writable pkts" and "fs_rest fs = take k (concat (map pcap_record pkts))"
  shows "read_all fs = map Ok (take (whole_records k pkts) (renumber (fs_index fs) pkts))"
  using assms
proof (induction pkts arbitrary: fs k)
  case Nil
  then have "next_packet fs = (Ok None, fs\<lparr>fs_rest := [], fs_finished := True\<rparr>)"
    by (simp add: next_packet_def in_written_def next_pcap_def read_exact_def)
  then show ?case by (simp add: read_all.simps)
next
  case (Cons p ps)
  then have p: "writable p" by simp
  show ?case
  proof (cases "16 + length (rp_data p) \<le> k")
    case True
    let ?k = "k - (16 + length (rp_data p))"
    let ?fs = "fs\<lparr>fs_rest := take ?k (concat (map pcap_record ps)), fs_index := Suc (fs_index fs)\<rparr>"
    have "fs_rest fs = pcap_record p @ take ?k (concat (map pcap_record ps))"
      using Cons.prems(3) True by simp
    note n = next_pcap_record [OF Cons.prems(1) p this]
    have "read_all ?fs = map Ok (take (whole_records ?k ps) (renumber (fs_index ?fs) ps))"
      by (rule Cons.IH) (use Cons.prems in \<open>simp_all add: in_written_def\<close>)
    with n True show ?thesis by (subst read_all.simps) simp
  next
    case False
    then have k: "k < 16 + length (rp_data p)" by simp
    have "fs_rest fs = take k (pcap_record p @ concat (map pcap_record ps))" using Cons.prems(3) by simp
    from next_pcap_cut [OF Cons.prems(1) p k this] False show ?thesis
      by (subst read_all.simps) (cases "next_packet fs", simp)
  qed
qed

section \<open>Round trips\<close>

definition plain_link :: "link_type \<Rightarrow> bool" where
  "plain_link lt \<longleftrightarrow> (case lt of LtOther v \<Rightarrow> v \<notin> {0, 1, 12, 14, 101, 108, 113, 276} | _ \<Rightarrow> True)"

lemma link_type_from_code: "plain_link lt \<Longrightarrow> link_type_from (link_code lt) = lt"
  by (cases lt) (auto simp: plain_link_def link_code_def link_type_from_def)

lemma open_written:
  assumes "plain_link lt" and "24 \<le> k"
  shows "\<exists>fs. from_reader_labelled (take k (pw_file lt pkts)) path = Ok fs \<and> fs_link_type fs = lt \<and> fs_index fs = 0 \<and>
    in_written fs \<and> fs_rest fs = take (k - 24) (concat (map pcap_record pkts))"
proof -
  let ?out = "concat (map pcap_record pkts)"
  have eq: "take k (pw_file lt pkts) = le_bytes32 PCAP_MAGIC_NS_LE @
      (le_bytes16 2 @ le_bytes16 4 @ le_bytes32 0 @ le_bytes32 0 @ le_bytes32 SNAPLEN @
       le_bytes32 (link_code lt)) @ take (k - 24) ?out"
    using assms(2) by (simp add: pw_file_eq pw_create_def)
  let ?hdr = "le_bytes16 2 @ le_bytes16 4 @ le_bytes32 0 @ le_bytes32 0 @ le_bytes32 SNAPLEN @ le_bytes32 (link_code lt)"
  have "u32_at False ((le_bytes16 2 @ le_bytes16 4 @ le_bytes32 0 @ le_bytes32 0 @ le_bytes32 SNAPLEN) @
      le_bytes32 (link_code lt) @ []) 16 = (Ok (link_code lt) :: (u32, capture_error) res)"
    by (rule u32_at_le_bytes) simp
  then have link: "u32_at False ?hdr 16 = (Ok (link_code lt) :: (u32, capture_error) res)"
    by (simp only: append_assoc append_Nil2)
  have magic: "PCAP_MAGIC_NS_LE \<noteq> PCAP_MAGIC_LE" by (simp add: file_consts)
  have len: "length ?hdr = 20" by simp
  show ?thesis
    unfolding eq from_reader_labelled_def
    by (simp add: read_exact_def u32_from_le_bytes magic read_pcap_header_def link [simplified]
        link_type_from_code [OF assms(1)] in_written_def)
qed

lemma reopen_labelled:
  assumes "plain_link lt" and "list_all writable pkts"
  shows "returns (\<lambda>fs. fs_link_type fs = lt \<and> read_all fs = map Ok (renumber 0 pkts))
    (from_reader_labelled (pw_file lt pkts) path)"
proof -
  let ?k = "length (pw_file lt pkts)"
  have k: "?k = 24 + length (concat (map pcap_record pkts))" by (simp add: pw_file_eq pw_create_def)
  have all: "whole_records (length (concat (map pcap_record ps))) ps = length ps" for ps
    by (induction ps) auto
  have len: "length (renumber i ps) = length ps" for i ps by (induction ps arbitrary: i) auto
  obtain fs where fs: "from_reader_labelled (take ?k (pw_file lt pkts)) path = Ok fs" "fs_link_type fs = lt" "fs_index fs = 0"
    "in_written fs" "fs_rest fs = take (?k - 24) (concat (map pcap_record pkts))"
    using open_written [OF assms(1), of ?k pkts path] k by auto
  from read_all_written [OF fs(4) assms(2) fs(5)] fs(1,2,3) show ?thesis
    by (simp add: k all len)
qed

lemma reopen_written:
  assumes "plain_link lt" and "list_all writable pkts"
  shows "returns (\<lambda>fs. fs_link_type fs = lt \<and> read_all fs = map Ok (renumber 0 pkts))
    (from_bytes (pw_file lt pkts))"
  unfolding from_bytes_def by (rule reopen_labelled [OF assms])

text \<open>
  Writing a capture and reading it back gives the same packets with the same link type, times to
  the nanosecond, lengths and bytes, renumbered from 1, and nothing else.
\<close>

lemma pcap_round_trip:
  assumes "plain_link lt" and "list_all writable pkts"
  shows "returns (\<lambda>fs. fs_link_type fs = lt \<and> read_all fs = map Ok (renumber 0 pkts))
    (from_bytes (pw_file lt pkts))"
  by (rule reopen_written [OF assms])


definition sample_raw :: "bytes \<Rightarrow> raw_packet" where
  "sample_raw data = raw_packet_new 7 (ts_new 1786365296 500000000) 64 data"

lemma pcap_round_trip_witness:
  "returns (\<lambda>fs. fs_link_type fs = LtRaw \<and>
      read_all fs = map Ok (renumber 0 [sample_raw [0x45, 0, 0, 20], sample_raw []]))
    (from_bytes (pw_file LtRaw [sample_raw [0x45, 0, 0, 20], sample_raw []]))"
  by (rule pcap_round_trip)
    (simp_all add: plain_link_def writable_def sample_raw_def raw_packet_new_def ts_new_id)


end
