(* ===== verification/Pipeline.thy ===== *)
theory Pipeline
  imports Report CaptureFile
begin

text \<open>
  \<open>pipeline.rs\<close> of the command-line program: the loop that drives a capture source through the decoder
  into a fresh analyzer.  The hook is modelled by what it is given, the list of decoded packets.  The
  loop is compared with a reference on the list of everything the source yields; opening a path is
  file I/O and stands outside.
\<close>

section \<open>The loop\<close>

record run_stats =
  rn_packets :: nat
  rn_read_errors :: "string list"

definition run_stats_default :: run_stats where
  "run_stats_default = \<lparr>rn_packets = 0, rn_read_errors = []\<rparr>"

text \<open>\<open>limit.is_some_and(|n| packets >= n)\<close>\<close>

definition limit_hit :: "nat option \<Rightarrow> nat \<Rightarrow> bool" where
  "limit_hit limit packets = (case limit of None \<Rightarrow> False | Some n \<Rightarrow> n \<le> packets)"

function run_loop ::
  "(bytes \<Rightarrow> bytes) \<Rightarrow> link_type \<Rightarrow> nat option \<Rightarrow> file_source \<Rightarrow> analyzer \<Rightarrow> run_stats \<Rightarrow>
     decoded_packet list \<Rightarrow> (analyzer \<times> run_stats \<times> decoded_packet list) dres" where
  "run_loop md5 lt limit fs a st seen =
     (case next_packet fs of
        (Ok None, _) \<Rightarrow> Ok (a, st, seen)
      | (Ok (Some raw), fs') \<Rightarrow>
          and_then (decode md5 (rp_meta raw) (Slice 0 (rp_data raw)) lt) (\<lambda>pkt.
          and_then (observe md5 pkt (rp_data raw) a) (\<lambda>a'.
          let seen' = seen @ [pkt]; st' = st\<lparr>rn_packets := rn_packets st + 1\<rparr> in
          if limit_hit limit (rn_packets st') then Ok (a', st', seen')
          else run_loop md5 lt limit fs' a' st' seen'))
      | (Err e, fs') \<Rightarrow>
          let st' = st\<lparr>rn_read_errors := rn_read_errors st @ [show_capture_error e]\<rparr> in
          if length (rn_read_errors st') \<ge> 8 then Ok (a, st', seen)
          else run_loop md5 lt limit fs' a st' seen
      | (Panic, _) \<Rightarrow> Panic)"
  by pat_completeness auto
termination
  by (relation "measure (\<lambda>(_, _, _, fs, _). length (fs_rest fs))") (auto dest: next_packet_out [OF sym])

declare run_loop.simps [simp del]

definition run ::
  "(bytes \<Rightarrow> bytes) \<Rightarrow> file_source \<Rightarrow> analysis_config \<Rightarrow> nat option \<Rightarrow>
     (analyzer \<times> run_stats \<times> decoded_packet list) dres" where
  "run md5 fs config limit =
     run_loop md5 (fs_link_type fs) limit fs (an_new config) run_stats_default []"

definition explain :: "capture_error \<Rightarrow> string" where
  "explain e =
     (case e of
        CeLiveUnavailable \<Rightarrow>
          ''This build has no live-capture support. Rebuild with `cargo build --release --features live` (see README for the Npcap SDK step on Windows).''
      | other \<Rightarrow> show_capture_error other)"

section \<open>The loop against everything the source yields\<close>

text \<open>
  The reference: of the results the source yields, the packets taken and the errors noted, given how
  many of each there were before.
\<close>

fun consumed ::
  "nat option \<Rightarrow> nat \<Rightarrow> nat \<Rightarrow> (raw_packet, capture_error) res list \<Rightarrow> raw_packet list \<times> capture_error list" where
  "consumed limit n e [] = ([], [])"
| "consumed limit n e (Ok raw # rs) =
     (if limit_hit limit (n + 1) then ([raw], [])
      else let (ps, es) = consumed limit (n + 1) e rs in (raw # ps, es))"
| "consumed limit n e (Err err # rs) =
     (if e + 1 \<ge> 8 then ([], [err])
      else let (ps, es) = consumed limit n (e + 1) rs in (ps, err # es))"
| "consumed limit n e (Panic # rs) = ([], [])"

definition decoded_from :: "(bytes \<Rightarrow> bytes) \<Rightarrow> link_type \<Rightarrow> raw_packet \<Rightarrow> decoded_packet \<times> bytes \<Rightarrow> bool" where
  "decoded_from md5 lt raw = (\<lambda>(pkt, frame).
     decode md5 (rp_meta raw) (Slice 0 (rp_data raw)) lt = Ok pkt \<and> frame = rp_data raw)"

definition loop_ok ::
  "(bytes \<Rightarrow> bytes) \<Rightarrow> link_type \<Rightarrow> raw_packet list \<Rightarrow> capture_error list \<Rightarrow> analyzer \<Rightarrow> run_stats \<Rightarrow>
     decoded_packet list \<Rightarrow> analyzer \<times> run_stats \<times> decoded_packet list \<Rightarrow> bool" where
  "loop_ok md5 lt raws errs a st seen = (\<lambda>(a', st', seen').
     \<exists>ps. list_all2 (decoded_from md5 lt) raws ps \<and> observe_all md5 ps a = Ok a' \<and>
       seen' = seen @ map fst ps \<and> rn_packets st' = rn_packets st + length ps \<and>
       rn_read_errors st' = rn_read_errors st @ map show_capture_error errs)"

lemma loop_ok_Cons:
  assumes "decode md5 (rp_meta raw) (Slice 0 (rp_data raw)) lt = Ok pkt"
    and "observe md5 pkt (rp_data raw) a = Ok a1"
    and "loop_ok md5 lt raws errs a1 (st\<lparr>rn_packets := rn_packets st + 1\<rparr>) (seen @ [pkt]) out"
  shows "loop_ok md5 lt (raw # raws) errs a st seen out"
proof -
  obtain a' st' seen' where out: "out = (a', st', seen')" by (cases out) auto
  with assms(3) obtain ps where ps: "list_all2 (decoded_from md5 lt) raws ps" "observe_all md5 ps a1 = Ok a'"
    "seen' = (seen @ [pkt]) @ map fst ps" "rn_packets st' = rn_packets st + 1 + length ps"
    "rn_read_errors st' = rn_read_errors st @ map show_capture_error errs"
    by (auto simp: loop_ok_def)
  then show ?thesis
    unfolding loop_ok_def out case_prod_conv
    by (intro exI [of _ "(pkt, rp_data raw) # ps"]) (simp add: assms(1,2) decoded_from_def)
qed

lemma run_loop_consumes:
  assumes "source_ok fs" and "analyzer_ok a"
  shows "returns (\<lambda>out. loop_ok md5 lt (fst (consumed limit (rn_packets st) (length (rn_read_errors st)) (read_all fs)))
      (snd (consumed limit (rn_packets st) (length (rn_read_errors st)) (read_all fs))) a st seen out)
    (run_loop md5 lt limit fs a st seen)"
  using assms
proof (induction md5 lt limit fs a st seen rule: run_loop.induct)
  case (1 md5 lt limit fs a st seen)
  obtain r fs' where n: "next_packet fs = (r, fs')" by force
  have ok: "r \<noteq> Panic" "source_ok fs'"
    using next_packet_ok [OF "1.prems"(1)] by (auto simp: n outcome_ok_def dest: safe_not_Panic)
  have rest: "read_all fs = (case r of Ok None \<Rightarrow> [] | Ok (Some p) \<Rightarrow> Ok p # read_all fs'
      | Err e \<Rightarrow> Err e # read_all fs' | Panic \<Rightarrow> [Panic])"
    by (subst read_all.simps) (simp add: n split: res.splits option.splits)
  show ?case
  proof (cases r)
    case (Ok x)
    show ?thesis
    proof (cases x)
      case None
      then show ?thesis
        using Ok by (simp add: run_loop.simps [of _ _ _ fs] n rest loop_ok_def)
    next
      case (Some raw)
      obtain pkt where d: "decode md5 (rp_meta raw) (Slice 0 (rp_data raw)) lt = Ok pkt"
      proof -
        have "returns (packet_ok (Slice 0 (rp_data raw))) (decode md5 (rp_meta raw) (Slice 0 (rp_data raw)) lt)"
          by (rule returnsI [OF safe_decode no_err_decode])
        then show thesis by (cases "decode md5 (rp_meta raw) (Slice 0 (rp_data raw)) lt") (auto intro: that)
      qed
      obtain a1 where o1: "observe md5 pkt (rp_data raw) a = Ok a1" "analyzer_ok a1"
        using returns_observe [OF "1.prems"(2), of md5 pkt "rp_data raw"]
        by (cases "observe md5 pkt (rp_data raw) a") auto
      let ?st = "st\<lparr>rn_packets := rn_packets st + 1\<rparr>"
      show ?thesis
      proof (cases "limit_hit limit (rn_packets ?st)")
        case True
        have "loop_ok md5 lt [] [] a1 ?st (seen @ [pkt]) (a1, ?st, seen @ [pkt])"
          by (simp add: loop_ok_def)
        from loop_ok_Cons [OF d o1(1) this] show ?thesis
          using True by (simp add: run_loop.simps [of _ _ _ fs] n Ok Some d o1 rest Let_def)
      next
        case False
        have "returns (loop_ok md5 lt (fst (consumed limit (rn_packets ?st) (length (rn_read_errors ?st)) (read_all fs')))
            (snd (consumed limit (rn_packets ?st) (length (rn_read_errors ?st)) (read_all fs'))) a1 ?st (seen @ [pkt]))
          (run_loop md5 lt limit fs' a1 ?st (seen @ [pkt]))"
          by (rule "1.IH"(1) [OF n [symmetric, unfolded Ok Some] refl refl d o1(1) refl refl False ok(2) o1(2)])
        then have "returns (loop_ok md5 lt (raw # fst (consumed limit (rn_packets ?st) (length (rn_read_errors ?st)) (read_all fs')))
            (snd (consumed limit (rn_packets ?st) (length (rn_read_errors ?st)) (read_all fs'))) a st seen)
          (run_loop md5 lt limit fs' a1 ?st (seen @ [pkt]))"
          by (rule returns_mono) (rule loop_ok_Cons [OF d o1(1)])
        then show ?thesis
          using False by (simp add: run_loop.simps [of _ _ _ fs] n Ok Some d o1 rest case_prod_beta Let_def)
      qed
    qed
  next
    case (Err e)
    let ?st = "st\<lparr>rn_read_errors := rn_read_errors st @ [show_capture_error e]\<rparr>"
    show ?thesis
    proof (cases "length (rn_read_errors ?st) \<ge> 8")
      case True
      then show ?thesis
        by (simp add: run_loop.simps [of _ _ _ fs] n Err rest loop_ok_def Let_def)
    next
      case False
      have "returns (loop_ok md5 lt (fst (consumed limit (rn_packets ?st) (length (rn_read_errors ?st)) (read_all fs')))
          (snd (consumed limit (rn_packets ?st) (length (rn_read_errors ?st)) (read_all fs'))) a ?st seen)
        (run_loop md5 lt limit fs' a ?st seen)"
        by (rule "1.IH"(2) [OF n [symmetric, unfolded Err] refl refl False ok(2) "1.prems"(2)])
      then have "returns (loop_ok md5 lt (fst (consumed limit (rn_packets st) (length (rn_read_errors ?st)) (read_all fs')))
          (e # snd (consumed limit (rn_packets st) (length (rn_read_errors ?st)) (read_all fs'))) a st seen)
        (run_loop md5 lt limit fs' a ?st seen)"
        by (rule returns_mono) (auto simp: loop_ok_def)
      then show ?thesis
        using False by (simp add: run_loop.simps [of _ _ _ fs] n Err rest case_prod_beta Let_def)
    qed
  next
    case Panic
    then show ?thesis using ok by simp
  qed
qed

section \<open>Decoded addresses have their width\<close>

definition network_wf :: "decoded_packet \<Rightarrow> bool" where
  "network_wf p \<longleftrightarrow> (case pk_network p of NetIpv4 h \<Rightarrow> ip4_wf h | NetIpv6 h \<Rightarrow> ip6_wf h | _ \<Rightarrow> True)"

lemma network_wf_packet: "network_wf p \<Longrightarrow> packet_wf p"
  by (simp add: network_wf_def packet_wf_def src_ip_def dst_ip_def ip4_wf_def ip6_wf_def
      split: network_layer.splits)

lemma network_wf_update [simp]:
  "network_wf (p\<lparr>pk_transport := t\<rparr>) = network_wf p" "network_wf (p\<lparr>pk_app := a\<rparr>) = network_wf p"
  "network_wf (p\<lparr>pk_payload_len := n\<rparr>) = network_wf p" "network_wf (p\<lparr>pk_payload_offset := n\<rparr>) = network_wf p"
  "network_wf (p\<lparr>pk_ip_payload := i\<rparr>) = network_wf p" "network_wf (p\<lparr>pk_link := l\<rparr>) = network_wf p"
  "network_wf (push_warning w p) = network_wf p" "network_wf (empty_packet m)"
  by (simp_all add: network_wf_def push_warning_def empty_packet_def)

lemma decode_app_wf: "network_wf pkt \<Longrightarrow> safe network_wf (decode_app md5 pkt ports payload tcp)"
  unfolding decode_app_def by (rule safe_and_then [OF safe_app_from_payload]) simp

lemma decode_transport_wf:
  assumes "network_wf pkt" shows "safe network_wf (decode_transport md5 pkt protocol l4 frame app)"
  unfolding decode_transport_def Let_def warn_def
  by (intro safe_if_step safe_match_res [OF safe_parse_tcp] safe_match_res [OF safe_parse_udp]
        safe_match_res [OF safe_parse_icmp] safe_Ok_step)
    (use assms in \<open>auto intro!: decode_app_wf\<close>)

lemma decode_network_wf:
  assumes "network_wf pkt" shows "safe network_wf (decode_network md5 pkt ethertype l3 frame)"
  unfolding decode_network_def decode_ip_payload_def Let_def warn_def
  by (intro safe_if_step safe_match_res [OF safe_parse_ipv4] safe_match_res [OF safe_parse_ipv6]
        safe_match_res [OF safe_parse_arp] safe_Ok_step)
    (use assms in \<open>auto intro!: decode_transport_wf simp: network_wf_def push_warning_def\<close>)

lemma decode_link_Ok:
  assumes "network_wf pkt" and "decode_link pkt bs lt = Ok r"
  shows "case r of Inl p \<Rightarrow> network_wf p | Inr (p, _, _) \<Rightarrow> network_wf p"
proof (cases lt)
  case LtEthernet
  then show ?thesis
    using assms by (cases "parse_ethernet bs") (auto simp: decode_link_def)
qed (use assms in \<open>auto simp: decode_link_def Let_def split: if_splits list.splits\<close>)

lemma decode_link_wf:
  "safe (\<lambda>r. case r of Inl p \<Rightarrow> network_wf p | Inr (p, _, _) \<Rightarrow> network_wf p)
     (decode_link (empty_packet m) bs lt)"
  using safe_decode_link [of bs m lt] decode_link_Ok [of "empty_packet m" bs lt]
  by (cases "decode_link (empty_packet m) bs lt") auto

lemma decode_network_typed: "safe network_wf (decode md5 meta bs lt)"
  unfolding decode_def
  by (rule safe_and_then [OF decode_link_wf]) (auto intro!: decode_network_wf split: sum.splits)

lemma decode_wf: "decode md5 meta bs lt = Ok p \<Longrightarrow> packet_wf p"
  using decode_network_typed [of md5 meta bs lt] by (auto intro: network_wf_packet)


section \<open>What a run returns\<close>

lemma consumed_bounds:
  "e < 8 \<Longrightarrow> e + length (snd (consumed limit n e rs)) \<le> 8"
  "n + length (fst (consumed (Some m) n e rs)) \<le> max (n + 1) m \<or> fst (consumed (Some m) n e rs) = []"
proof -
  show "e < 8 \<Longrightarrow> e + length (snd (consumed limit n e rs)) \<le> 8"
    by (induction limit n e rs rule: consumed.induct) (auto simp: case_prod_beta)
  show "n + length (fst (consumed (Some m) n e rs)) \<le> max (n + 1) m \<or> fst (consumed (Some m) n e rs) = []"
    by (induction "Some m" n e rs rule: consumed.induct) (auto simp: case_prod_beta limit_hit_def)
qed

lemma consumed_clean: "consumed None n e (map Ok raws) = (raws, [])"
  by (induction raws arbitrary: n) (auto simp: limit_hit_def)

definition run_ok ::
  "(bytes \<Rightarrow> bytes) \<Rightarrow> file_source \<Rightarrow> nat option \<Rightarrow> analyzer \<times> run_stats \<times> decoded_packet list \<Rightarrow> bool" where
  "run_ok md5 fs limit = (\<lambda>(a, st, seen).
     let (raws, errs) = consumed limit 0 0 (read_all fs) in
     analyzer_ok a \<and> conserved seen a \<and> an_ioc a = None \<and> list_all packet_wf seen \<and>
     list_all2 (\<lambda>raw pkt. decode md5 (rp_meta raw) (Slice 0 (rp_data raw)) (fs_link_type fs) = Ok pkt) raws seen \<and>
     rn_packets st = length seen \<and> rn_read_errors st = map show_capture_error errs \<and>
     length (rn_read_errors st) \<le> 8 \<and> pred_option (\<lambda>n. rn_packets st \<le> max 1 n) limit)"

lemma run_returns:
  assumes "source_ok fs" shows "returns (run_ok md5 fs limit) (run md5 fs cfg limit)"
proof -
  obtain raws errs where c: "consumed limit 0 0 (read_all fs) = (raws, errs)" by force
  have errs: "length errs \<le> 8" using consumed_bounds(1) [of 0 limit 0 "read_all fs"] by (simp add: c)
  have raws: "pred_option (\<lambda>n. length raws \<le> max 1 n) limit"
    using consumed_bounds(2) [of 0 "the limit" 0 "read_all fs"] c by (cases limit) auto
  have "returns (loop_ok md5 (fs_link_type fs) raws errs (an_new cfg) run_stats_default [])
      (run md5 fs cfg limit)"
    using run_loop_consumes [OF assms analyzer_ok_new, of md5 "fs_link_type fs" limit run_stats_default cfg "[]"] c
    by (simp add: run_def run_stats_default_def)
  then show ?thesis
  proof (rule returns_mono)
    fix out assume out: "loop_ok md5 (fs_link_type fs) raws errs (an_new cfg) run_stats_default [] out"
    then obtain a st seen ps where ps: "out = (a, st, seen)" "list_all2 (decoded_from md5 (fs_link_type fs)) raws ps"
      "observe_all md5 ps (an_new cfg) = Ok a" "seen = map fst ps" "rn_packets st = length ps"
      "rn_read_errors st = map show_capture_error errs"
      by (cases out) (auto simp: loop_ok_def run_stats_default_def)
    have "list_all2 (\<lambda>raw pkt. decode md5 (rp_meta raw) (Slice 0 (rp_data raw)) (fs_link_type fs) = Ok pkt) raws seen"
      using ps(2) unfolding ps(4) list_all2_map2 by (rule list_all2_mono) (auto simp: decoded_from_def)
    moreover from this have "list_all packet_wf seen"
      by (auto simp: list_all_iff list_all2_conv_all_nth set_conv_nth intro: decode_wf)
    moreover have "analyzer_ok a"
      using returns_observe_all [OF analyzer_ok_new, of md5 ps cfg] by (simp add: ps(3))
    moreover have "length raws = length ps" using ps(2) by (rule list_all2_lengthD)
    ultimately show "run_ok md5 fs limit out"
      using conserved_run [OF ps(3)] config_run [OF ps(3)] raws errs by (simp add: run_ok_def ps c)
  qed
qed

lemma run_observed:
  assumes "source_ok fs" and "run md5 fs cfg limit = Ok (a, st, seen)"
  shows "\<exists>ps. observe_all md5 ps (an_new cfg) = Ok a \<and> seen = map fst ps"
  using run_loop_consumes [OF assms(1) analyzer_ok_new, of md5 "fs_link_type fs" limit run_stats_default cfg "[]"]
    assms(2) by (auto simp: run_def loop_ok_def)

text \<open>
  C2. Running the program on any bytes never panics and always ends.  The packets it analyses are the
  decodings of the packets the source yields, in order, up to the limit or the eighth read error; the
  hook saw each of them once; the errors are reported; and the analyzer accounts for exactly these
  packets.
\<close>

theorem pipeline_run:
  "safe (\<lambda>fs. returns (run_ok md5 fs limit) (run md5 fs cfg limit)) (from_bytes input)"
  by (rule safe_mono [OF from_bytes_ok]) (simp add: run_returns)

text \<open>
  The link type is asked for once, before the first packet: every packet of a pcapng file is decoded
  as Ethernet, whatever link type its interface declares.
\<close>

lemma pcapng_decoded_as_ethernet:
  "safe (\<lambda>fs. fs_format fs = Pcap \<or>
      returns (\<lambda>(a, st, seen). list_all2 (\<lambda>raw pkt.
          decode md5 (rp_meta raw) (Slice 0 (rp_data raw)) LtEthernet = Ok pkt)
        (fst (consumed limit 0 0 (read_all fs))) seen)
      (run md5 fs cfg limit)) (from_bytes input)"
proof (rule safe_mono [OF from_bytes_ok])
  fix fs assume fs: "source_ok fs \<and> (fs_format fs = Pcap \<or> fs_link_type fs = LtEthernet)"
  show "fs_format fs = Pcap \<or> returns (\<lambda>(a, st, seen). list_all2 (\<lambda>raw pkt.
          decode md5 (rp_meta raw) (Slice 0 (rp_data raw)) LtEthernet = Ok pkt)
        (fst (consumed limit 0 0 (read_all fs))) seen) (run md5 fs cfg limit)"
  proof (cases "fs_format fs = Pcap")
    case False
    have "returns (run_ok md5 fs limit) (run md5 fs cfg limit)" using fs by (intro run_returns) simp
    then show ?thesis
      using fs by (cases "run md5 fs cfg limit") (auto simp: run_ok_def split: prod.splits)
  qed simp
qed

end
