(* ===== verification/IocFeeds.thy ===== *)
theory IocFeeds
  imports Ioc
begin

text \<open>
  The two text readers that fill an \<open>ioc_set\<close>: the indicator list of \<open>cbna-capture/ioc.rs\<close> and the
  downloaded feeds of \<open>cbna-intel\<close> (\<open>feed.rs\<close>, \<open>parse.rs\<close>).  Stopping at a full set loses nothing; the
  CSV splitter is the inverse of quoting.
\<close>

section \<open>Indicator lists\<close>

record ioc_warning =
  iw_line :: nat
  iw_text :: string
  iw_reason :: string

definition MAX_WARNINGS :: nat where "MAX_WARNINGS = 100"

definition NL :: u8 where "NL = 10"

text \<open>What is left of a line: before the first \<open>#\<close>, trimmed.\<close>

definition line_token :: "bytes \<Rightarrow> string" where
  "line_token raw = trim (hd (split_on CHR ''#'' (from_utf8_lossy raw)))"

fun iocs_loop ::
  "nat \<Rightarrow> bytes list \<Rightarrow> ioc_set \<Rightarrow> ioc_warning list \<Rightarrow> (ioc_set \<times> ioc_warning list, 'e) res" where
  "iocs_loop i [] s0 warnings = Ok (s0, warnings)"
| "iocs_loop i (raw # lines) s0 warnings =
     (let token = line_token raw in
      if token = [] then iocs_loop (i + 1) lines s0 warnings
      else
        case ioc_insert token s0 of
          Ok (_, s1) \<Rightarrow> iocs_loop (i + 1) lines s1 warnings
        | Err reason \<Rightarrow>
            let warnings' = (if length warnings < MAX_WARNINGS
                then warnings @ [\<lparr>iw_line = i + 1, iw_text = token, iw_reason = show_ioc_error reason\<rparr>]
                else warnings)
            in if reason = IocFull then Ok (s0, warnings') else iocs_loop (i + 1) lines s0 warnings'
        | Panic \<Rightarrow> Panic)"

definition parse_iocs :: "bytes \<Rightarrow> (ioc_set \<times> ioc_warning list, 'e) res" where
  "parse_iocs input = iocs_loop 0 (split_on NL input) ioc_default []"

text \<open>The reference: every token in order, whatever cannot be added left out.\<close>

definition add_token :: "ioc_set \<Rightarrow> string \<Rightarrow> ioc_set" where
  "add_token s token = (case ioc_insert token s of Ok (_, s') \<Rightarrow> s' | _ \<Rightarrow> s)"

lemma insert_not_Panic [simp]: "insert_tagged token tag s \<noteq> Panic"
  by (simp add: insert_tagged_def Let_def split: option.splits)

lemma insert_full: "insert_tagged token tag s = Err IocFull \<longleftrightarrow> MAX_INDICATORS \<le> ioc_len s"
  by (auto simp: insert_tagged_def Let_def split: option.splits)

lemma add_token_full: "MAX_INDICATORS \<le> ioc_len s \<Longrightarrow> add_token s token = s"
  by (simp add: add_token_def ioc_insert_def insert_tagged_def)

lemma foldl_add_token_full: "MAX_INDICATORS \<le> ioc_len s \<Longrightarrow> foldl add_token s tokens = s"
  by (induction tokens) (auto simp: add_token_full)

definition list_result :: "bytes list \<Rightarrow> ioc_set \<Rightarrow> ioc_set \<times> ioc_warning list \<Rightarrow> bool" where
  "list_result lines s = (\<lambda>(s', warnings).
     s' = foldl add_token s (filter (\<lambda>t. t \<noteq> []) (map line_token lines)) \<and>
     ioc_ok s' \<and> ioc_len s' \<le> MAX_INDICATORS \<and> length warnings \<le> MAX_WARNINGS)"

lemma ioc_len_default [simp]: "ioc_len ioc_default = 0"
  by (simp add: ioc_default_def ioc_len_def)

lemma iocs_loop_result:
  "ioc_ok s \<Longrightarrow> ioc_len s \<le> MAX_INDICATORS \<Longrightarrow> length ws \<le> MAX_WARNINGS \<Longrightarrow>
     returns (list_result lines s) (iocs_loop i lines s ws)"
proof (induction lines arbitrary: i s ws)
  case (Cons raw lines)
  let ?t = "line_token raw"
  show ?case
  proof (cases "?t = []")
    case True
    then show ?thesis using Cons.IH [OF Cons.prems, of "i + 1"] by (simp add: list_result_def)
  next
    case False
    show ?thesis
    proof (cases "ioc_insert ?t s")
      case (Ok p)
      obtain k s' where p: "p = (k, s')" by force
      then have ins: "insert_tagged ?t None s = Ok (k, s')" using Ok by (simp add: ioc_insert_def)
      have "add_token s ?t = s'" by (simp add: add_token_def Ok p)
      moreover note Cons.IH [of s' ws "i + 1"] ioc_ok_insert [OF Cons.prems(1) ins] Cons.prems(3)
      ultimately show ?thesis using False Ok p by (simp add: list_result_def)
    next
      case (Err reason)
      let ?ws = "if length ws < MAX_WARNINGS
        then ws @ [\<lparr>iw_line = i + 1, iw_text = ?t, iw_reason = show_ioc_error reason\<rparr>] else ws"
      have ws: "length ?ws \<le> MAX_WARNINGS" using Cons.prems(3) by simp
      have same: "add_token s ?t = s" by (simp add: add_token_def Err)
      show ?thesis
      proof (cases "reason = IocFull")
        case True
        then have "MAX_INDICATORS \<le> ioc_len s" using Err insert_full by (simp add: ioc_insert_def)
        then show ?thesis
          using False Err True ws Cons.prems by (simp add: list_result_def foldl_add_token_full same)
      next
        case False': False
        show ?thesis using Cons.IH [OF Cons.prems(1,2) ws, of "i + 1"] False False' Err by (simp add: list_result_def same Let_def)
      qed
    next
      case Panic
      then show ?thesis by (simp add: ioc_insert_def)
    qed
  qed
qed (simp add: list_result_def)

text \<open>
  Reading an indicator list never fails on any bytes: the set is what inserting every token of the
  list in order gives (stopping at a full set loses nothing), it stays within 4,000,000 indicators
  and in normal form, and at most 100 warnings are kept.
\<close>

lemma parse_iocs_reads_list:
  "returns (list_result (split_on NL input) ioc_default) (parse_iocs input)"
  unfolding parse_iocs_def
  by (rule iocs_loop_result) simp_all

section \<open>Feeds\<close>

datatype feed_format =
    FmtLines
  | FmtCsv nat "nat option"
  | FmtUrlCsv nat "nat option"

record feed =
  fd_id :: string
  fd_name :: string
  fd_url :: string
  fd_format :: feed_format
  fd_needs_auth :: bool
  fd_default_tag :: "string option"

definition BUILTIN :: "feed list" where
  "BUILTIN =
     [\<lparr>fd_id = ''feodo'', fd_name = ''Feodo Tracker (botnet C2 IPs)'',
       fd_url = ''https://feodotracker.abuse.ch/downloads/ipblocklist_recommended.txt'',
       fd_format = FmtLines, fd_needs_auth = False, fd_default_tag = Some ''botnet-c2''\<rparr>,
      \<lparr>fd_id = ''sslbl'', fd_name = ''SSLBL (malicious JA3 fingerprints)'',
       fd_url = ''https://sslbl.abuse.ch/blacklist/ja3_fingerprints.csv'',
       fd_format = FmtCsv 0 (Some 3), fd_needs_auth = False, fd_default_tag = None\<rparr>,
      \<lparr>fd_id = ''urlhaus'', fd_name = ''URLhaus (malware distribution URLs)'',
       fd_url = ''https://urlhaus.abuse.ch/downloads/csv_online/'',
       fd_format = FmtUrlCsv 2 (Some 5), fd_needs_auth = False, fd_default_tag = None\<rparr>]"

definition by_id :: "string \<Rightarrow> feed option" where
  "by_id i = find (\<lambda>f. fd_id f = i) BUILTIN"

text \<open>The quote character and the state machine of \<open>split_csv\<close>: the current field, the cols out.\<close>

definition QUOTE :: char where "QUOTE = CHR 0x22"

fun csv_loop :: "string \<Rightarrow> bool \<Rightarrow> string \<Rightarrow> string list \<Rightarrow> string list" where
  "csv_loop [] in_quotes cur out = out @ [cur]"
| "csv_loop (c # chars) in_quotes cur out =
     (if c = QUOTE \<and> in_quotes \<and> (case chars of [] \<Rightarrow> False | d # _ \<Rightarrow> d = QUOTE)
      then csv_loop (drop 1 chars) in_quotes (cur @ [QUOTE]) out
      else if c = QUOTE then csv_loop chars (\<not> in_quotes) cur out
      else if c = CHR '','' \<and> \<not> in_quotes then csv_loop chars in_quotes [] (out @ [cur])
      else csv_loop chars in_quotes (cur @ [c]) out)"

definition split_csv :: "string \<Rightarrow> string list" where
  "split_csv line = csv_loop line False [] []"

definition field :: "string list \<Rightarrow> nat \<Rightarrow> string option" where
  "field cols i =
     (if i < length cols then
        let v = trim (cols ! i) in if v \<noteq> [] then Some v else None
      else None)"

text \<open>\<open>split(['/', '?', '#']).next()\<close>\<close>

definition url_host :: "string \<Rightarrow> string option" where
  "url_host url =
     (let rest = (case split_once_str ''://'' url of Some (_, r) \<Rightarrow> r | None \<Rightarrow> url);
          authority = takeWhile (\<lambda>c. c \<notin> {CHR ''/'', CHR ''?'', CHR ''#''}) rest;
          hostport = (case rsplit_once CHR ''@'' authority of Some (_, h) \<Rightarrow> h | None \<Rightarrow> authority);
          host = trim (hd (split_on CHR '':'' hostport))
      in if host = [] then None else Some (to_ascii_lowercase host))"

text \<open>The token and tag of a line, or \<open>None\<close> for \<open>continue\<close>.\<close>

definition row_of :: "feed \<Rightarrow> string \<Rightarrow> (string \<times> string option) option" where
  "row_of fd line =
     (case fd_format fd of
        FmtLines \<Rightarrow> Some (line, None)
      | FmtCsv value tag \<Rightarrow>
          let cols = split_csv line in
          (case field cols value of
             Some v \<Rightarrow> Some (v, Option.bind tag (field cols)) | None \<Rightarrow> None)
      | FmtUrlCsv url tag \<Rightarrow>
          let cols = split_csv line in
          (case Option.bind (field cols url) url_host of
             Some host \<Rightarrow> Some (host, Option.bind tag (field cols)) | None \<Rightarrow> None))"

definition tag_of :: "feed \<Rightarrow> string option \<Rightarrow> string option" where
  "tag_of fd tag =
     (case tag of
        Some t \<Rightarrow> if t \<noteq> [] \<and> t \<noteq> ''None'' then Some t else fd_default_tag fd
      | None \<Rightarrow> fd_default_tag fd)"

fun feed_loop :: "feed \<Rightarrow> bytes list \<Rightarrow> ioc_set \<Rightarrow> (ioc_set, 'e) res" where
  "feed_loop fd [] s0 = Ok s0"
| "feed_loop fd (raw # lines) s0 =
     (let line = trim (from_utf8_lossy raw) in
      if line = [] \<or> hd line = CHR ''#'' then feed_loop fd lines s0
      else
        case row_of fd line of
          None \<Rightarrow> feed_loop fd lines s0
        | Some (token, tag) \<Rightarrow>
            (case insert_tagged token (tag_of fd tag) s0 of
               Ok (_, s1) \<Rightarrow> feed_loop fd lines s1
             | Err _ \<Rightarrow> if ioc_len s0 \<ge> MAX_INDICATORS then Ok s0 else feed_loop fd lines s0
             | Panic \<Rightarrow> Panic))"

text \<open>The difference at the end is an unsigned subtraction.\<close>

definition parse_into :: "ioc_set \<Rightarrow> feed \<Rightarrow> bytes \<Rightarrow> (nat \<times> ioc_set, 'e) res" where
  "parse_into s0 fd input =
     (let s0 = set_source (fd_id fd) s0; before = ioc_len s0 in
      and_then (feed_loop fd (split_on NL input) s0) (\<lambda>s1.
      if ioc_len s1 < before then Panic else Ok (ioc_len s1 - before, s1)))"

lemma feed_loop_result:
  "ioc_ok s \<Longrightarrow> returns (\<lambda>s'. ioc_ok s' \<and> ioc_len s \<le> ioc_len s' \<and>
      ioc_len s' \<le> max (ioc_len s) MAX_INDICATORS) (feed_loop fd lines s)"
proof (induction lines arbitrary: s)
  case (Cons raw lines)
  note skip = Cons.IH [OF Cons.prems]
  show ?case
  proof (cases "trim (from_utf8_lossy raw) = [] \<or> hd (trim (from_utf8_lossy raw)) = CHR ''#''
      \<or> row_of fd (trim (from_utf8_lossy raw)) = None")
    case True
    then show ?thesis using skip by (auto simp: Let_def)
  next
    case False
    then obtain token tag where row: "row_of fd (trim (from_utf8_lossy raw)) = Some (token, tag)" by auto
    show ?thesis
    proof (cases "insert_tagged token (tag_of fd tag) s")
      case (Ok p)
      obtain k s' where p: "p = (k, s')" by force
      note i = ioc_ok_insert [OF Cons.prems Ok [unfolded p]]
      show ?thesis
        using returns_mono [OF Cons.IH [OF conjunct1 [OF i]], where Q = "\<lambda>s''. ioc_ok s'' \<and>
          ioc_len s \<le> ioc_len s'' \<and> ioc_len s'' \<le> max (ioc_len s) MAX_INDICATORS"] i False row Ok p
        by (simp add: Let_def)
    next
      case (Err e)
      then show ?thesis using False row skip Cons.prems by (simp add: Let_def max_def split: if_splits)
    qed simp
  qed
qed simp

text \<open>A CSV row as abuse.ch writes it: every field quoted, quotes doubled.\<close>

definition quote_field :: "string \<Rightarrow> string" where
  "quote_field f = [QUOTE] @ concat (map (\<lambda>c. if c = QUOTE then [QUOTE, QUOTE] else [c]) f) @ [QUOTE]"

definition csv_row :: "string list \<Rightarrow> string" where
  "csv_row cols = join '','' (map quote_field cols)"

lemma csv_loop_body:
  "rest = [] \<or> hd rest \<noteq> QUOTE \<Longrightarrow>
   csv_loop (concat (map (\<lambda>c. if c = QUOTE then [QUOTE, QUOTE] else [c]) f) @ QUOTE # rest) True cur out =
     csv_loop rest False (cur @ f) out"
proof (induction f arbitrary: cur)
  case Nil
  then show ?case by (cases rest) auto
qed auto

lemma csv_loop_field:
  "rest = [] \<or> hd rest \<noteq> QUOTE \<Longrightarrow> csv_loop (quote_field f @ rest) False [] out = csv_loop rest False f out"
  using csv_loop_body [of rest f "[]" out] by (simp add: quote_field_def)

lemma csv_loop_row: "cols \<noteq> [] \<Longrightarrow> csv_loop (csv_row cols) False [] out = out @ cols"
proof (induction cols arbitrary: out)
  case (Cons f fs)
  show ?case
  proof (cases "fs = []")
    case True
    then show ?thesis using csv_loop_field [of "[]" f out] by (simp add: csv_row_def)
  next
    case False
    then have "csv_row (f # fs) = quote_field f @ CHR '','' # csv_row fs"
      by (simp add: csv_row_def join_Cons)
    moreover have "CHR '','' \<noteq> QUOTE" by (simp add: QUOTE_def)
    ultimately show ?thesis
      using csv_loop_field [of "CHR '','' # csv_row fs" f out] Cons.IH [OF False] by simp
  qed
qed simp

text \<open>
  Splitting undoes quoting: a row of fields, each quoted with its quotes doubled, comes back field by
  field, whatever commas, quotes or other bytes the fields contain.
\<close>

lemma split_csv_of_row: "cols \<noteq> [] \<Longrightarrow> split_csv (csv_row cols) = cols"
  unfolding split_csv_def by (simp add: csv_loop_row)

lemma split_csv_of_row_witness:
  "split_csv (csv_row [''a,b'', [QUOTE, CHR ''x''], []]) = [''a,b'', [QUOTE, CHR ''x''], []]"
  by (rule split_csv_of_row) simp

text \<open>
  Folding a feed into a set never fails on any bytes (the count of added indicators does not underflow),
  keeps the set in normal form and never takes it past the limit.
\<close>

lemma parse_into_bounded:
  assumes "ioc_ok s"
  shows "returns (\<lambda>(n, s'). ioc_ok s' \<and> ioc_len s' = ioc_len s + n \<and> ioc_len s' \<le> max (ioc_len s) MAX_INDICATORS)
    (parse_into s fd input)"
proof -
  have s: "ioc_ok (set_source (fd_id fd) s)" "ioc_len (set_source (fd_id fd) s) = ioc_len s"
    using assms by (simp_all add: set_source_def ioc_ok_def ioc_len_def)
  show ?thesis
    unfolding parse_into_def Let_def
    by (rule returns_and_then [OF feed_loop_result [OF s(1)]]) (use s(2) in auto)
qed

lemma parse_into_bounded_witness:
  "returns (\<lambda>(n, s'). ioc_ok s' \<and> ioc_len s' = ioc_len ioc_default + n \<and>
      ioc_len s' \<le> max (ioc_len ioc_default) MAX_INDICATORS)
    (parse_into ioc_default (hd BUILTIN) [0x31, 0x2E, 0x31, 0x2E, 0x31, 0x2E, 0x31, 0x0A, 0xFF])"
  by (rule parse_into_bounded) simp

text \<open>A bracketed IPv6 host is cut at its first colon.\<close>

lemma url_host_ipv6: "url_host ''http://[2001:db8::1]/x'' = Some ''[2001''"
  by code_simp

end
