(* ===== verification/FeedCache.thy ===== *)
theory FeedCache
  imports IocFeeds Timestamps Http
begin

text \<open>
  \<open>cache.rs\<close>, \<open>fetch.rs\<close>, \<open>error.rs\<close> and \<open>fetch_live\<close> of \<open>cbna-intel\<close>: fetching feeds, caching them and loading
  the cache into an indicator set.  The HTTP client is a parameter, a function from a URL and a key to
  an outcome; the cache is a record of the manifest (as its value) and of the data files, whose reads and
  writes succeed (FeedStore has the files themselves); the current time is a parameter.  The lemmas show
  that a feed that fails to fetch leaves its cached copy as it was, and that loading any cache gives an
  indicator set in normal form.
\<close>

section \<open>Fetching\<close>

datatype intel_error =
    IeHttp string u16
  | IeNetwork string string
  | IeAuthRequired string
  | IeTooLarge string nat
  | IeUnknownFeed string
  | IeIo string
  | IeJson string

definition intel_dash :: string where "intel_dash = [CHR 0xE2, CHR 0x80, CHR 0x94]"

fun show_intel_error :: "intel_error \<Rightarrow> string" where
  "show_intel_error (IeHttp url status) = ''HTTP '' @ show_nat (unat status) @ '' from '' @ url"
| "show_intel_error (IeNetwork url msg) = ''network error for '' @ url @ '': '' @ msg"
| "show_intel_error (IeAuthRequired url) =
     url @ '' requires an Auth-Key '' @ intel_dash @ '' pass --intel-auth-key or set CBNA_ABUSECH_AUTHKEY''"
| "show_intel_error (IeTooLarge url cap) =
     ''response from '' @ url @ '' exceeded the '' @ show_nat cap @ ''-byte cap''"
| "show_intel_error (IeUnknownFeed i) = ''unknown feed id: '' @ i"
| "show_intel_error (IeIo msg) = msg"
| "show_intel_error (IeJson msg) = ''cache manifest: '' @ msg"

text \<open>What the HTTP client answers: a body, a failed read of it, a status, or a transport error.\<close>

datatype http_outcome = HttpBody bytes | HttpBroken string | HttpStatus u16 | HttpTransport string

definition MAX_BYTES :: nat where "MAX_BYTES = 128 * 1024 * 1024"

definition fetch ::
  "(string \<Rightarrow> string option \<Rightarrow> http_outcome) \<Rightarrow> feed \<Rightarrow> string option \<Rightarrow> (bytes, intel_error) res" where
  "fetch http fd auth_key =
     (if fd_needs_auth fd \<and> auth_key = None then Err (IeAuthRequired (fd_url fd))
      else
        case http (fd_url fd) auth_key of
          HttpStatus status \<Rightarrow> Err (IeHttp (fd_url fd) status)
        | HttpTransport msg \<Rightarrow> Err (IeNetwork (fd_url fd) msg)
        | HttpBroken msg \<Rightarrow> Err (IeIo msg)
        | HttpBody body \<Rightarrow>
            let buf = take (MAX_BYTES + 1) body in
            if length buf > MAX_BYTES then Err (IeTooLarge (fd_url fd) MAX_BYTES) else Ok buf)"

section \<open>The cache\<close>

record cached_feed =
  ca_id :: string
  ca_url :: string
  ca_fetched_at :: string
  ca_bytes :: nat
  ca_indicators :: nat

text \<open>The directory: the manifest, when there is one, and the data files by feed id.\<close>

record cache_dir =
  cd_manifest :: "cached_feed list option"
  cd_data :: "string \<Rightarrow> bytes option"

definition read_manifest :: "cache_dir \<Rightarrow> cached_feed list" where
  "read_manifest dir = unwrap_or [] (cd_manifest dir)"

definition write_manifest :: "cached_feed list \<Rightarrow> cache_dir \<Rightarrow> cache_dir" where
  "write_manifest m dir = dir\<lparr>cd_manifest := Some m\<rparr>"

text \<open>\<open>entry_mut\<close> and its two uses: replace the first entry of the id, or push.\<close>

fun put_entry :: "cached_feed \<Rightarrow> cached_feed list \<Rightarrow> cached_feed list" where
  "put_entry e [] = [e]"
| "put_entry e (f # m) = (if ca_id f = ca_id e then e # m else f # put_entry e m)"

fun load_loop :: "cache_dir \<Rightarrow> cached_feed list \<Rightarrow> ioc_set \<Rightarrow> (ioc_set, intel_error) res" where
  "load_loop dir [] s0 = Ok s0"
| "load_loop dir (cached # rest) s0 =
     (case by_id (ca_id cached) of
        None \<Rightarrow> load_loop dir rest s0
      | Some fd \<Rightarrow>
          (case cd_data dir (ca_id cached) of
             None \<Rightarrow> load_loop dir rest s0
           | Some input \<Rightarrow>
               and_then (parse_into s0 fd input) (\<lambda>(added, s1).
               load_loop dir rest (add_source_info
                 \<lparr>si_source = ca_id cached, si_fetched_at = Some (ca_fetched_at cached),
                  si_indicators = added\<rparr> s1))))"

definition cache_load :: "cache_dir \<Rightarrow> (ioc_set, intel_error) res" where
  "cache_load dir = load_loop dir (read_manifest dir) ioc_default"

text \<open>\<open>ids.iter().map(\<dots>).collect::<Result<_, _>>()\<close>\<close>

fun resolve_ids :: "string list \<Rightarrow> (feed list, intel_error) res" where
  "resolve_ids [] = Ok []"
| "resolve_ids (i # ids) =
     (case by_id i of
        None \<Rightarrow> Err (IeUnknownFeed i)
      | Some fd \<Rightarrow> and_then (resolve_ids ids) (\<lambda>fds. Ok (fd # fds)))"

definition selected :: "string list option \<Rightarrow> (feed list, intel_error) res" where
  "selected only = (case only of None \<Rightarrow> Ok BUILTIN | Some ids \<Rightarrow> resolve_ids ids)"

definition count_indicators :: "feed \<Rightarrow> bytes \<Rightarrow> (nat, intel_error) res" where
  "count_indicators fd input = and_then (parse_into ioc_default fd input) (\<lambda>(n, s). Ok n)"

text \<open>The outcome of one feed: its id, and the indicators or the message.\<close>

type_synonym feed_result = "string \<times> (nat + string)"

text \<open>The loop of \<open>update\<close>; \<open>m\<close> is the manifest in memory.\<close>

fun update_loop ::
  "(string \<Rightarrow> string option \<Rightarrow> http_outcome) \<Rightarrow> string \<Rightarrow> string option \<Rightarrow> feed list \<Rightarrow> cache_dir \<Rightarrow>
     cached_feed list \<Rightarrow> (feed_result list \<times> cache_dir \<times> cached_feed list, intel_error) res" where
  "update_loop http now auth [] dir m = Ok ([], dir, m)"
| "update_loop http now auth (fd # fds) dir m =
     (case fetch http fd auth of
        Ok input \<Rightarrow>
          and_then (count_indicators fd input) (\<lambda>n.
          let dir' = dir\<lparr>cd_data := (cd_data dir)(fd_id fd \<mapsto> input)\<rparr>;
              m' = put_entry \<lparr>ca_id = fd_id fd, ca_url = fd_url fd, ca_fetched_at = now,
                ca_bytes = length input, ca_indicators = n\<rparr> m in
          and_then (update_loop http now auth fds dir' m') (\<lambda>(results, dir'', m'').
          Ok ((fd_id fd, Inl n) # results, dir'', m'')))
      | Err e \<Rightarrow>
          and_then (update_loop http now auth fds dir m) (\<lambda>(results, dir'', m'').
          Ok ((fd_id fd, Inr (show_intel_error e)) # results, dir'', m''))
      | Panic \<Rightarrow> Panic)"

definition cache_update ::
  "(string \<Rightarrow> string option \<Rightarrow> http_outcome) \<Rightarrow> string \<Rightarrow> string option \<Rightarrow> string list option \<Rightarrow> cache_dir \<Rightarrow>
     (feed_result list \<times> cache_dir, intel_error) res" where
  "cache_update http now auth only dir =
     and_then (selected only) (\<lambda>fds.
     and_then (update_loop http now auth fds dir (read_manifest dir)) (\<lambda>(results, dir', m).
     Ok (results, write_manifest m dir')))"

section \<open>Fetching without the cache\<close>

fun live_loop ::
  "(string \<Rightarrow> string option \<Rightarrow> http_outcome) \<Rightarrow> string \<Rightarrow> string option \<Rightarrow> feed list \<Rightarrow> ioc_set \<Rightarrow>
     (ioc_set \<times> feed_result list, intel_error) res" where
  "live_loop http now auth [] s0 = Ok (s0, [])"
| "live_loop http now auth (fd # fds) s0 =
     (case fetch http fd auth of
        Ok input \<Rightarrow>
          and_then (parse_into s0 fd input) (\<lambda>(added, s1).
          and_then (live_loop http now auth fds (add_source_info
              \<lparr>si_source = fd_id fd, si_fetched_at = Some now, si_indicators = added\<rparr> s1))
            (\<lambda>(s2, results). Ok (s2, (fd_id fd, Inl added) # results)))
      | Err e \<Rightarrow>
          and_then (live_loop http now auth fds s0) (\<lambda>(s2, results).
          Ok (s2, (fd_id fd, Inr (show_intel_error e)) # results))
      | Panic \<Rightarrow> Panic)"

definition fetch_live ::
  "(string \<Rightarrow> string option \<Rightarrow> http_outcome) \<Rightarrow> string \<Rightarrow> string option \<Rightarrow> string list option \<Rightarrow>
     (ioc_set \<times> feed_result list, intel_error) res" where
  "fetch_live http now auth only =
     and_then (selected only) (\<lambda>fds. live_loop http now auth fds ioc_default)"

section \<open>What loading gives\<close>

lemma parse_into_ok: "ioc_ok s \<Longrightarrow> returns (\<lambda>(n, s'). ioc_ok s') (parse_into s fd input)"
proof -
  assume "ioc_ok s"
  then have "ioc_ok (set_source (fd_id fd) s)" by (simp add: set_source_def ioc_ok_def)
  from feed_loop_result [OF this] show ?thesis
    unfolding parse_into_def Let_def by (rule returns_and_then) auto
qed

lemma ioc_ok_source_info [simp]: "ioc_ok (add_source_info i s) = ioc_ok s"
  by (simp add: add_source_info_def ioc_ok_def)

lemma load_loop_ok: "ioc_ok s \<Longrightarrow> returns ioc_ok (load_loop dir m s)"
proof (induction m arbitrary: s)
  case (Cons cached m)
  have "returns ioc_ok (and_then (parse_into s fd input) (\<lambda>(added, s1).
      load_loop dir m (add_source_info (i added) s1)))" for fd input i
    by (rule returns_and_then [OF parse_into_ok [OF Cons.prems]]) (auto intro: Cons.IH)
  then show ?case using Cons by (auto split: option.splits)
qed simp

lemma cache_load_ok: "returns ioc_ok (cache_load dir)"
  by (simp add: cache_load_def load_loop_ok)

lemma fetch_not_Panic [simp]: "fetch http fd auth \<noteq> Panic"
  by (simp add: fetch_def Let_def split: http_outcome.splits)

lemma live_loop_ok: "ioc_ok s \<Longrightarrow> returns (\<lambda>(s', r). ioc_ok s') (live_loop http now auth fds s)"
proof (induction fds arbitrary: s)
  case (Cons fd fds)
  have tail: "returns (\<lambda>(s', r). ioc_ok s')
      (and_then (live_loop http now auth fds s1) (\<lambda>(s2, results). Ok (s2, x # results)))"
    if "ioc_ok s1" for s1 x
    by (rule returns_and_then [OF Cons.IH [OF that]]) auto
  show ?case
  proof (cases "fetch http fd auth")
    case (Ok input)
    have "returns (\<lambda>(s', r). ioc_ok s') (and_then (parse_into s fd input) (\<lambda>(added, s1).
        and_then (live_loop http now auth fds (add_source_info (i added) s1))
          (\<lambda>(s2, results). Ok (s2, (fd_id fd, Inl added) # results))))" for i
      by (rule returns_and_then [OF parse_into_ok [OF Cons.prems]]) (auto intro: tail)
    then show ?thesis by (simp add: Ok)
  qed (use tail [OF Cons.prems] in simp_all)
qed simp

section \<open>What an update changes\<close>

definition entry_of :: "cached_feed list \<Rightarrow> string \<Rightarrow> cached_feed option" where
  "entry_of m i = find (\<lambda>f. ca_id f = i) m"

lemma entry_put: "entry_of (put_entry e m) i = (if i = ca_id e then Some e else entry_of m i)"
  by (induction e m rule: put_entry.induct) (auto simp: entry_of_def)

text \<open>The last successful fetch of a feed id among the feeds of an update.\<close>

definition fetched ::
  "(string \<Rightarrow> string option \<Rightarrow> http_outcome) \<Rightarrow> string option \<Rightarrow> feed list \<Rightarrow> string \<Rightarrow> bytes option" where
  "fetched http auth fds i =
     foldl (\<lambda>r fd. if fd_id fd = i then (case fetch http fd auth of Ok b \<Rightarrow> Some b | _ \<Rightarrow> r) else r) None fds"

definition update_result ::
  "(string \<Rightarrow> string option \<Rightarrow> http_outcome) \<Rightarrow> string option \<Rightarrow> feed list \<Rightarrow> cache_dir \<Rightarrow> cached_feed list \<Rightarrow>
     cache_dir \<Rightarrow> cached_feed list \<Rightarrow> bool" where
  "update_result http auth fds dir m dir' m' \<longleftrightarrow>
     (\<forall>i. case fetched http auth fds i of
        None \<Rightarrow> cd_data dir' i = cd_data dir i \<and> entry_of m' i = entry_of m i
      | Some b \<Rightarrow> cd_data dir' i = Some b \<and> map_option ca_bytes (entry_of m' i) = Some (length b))"

lemma fetched_Cons:
  "fetched http auth (fd # fds) i =
     (case fetched http auth fds i of
        Some b \<Rightarrow> Some b
      | None \<Rightarrow> if fd_id fd = i then (case fetch http fd auth of Ok b \<Rightarrow> Some b | _ \<Rightarrow> None) else None)"
proof -
  let ?f = "\<lambda>r fd. if fd_id fd = i then (case fetch http fd auth of Ok b \<Rightarrow> Some b | _ \<Rightarrow> r) else r"
  have acc: "foldl ?f r fds = (case foldl ?f None fds of Some b \<Rightarrow> Some b | None \<Rightarrow> r)" for r
  proof (induction fds rule: rev_induct)
    case (snoc x xs)
    then show ?case by (auto split: option.splits res.splits)
  qed simp
  show ?thesis unfolding fetched_def foldl.simps by (rule acc)
qed

lemma count_indicators_returns: "returns (\<lambda>_. True) (count_indicators fd input)"
  unfolding count_indicators_def
  by (rule returns_and_then [OF parse_into_ok [OF ioc_ok_default]]) auto

lemma update_loop_result:
  "returns (\<lambda>(r, dir', m'). map fst r = map fd_id fds \<and> update_result http auth fds dir m dir' m')
     (update_loop http now auth fds dir m)"
proof (induction fds arbitrary: dir m)
  case Nil
  show ?case by (simp add: update_result_def fetched_def)
next
  case (Cons fd fds)
  show ?case
  proof (cases "fetch http fd auth")
    case (Ok input)
    obtain n where n: "count_indicators fd input = Ok n"
      using count_indicators_returns [of fd input] by (cases "count_indicators fd input") auto
    let ?dir = "dir\<lparr>cd_data := (cd_data dir)(fd_id fd \<mapsto> input)\<rparr>"
    let ?m = "put_entry \<lparr>ca_id = fd_id fd, ca_url = fd_url fd, ca_fetched_at = now,
      ca_bytes = length input, ca_indicators = n\<rparr> m"
    obtain r dir' m' where r: "update_loop http now auth fds ?dir ?m = Ok (r, dir', m')"
      "map fst r = map fd_id fds" "update_result http auth fds ?dir ?m dir' m'"
      using Cons.IH [of ?dir ?m] by (cases "update_loop http now auth fds ?dir ?m") auto
    have "update_result http auth (fd # fds) dir m dir' m'"
      unfolding update_result_def
    proof
      fix i
      from r(3) have i: "case fetched http auth fds i of
          None \<Rightarrow> cd_data dir' i = cd_data ?dir i \<and> entry_of m' i = entry_of ?m i
        | Some b \<Rightarrow> cd_data dir' i = Some b \<and> map_option ca_bytes (entry_of m' i) = Some (length b)"
        unfolding update_result_def ..
      show "case fetched http auth (fd # fds) i of
          None \<Rightarrow> cd_data dir' i = cd_data dir i \<and> entry_of m' i = entry_of m i
        | Some b \<Rightarrow> cd_data dir' i = Some b \<and> map_option ca_bytes (entry_of m' i) = Some (length b)"
        using i by (cases "fetched http auth fds i"; cases "fd_id fd = i")
          (simp_all add: fetched_Cons entry_put Ok)
    qed
    then show ?thesis using r by (simp add: Ok n Let_def)
  next
    case (Err e)
    obtain r dir' m' where r: "update_loop http now auth fds dir m = Ok (r, dir', m')"
      "map fst r = map fd_id fds" "update_result http auth fds dir m dir' m'"
      using Cons.IH [of dir m] by (cases "update_loop http now auth fds dir m") auto
    have "fetched http auth (fd # fds) i = fetched http auth fds i" for i
      by (simp add: fetched_Cons Err split: option.splits)
    then show ?thesis using r by (simp add: Err update_result_def)
  qed simp
qed

lemma update_result_data:
  "read_manifest (write_manifest m dir) = m"
  "update_result http auth fds dir0 m0 (write_manifest m dir) = update_result http auth fds dir0 m0 dir"
  by (simp_all add: write_manifest_def read_manifest_def unwrap_or_def update_result_def fun_eq_iff
      cong: option.case_cong)

text \<open>
  An update of known feeds always completes and reports on every feed.  A feed that fails to fetch
  leaves its data file and its manifest entry as they were; a fetched feed has its new bytes on disk
  and their number in the manifest.  Whatever is then in the cache, loading it never fails and gives a
  set in normal form.
\<close>

lemma update_keeps_failed_feeds:
  assumes "selected only = Ok fds"
  shows "returns (\<lambda>(r, dir'). map fst r = map fd_id fds \<and>
      update_result http auth fds dir (read_manifest dir) dir' (read_manifest dir') \<and>
      returns ioc_ok (cache_load dir'))
    (cache_update http now auth only dir)"
  unfolding cache_update_def assms and_then.simps
  by (rule returns_and_then [OF update_loop_result [of fds http auth dir "read_manifest dir" now]])
    (simp add: case_prod_beta cache_load_ok update_result_data)

end
