(* ===== verification/FeedStore.thy ===== *)
theory FeedStore
  imports FeedCache
begin

text \<open>
  \<open>cache.rs\<close> again, on the files of the cache directory: paths, the manifest as the bytes \<open>serde_json\<close>
  makes of it, reads that find nothing or fail, writes that fail half way, and the errors the code
  returns for each.  \<open>serde_json\<close> is a pair of parameters; the outcomes of the coming writes are part of
  the state.  FeedCache is the specification: without faults the files simulate it.  With faults the lemmas
  say what survives, and that a manifest that cannot be read is never repaired.
\<close>

section \<open>Paths\<close>

text \<open>\<open>Path::join\<close> on a platform whose separator is the slash.\<close>

definition path_join :: "string \<Rightarrow> string \<Rightarrow> string" where
  "path_join dir name =
     (if take 1 name = ''/'' \<or> dir = [] then name
      else if last dir = CHR ''/'' then dir @ name else dir @ ''/'' @ name)"

definition manifest_path :: "string \<Rightarrow> string" where
  "manifest_path dir = path_join dir ''manifest.json''"

definition data_path :: "string \<Rightarrow> string \<Rightarrow> string" where
  "data_path dir i = path_join dir (i @ ''.data'')"

text \<open>The environment holds the variables that are set to text; \<open>windows\<close> is the build target.\<close>

definition default_cache_dir :: "bool \<Rightarrow> (string \<Rightarrow> string option) \<Rightarrow> string" where
  "default_cache_dir windows env =
     (case env ''CBNA_INTEL_CACHE'' of
        Some p \<Rightarrow> p
      | None \<Rightarrow>
          if windows then
            (case env ''LOCALAPPDATA'' of
               Some p \<Rightarrow> path_join (path_join p ''cbna'') ''intel''
             | None \<Rightarrow> ''.cbna-intel'')
          else
            (case env ''XDG_CACHE_HOME'' of
               Some p \<Rightarrow> path_join (path_join p ''cbna'') ''intel''
             | None \<Rightarrow>
                 (case env ''HOME'' of
                    Some h \<Rightarrow> path_join (path_join (path_join h ''.cache'') ''cbna'') ''intel''
                  | None \<Rightarrow> ''.cbna-intel'')))"

section \<open>Files that can fail\<close>

text \<open>What a read of a path finds: nothing, bytes, or an error other than that nothing is there.\<close>

datatype stored = Missing | Stored bytes | Unreadable string

text \<open>What a write does: it succeeds, or it fails with a message and leaves the file as given.\<close>

datatype write_outcome = Written | WriteFails string stored

record store =
  so_files :: "string \<Rightarrow> stored"
  so_mkdir :: "string option"
  so_writes :: "write_outcome list"

text \<open>A step returns its result and the store it leaves; \<open>?\<close> ends at the first error.\<close>

type_synonym 'a io = "('a, intel_error) res \<times> store"

definition io_then :: "'a io \<Rightarrow> ('a \<Rightarrow> store \<Rightarrow> 'b io) \<Rightarrow> 'b io" where
  "io_then m k =
     (case m of (Ok x, w) \<Rightarrow> k x w | (Err e, w) \<Rightarrow> (Err e, w) | (Panic, w) \<Rightarrow> (Panic, w))"

text \<open>\<open>create_dir_all\<close> and \<open>fs::write\<close>; when the listed outcomes are used up, writes succeed.\<close>

definition fs_create_dir :: "store \<Rightarrow> unit io" where
  "fs_create_dir w = (case so_mkdir w of None \<Rightarrow> (Ok (), w) | Some e \<Rightarrow> (Err (IeIo e), w))"

definition fs_write :: "string \<Rightarrow> bytes \<Rightarrow> store \<Rightarrow> unit io" where
  "fs_write p bs w =
     (case so_writes w of
        WriteFails e left # rest \<Rightarrow>
          (Err (IeIo e), w\<lparr>so_files := (so_files w)(p := left), so_writes := rest\<rparr>)
      | ws \<Rightarrow> (Ok (), w\<lparr>so_files := (so_files w)(p := Stored bs), so_writes := tl ws\<rparr>))"

section \<open>Manifest and load\<close>

type_synonym encoder = "cached_feed list \<Rightarrow> string + bytes"
type_synonym decoder = "bytes \<Rightarrow> string + cached_feed list"

definition read_manifest_file :: "decoder \<Rightarrow> string \<Rightarrow> store \<Rightarrow> (cached_feed list, intel_error) res" where
  "read_manifest_file dec dir w =
     (case so_files w (manifest_path dir) of
        Stored bs \<Rightarrow> (case dec bs of Inr m \<Rightarrow> Ok m | Inl e \<Rightarrow> Err (IeJson e))
      | Missing \<Rightarrow> Ok []
      | Unreadable e \<Rightarrow> Err (IeIo e))"

definition write_manifest_file :: "encoder \<Rightarrow> string \<Rightarrow> cached_feed list \<Rightarrow> store \<Rightarrow> unit io" where
  "write_manifest_file enc dir m w =
     (case enc m of Inl e \<Rightarrow> (Err (IeJson e), w) | Inr json \<Rightarrow> fs_write (manifest_path dir) json w)"

fun load_files_loop :: "string \<Rightarrow> store \<Rightarrow> cached_feed list \<Rightarrow> ioc_set \<Rightarrow> (ioc_set, intel_error) res" where
  "load_files_loop dir w [] s0 = Ok s0"
| "load_files_loop dir w (cached # rest) s0 =
     (case by_id (ca_id cached) of
        None \<Rightarrow> load_files_loop dir w rest s0
      | Some fd \<Rightarrow>
          (case so_files w (data_path dir (ca_id cached)) of
             Missing \<Rightarrow> load_files_loop dir w rest s0
           | Unreadable e \<Rightarrow> Err (IeIo e)
           | Stored input \<Rightarrow>
               and_then (parse_into s0 fd input) (\<lambda>(added, s1).
               load_files_loop dir w rest (add_source_info
                 \<lparr>si_source = ca_id cached, si_fetched_at = Some (ca_fetched_at cached),
                  si_indicators = added\<rparr> s1))))"

definition load_files :: "decoder \<Rightarrow> string \<Rightarrow> store \<Rightarrow> (ioc_set, intel_error) res" where
  "load_files dec dir w =
     and_then (read_manifest_file dec dir w) (\<lambda>m. load_files_loop dir w m ioc_default)"

section \<open>Update\<close>

fun update_files_loop ::
  "(string \<Rightarrow> string option \<Rightarrow> http_outcome) \<Rightarrow> string \<Rightarrow> string option \<Rightarrow> string \<Rightarrow> feed list \<Rightarrow>
     cached_feed list \<Rightarrow> store \<Rightarrow> (feed_result list \<times> cached_feed list) io" where
  "update_files_loop http now auth dir [] m w = (Ok ([], m), w)"
| "update_files_loop http now auth dir (fd # fds) m w =
     (case fetch http fd auth of
        Ok input \<Rightarrow>
          io_then (fs_write (data_path dir (fd_id fd)) input w) (\<lambda>_ w.
          io_then (count_indicators fd input, w) (\<lambda>n w.
          let m' = put_entry \<lparr>ca_id = fd_id fd, ca_url = fd_url fd, ca_fetched_at = now,
                ca_bytes = length input, ca_indicators = n\<rparr> m in
          io_then (update_files_loop http now auth dir fds m' w) (\<lambda>(results, m'') w.
          (Ok ((fd_id fd, Inl n) # results, m''), w))))
      | Err e \<Rightarrow>
          io_then (update_files_loop http now auth dir fds m w) (\<lambda>(results, m'') w.
          (Ok ((fd_id fd, Inr (show_intel_error e)) # results, m''), w))
      | Panic \<Rightarrow> (Panic, w))"

definition update_files ::
  "encoder \<Rightarrow> decoder \<Rightarrow> (string \<Rightarrow> string option \<Rightarrow> http_outcome) \<Rightarrow> string \<Rightarrow> string option \<Rightarrow>
     string list option \<Rightarrow> string \<Rightarrow> store \<Rightarrow> feed_result list io" where
  "update_files enc dec http now auth only dir w =
     io_then (selected only, w) (\<lambda>fds w.
     io_then (fs_create_dir w) (\<lambda>_ w.
     io_then (read_manifest_file dec dir w, w) (\<lambda>m w.
     io_then (update_files_loop http now auth dir fds m w) (\<lambda>(results, m') w.
     io_then (write_manifest_file enc dir m' w) (\<lambda>_ w.
     (Ok results, w))))))"


section \<open>The directory as the cache it stands for\<close>

lemma path_join_inj:
  "take 1 a \<noteq> ''/'' \<Longrightarrow> take 1 b \<noteq> ''/'' \<Longrightarrow> path_join dir a = path_join dir b \<longleftrightarrow> a = b"
  by (auto simp: path_join_def)

lemma by_id_builtin: "by_id i = Some fd \<Longrightarrow> fd \<in> set BUILTIN \<and> fd_id fd = i"
  by (auto simp: by_id_def find_Some_iff)

lemma builtin_ids: "fd \<in> set BUILTIN \<Longrightarrow> fd_id fd \<in> {''feodo'', ''sslbl'', ''urlhaus''}"
  by (auto simp: BUILTIN_def)

lemma data_path_inj:
  assumes "f \<in> set BUILTIN" and "g \<in> set BUILTIN"
  shows "data_path dir (fd_id f) = data_path dir (fd_id g) \<longleftrightarrow> fd_id f = fd_id g"
  using builtin_ids [OF assms(1)] builtin_ids [OF assms(2)]
  unfolding data_path_def by (subst path_join_inj) auto

lemma data_path_not_manifest:
  "fd \<in> set BUILTIN \<Longrightarrow> data_path dir (fd_id fd) \<noteq> manifest_path dir"
  using builtin_ids [of fd] unfolding data_path_def manifest_path_def by (subst path_join_inj) auto

definition holds :: "stored \<Rightarrow> bytes option \<Rightarrow> bool" where
  "holds f x \<longleftrightarrow> (case x of None \<Rightarrow> f = Missing | Some bs \<Rightarrow> f = Stored bs)"

definition represents :: "decoder \<Rightarrow> string \<Rightarrow> store \<Rightarrow> cache_dir \<Rightarrow> bool" where
  "represents dec dir w d \<longleftrightarrow>
     (case cd_manifest d of
        None \<Rightarrow> so_files w (manifest_path dir) = Missing
      | Some m \<Rightarrow> \<exists>bs. so_files w (manifest_path dir) = Stored bs \<and> dec bs = Inr m) \<and>
     (\<forall>fd \<in> set BUILTIN. holds (so_files w (data_path dir (fd_id fd))) (cd_data d (fd_id fd)))"

lemma read_manifest_represents:
  "represents dec dir w d \<Longrightarrow> read_manifest_file dec dir w = Ok (read_manifest d)"
  by (auto simp: represents_def read_manifest_file_def read_manifest_def unwrap_or_def split: option.splits)

lemma load_loop_represents:
  assumes "represents dec dir w d" shows "load_files_loop dir w m s = load_loop d m s"
proof (induction m arbitrary: s)
  case (Cons cached m)
  show ?case
  proof (cases "by_id (ca_id cached)")
    case (Some fd)
    have "holds (so_files w (data_path dir (ca_id cached))) (cd_data d (ca_id cached))"
      using assms by_id_builtin [OF Some] by (auto simp: represents_def)
    then show ?thesis
      using Cons.IH by (cases "cd_data d (ca_id cached)") (simp_all add: Some holds_def)
  qed (simp add: Cons.IH)
qed simp

lemma load_represents: "represents dec dir w d \<Longrightarrow> load_files dec dir w = cache_load d"
  by (simp add: load_files_def read_manifest_represents cache_load_def load_loop_represents)

lemma selected_builtin: "selected only = Ok fds \<Longrightarrow> set fds \<subseteq> set BUILTIN"
proof -
  have "resolve_ids ids = Ok fds \<Longrightarrow> set fds \<subseteq> set BUILTIN" for ids fds
  proof (induction ids arbitrary: fds)
    case (Cons i ids)
    then obtain fd fds' where "by_id i = Some fd" "resolve_ids ids = Ok fds'" "fds = fd # fds'"
      by (cases "resolve_ids ids") (auto split: option.splits)
    then show ?case using Cons.IH by_id_builtin [of i fd] by simp
  qed simp
  then show "selected only = Ok fds \<Longrightarrow> set fds \<subseteq> set BUILTIN"
    by (auto simp: selected_def split: option.splits)
qed

section \<open>Without faults the files simulate the cache\<close>

definition faultless :: "store \<Rightarrow> bool" where
  "faultless w \<longleftrightarrow> so_mkdir w = None \<and> set (so_writes w) \<subseteq> {Written}"

lemma fs_write_faultless:
  assumes "faultless w"
  obtains w' where "fs_write p bs w = (Ok (), w')" "so_files w' = (so_files w)(p := Stored bs)" "faultless w'"
proof (cases "so_writes w")
  case Nil
  then show thesis
    using assms that [of "w\<lparr>so_files := (so_files w)(p := Stored bs), so_writes := []\<rparr>"]
    by (simp add: fs_write_def faultless_def)
next
  case (Cons x xs)
  then have "x = Written" using assms by (auto simp: faultless_def)
  then show thesis
    using assms Cons that [of "w\<lparr>so_files := (so_files w)(p := Stored bs), so_writes := xs\<rparr>"]
    by (simp add: fs_write_def faultless_def)
qed

lemma write_data_represents:
  assumes "represents dec dir w d" and "fd \<in> set BUILTIN"
    and "so_files w' = (so_files w)(data_path dir (fd_id fd) := Stored bs)"
  shows "represents dec dir w' (d\<lparr>cd_data := (cd_data d)(fd_id fd \<mapsto> bs)\<rparr>)"
  using assms data_path_not_manifest [OF assms(2), of dir] data_path_inj [OF _ assms(2), of _ dir]
  by (auto simp: represents_def holds_def split: option.splits)

lemma update_loop_represents:
  assumes "represents dec dir w d" and "faultless w" and "set fds \<subseteq> set BUILTIN"
  shows "\<exists>r d' m' w'. update_loop http now auth fds d m = Ok (r, d', m') \<and>
    update_files_loop http now auth dir fds m w = (Ok (r, m'), w') \<and>
    represents dec dir w' d' \<and> faultless w' \<and> cd_manifest d' = cd_manifest d"
  using assms
proof (induction fds arbitrary: w d m)
  case (Cons fd fds)
  have fd: "fd \<in> set BUILTIN" "set fds \<subseteq> set BUILTIN" using Cons.prems(3) by auto
  show ?case
  proof (cases "fetch http fd auth")
    case (Ok input)
    obtain n where n: "count_indicators fd input = Ok n"
      using count_indicators_returns [of fd input] by (cases "count_indicators fd input") auto
    obtain w1 where w1: "fs_write (data_path dir (fd_id fd)) input w = (Ok (), w1)"
      "so_files w1 = (so_files w)(data_path dir (fd_id fd) := Stored input)" "faultless w1"
      using fs_write_faultless [OF Cons.prems(2)] by metis
    from Cons.IH [OF write_data_represents [OF Cons.prems(1) fd(1) w1(2)] w1(3) fd(2)]
    show ?thesis by (fastforce simp: Ok n w1 Let_def io_then_def)
  next
    case (Err e)
    from Cons.IH [OF Cons.prems(1,2) fd(2), of m] show ?thesis by (fastforce simp: Err io_then_def)
  qed simp
qed auto


definition agrees ::
  "decoder \<Rightarrow> string \<Rightarrow> store \<Rightarrow> feed_result list io \<Rightarrow> (feed_result list \<times> cache_dir, intel_error) res \<Rightarrow> bool" where
  "agrees dec dir w = (\<lambda>(res, w') spec.
     case spec of
       Ok (r, d') \<Rightarrow> res = Ok r \<and> represents dec dir w' d' \<and> faultless w' \<and> load_files dec dir w' = cache_load d'
     | Err e \<Rightarrow> res = Err e \<and> w' = w
     | Panic \<Rightarrow> False)"

lemma write_manifest_represents:
  assumes "represents dec dir w d" and "dec bs = Inr m"
    and "so_files w' = (so_files w)(manifest_path dir := Stored bs)"
  shows "represents dec dir w' (write_manifest m d)"
  using assms data_path_not_manifest [of _ dir]
  by (auto simp: represents_def write_manifest_def split: option.splits)

lemma selected_not_Panic: "selected only \<noteq> Panic"
proof -
  have "resolve_ids ids \<noteq> Panic" for ids
  proof (induction ids)
    case (Cons i ids)
    then show ?case by (cases "resolve_ids ids") (auto split: option.splits)
  qed simp
  then show ?thesis by (simp add: selected_def split: option.splits)
qed

text \<open>
  C34. While no write fails, the files simulate the cache: from a directory that stands for a cache, an
  update returns what the specification returns, error or results, and leaves a directory that stands
  for the cache the specification leaves, from which loading gives the same set.  Of \<open>serde_json\<close> this
  uses only that a manifest it wrote reads back.
\<close>

theorem update_simulates_cache:
  assumes "represents dec dir w d" and "faultless w"
    and "\<And>m. \<exists>bs. enc m = Inr bs \<and> dec bs = Inr m"
  shows "agrees dec dir w (update_files enc dec http now auth only dir w) (cache_update http now auth only d)"
proof (cases "selected only")
  case (Ok fds)
  obtain r d' m' w1 where l: "update_loop http now auth fds d (read_manifest d) = Ok (r, d', m')"
    "update_files_loop http now auth dir fds (read_manifest d) w = (Ok (r, m'), w1)"
    "represents dec dir w1 d'" "faultless w1"
    using update_loop_represents [OF assms(1,2) selected_builtin [OF Ok]] by metis
  obtain bs where bs: "enc m' = Inr bs" "dec bs = Inr m'" using assms(3) by blast
  obtain w2 where w2: "fs_write (manifest_path dir) bs w1 = (Ok (), w2)"
    "so_files w2 = (so_files w1)(manifest_path dir := Stored bs)" "faultless w2"
    using fs_write_faultless [OF l(4)] by metis
  note rep = write_manifest_represents [OF l(3) bs(2) w2(2)]
  have dir: "fs_create_dir w = (Ok (), w)" using assms(2) by (simp add: fs_create_dir_def faultless_def)
  show ?thesis
    using w2(3) rep load_represents [OF rep]
    by (simp add: agrees_def update_files_def cache_update_def io_then_def Ok dir
        read_manifest_represents [OF assms(1)] l(1,2) write_manifest_file_def bs(1) w2(1))
next
  case (Err e)
  then show ?thesis by (simp add: agrees_def update_files_def cache_update_def io_then_def)
qed (simp add: selected_not_Panic)

section \<open>With faults\<close>

text \<open>What may be in the data file of a feed after an update: what was there, a body that was fetched, or
  what a failed write left.\<close>

definition leftovers :: "store \<Rightarrow> stored set" where
  "leftovers w = {left. \<exists>e. WriteFails e left \<in> set (so_writes w)}"

definition data_survives ::
  "(string \<Rightarrow> string option \<Rightarrow> http_outcome) \<Rightarrow> string option \<Rightarrow> string \<Rightarrow> feed list \<Rightarrow> store \<Rightarrow> store \<Rightarrow> bool" where
  "data_survives http auth dir fds w w' \<longleftrightarrow>
     (\<forall>p. so_files w' p = so_files w p \<or>
       (\<exists>fd \<in> set fds. \<exists>b. fetch http fd auth = Ok b \<and> p = data_path dir (fd_id fd) \<and>
          so_files w' p \<in> insert (Stored b) (leftovers w))) \<and>
     set (so_writes w') \<subseteq> set (so_writes w)"

definition data_written ::
  "(string \<Rightarrow> string option \<Rightarrow> http_outcome) \<Rightarrow> string option \<Rightarrow> string \<Rightarrow> feed list \<Rightarrow> cached_feed list \<Rightarrow>
     store \<Rightarrow> feed_result list \<times> cached_feed list \<Rightarrow> bool" where
  "data_written http auth dir fds m w' = (\<lambda>(r, m').
     map fst r = map fd_id fds \<and>
     (\<forall>fd \<in> set BUILTIN. case fetched http auth fds (fd_id fd) of
        None \<Rightarrow> entry_of m' (fd_id fd) = entry_of m (fd_id fd)
      | Some b \<Rightarrow> so_files w' (data_path dir (fd_id fd)) = Stored b \<and>
          map_option ca_bytes (entry_of m' (fd_id fd)) = Some (length b)))"

lemma fs_write_cases:
  obtains (written) w' where "fs_write p bs w = (Ok (), w')" "so_files w' = (so_files w)(p := Stored bs)"
      "set (so_writes w') \<subseteq> set (so_writes w)" "so_mkdir w' = so_mkdir w"
    | (failed) e left w' where "fs_write p bs w = (Err (IeIo e), w')" "so_files w' = (so_files w)(p := left)"
      "WriteFails e left \<in> set (so_writes w)" "set (so_writes w') \<subseteq> set (so_writes w)" "so_mkdir w' = so_mkdir w"
proof (cases "so_writes w")
  case Nil
  then show thesis
    by (intro written [of "w\<lparr>so_files := (so_files w)(p := Stored bs), so_writes := []\<rparr>"]) (simp_all add: fs_write_def)
next
  case (Cons x xs)
  show thesis
  proof (cases x)
    case Written
    then show thesis
      using Cons by (intro written [of "w\<lparr>so_files := (so_files w)(p := Stored bs), so_writes := xs\<rparr>"])
        (auto simp: fs_write_def)
  next
    case (WriteFails e left)
    then show thesis
      using Cons by (intro failed [of e "w\<lparr>so_files := (so_files w)(p := left), so_writes := xs\<rparr>" left])
        (auto simp: fs_write_def)
  qed
qed

lemma data_survives_step:
  assumes "fetch http fd auth = Ok b" and "so_files w1 = (so_files w)(data_path dir (fd_id fd) := x)"
    and "x \<in> insert (Stored b) (leftovers w)" and "set (so_writes w1) \<subseteq> set (so_writes w)"
    and "data_survives http auth dir fds w1 w2"
  shows "data_survives http auth dir (fd # fds) w w2"
  unfolding data_survives_def
proof (intro conjI allI)
  fix p
  have sub: "leftovers w1 \<subseteq> leftovers w" using assms(4) by (auto simp: leftovers_def)
  from assms(5) consider "so_files w2 p = so_files w1 p"
    | fd' b' where "fd' \<in> set fds" "fetch http fd' auth = Ok b'" "p = data_path dir (fd_id fd')"
      "so_files w2 p \<in> insert (Stored b') (leftovers w1)"
    unfolding data_survives_def by metis
  then show "so_files w2 p = so_files w p \<or> (\<exists>fd' \<in> set (fd # fds). \<exists>b. fetch http fd' auth = Ok b \<and>
      p = data_path dir (fd_id fd') \<and> so_files w2 p \<in> insert (Stored b) (leftovers w))"
  proof cases
    case 1
    then show ?thesis using assms(1-3) by (cases "p = data_path dir (fd_id fd)") auto
  next
    case 2
    then show ?thesis using sub by (intro disjI2 bexI [of _ fd']) auto
  qed
qed (use assms(4,5) in \<open>auto simp: data_survives_def\<close>)


lemma fetched_some: "fd \<in> set fds \<Longrightarrow> fetch http fd auth = Ok b \<Longrightarrow> fetched http auth fds (fd_id fd) \<noteq> None"
  by (induction fds) (auto simp: fetched_Cons split: option.splits)

lemma data_written_step:
  assumes "set (fd # fds) \<subseteq> set BUILTIN" and "fetch http fd auth = Ok b"
    and "so_files w1 (data_path dir (fd_id fd)) = Stored b" and "ca_id e = fd_id fd" and "ca_bytes e = length b"
    and "data_survives http auth dir fds w1 w2" and "data_written http auth dir fds (put_entry e m) w2 (r, m')"
  shows "data_written http auth dir (fd # fds) m w2 ((fd_id fd, x) # r, m')"
  unfolding data_written_def case_prod_conv
proof (intro conjI ballI)
  fix g assume g: "g \<in> set BUILTIN"
  note ih = assms(7) [unfolded data_written_def case_prod_conv, THEN conjunct2, THEN bspec, OF g]
  have kept: "so_files w2 (data_path dir (fd_id fd)) = Stored b" if none: "fetched http auth fds (fd_id fd) = None"
  proof (rule ccontr)
    assume "so_files w2 (data_path dir (fd_id fd)) \<noteq> Stored b"
    with assms(3,6) obtain f where f: "f \<in> set fds" "\<exists>b. fetch http f auth = Ok b"
      "data_path dir (fd_id fd) = data_path dir (fd_id f)"
      unfolding data_survives_def by metis
    have "fd_id f = fd_id fd" using f(1,3) data_path_inj [of fd f dir] assms(1) by auto
    moreover obtain b' where "fetch http f auth = Ok b'" using f(2) by blast
    ultimately show False using fetched_some [OF f(1), of http auth b'] none by simp
  qed
  show "case fetched http auth (fd # fds) (fd_id g) of
      None \<Rightarrow> entry_of m' (fd_id g) = entry_of m (fd_id g)
    | Some b \<Rightarrow> so_files w2 (data_path dir (fd_id g)) = Stored b \<and>
        map_option ca_bytes (entry_of m' (fd_id g)) = Some (length b)"
    using ih kept assms(2,4,5)
    by (cases "fetched http auth fds (fd_id g)"; cases "fd_id fd = fd_id g") (simp_all add: fetched_Cons entry_put)
qed (use assms(7) in \<open>simp add: data_written_def\<close>)

lemma data_written_skip:
  assumes "fetch http fd auth = Err e" and "data_written http auth dir fds m w2 (r, m')"
  shows "data_written http auth dir (fd # fds) m w2 ((fd_id fd, x) # r, m')"
proof -
  have "fetched http auth (fd # fds) i = fetched http auth fds i" for i
    by (simp add: fetched_Cons assms(1) split: option.splits)
  then show ?thesis using assms(2) by (simp add: data_written_def)
qed

lemma data_survives_skip: "data_survives http auth dir fds w w2 \<Longrightarrow> data_survives http auth dir (fd # fds) w w2"
  unfolding data_survives_def by (metis list.set_intros(2))

lemma update_loop_faults:
  assumes "set fds \<subseteq> set BUILTIN"
  shows "case update_files_loop http now auth dir fds m w of (res, w') \<Rightarrow>
    data_survives http auth dir fds w w' \<and>
    (case res of Ok x \<Rightarrow> data_written http auth dir fds m w' x
     | Err e \<Rightarrow> (\<exists>msg left. e = IeIo msg \<and> WriteFails msg left \<in> set (so_writes w)) | Panic \<Rightarrow> False)"
  using assms
proof (induction fds arbitrary: m w)
  case Nil
  show ?case by (auto simp: data_survives_def data_written_def fetched_def)
next
  case (Cons fd fds)
  then have sub: "set fds \<subseteq> set BUILTIN" by simp
  show ?case
  proof (cases "fetch http fd auth")
    case (Ok b)
    obtain n where n: "count_indicators fd b = Ok n"
      using count_indicators_returns [of fd b] by (cases "count_indicators fd b") auto
    let ?e = "\<lparr>ca_id = fd_id fd, ca_url = fd_url fd, ca_fetched_at = now, ca_bytes = length b, ca_indicators = n\<rparr>"
    show ?thesis
    proof (cases rule: fs_write_cases [of "data_path dir (fd_id fd)" b w])
      case (written w1)
      obtain res w2 where l: "update_files_loop http now auth dir fds (put_entry ?e m) w1 = (res, w2)" by force
      note ih = Cons.IH [OF sub, of w1 "put_entry ?e m", unfolded l case_prod_conv]
      then have surv: "data_survives http auth dir fds w1 w2" by blast
      note s = data_survives_step [OF Ok written(2) _ written(3) surv]
      show ?thesis
      proof (cases res)
        case (Ok x)
        obtain r m' where x: "x = (r, m')" by force
        have "data_written http auth dir fds (put_entry ?e m) w2 (r, m')" using ih by (simp add: Ok x)
        from data_written_step [OF Cons.prems \<open>fetch http fd auth = Ok b\<close> _ _ _ surv this, of "Inl n"]
        show ?thesis using s by (simp add: \<open>fetch http fd auth = Ok b\<close> n written(1,2) l Ok x io_then_def Let_def)
      next
        case (Err e)
        then show ?thesis
          using ih s written(3) by (auto simp: \<open>fetch http fd auth = Ok b\<close> n written(1) l io_then_def Let_def)
      qed (use ih in simp)
    next
      case (failed e left w1)
      have "data_survives http auth dir fds w1 w1" by (simp add: data_survives_def)
      moreover have "left \<in> insert (Stored b) (leftovers w)" using failed(3) by (auto simp: leftovers_def)
      ultimately have "data_survives http auth dir (fd # fds) w w1"
        by (intro data_survives_step [OF Ok failed(2) _ failed(4)])
      then show ?thesis using failed(3) by (auto simp: Ok failed(1) io_then_def)
    qed
  next
    case (Err e)
    obtain res w2 where l: "update_files_loop http now auth dir fds m w = (res, w2)" by force
    note ih = Cons.IH [OF sub, of w m, unfolded l case_prod_conv]
    then show ?thesis
      using data_survives_skip [of http auth dir fds w w2 fd] data_written_skip [OF Err, of dir fds m w2]
      by (cases res) (auto simp: Err l io_then_def)
  qed simp
qed


lemma data_survives_manifest:
  "data_survives http auth dir fds w w1 \<Longrightarrow> set fds \<subseteq> set BUILTIN \<Longrightarrow>
     so_files w1 (manifest_path dir) = so_files w (manifest_path dir)"
  unfolding data_survives_def by (metis data_path_not_manifest subsetD)

lemma data_written_cong:
  assumes "\<And>fd. fd \<in> set BUILTIN \<Longrightarrow> so_files w1 (data_path dir (fd_id fd)) = so_files w2 (data_path dir (fd_id fd))"
  shows "data_written http auth dir fds m w1 x = data_written http auth dir fds m w2 x"
  using assms by (auto simp: data_written_def split: option.splits)

lemma read_manifest_not_Panic [simp]: "read_manifest_file dec dir w \<noteq> Panic"
  by (simp add: read_manifest_file_def split: stored.splits sum.splits)

lemma update_files_early:
  assumes "fs_create_dir w = (Err e, w) \<or> read_manifest_file dec dir w = Err e \<and> so_mkdir w = None"
    and "selected only = Ok fds"
  shows "update_files enc dec http now auth only dir w = (Err e, w)"
  using assms by (auto simp: update_files_def io_then_def fs_create_dir_def split: option.splits)

lemma update_files_cases:
  assumes "selected only = Ok fds"
  obtains (early) e where "update_files enc dec http now auth only dir w = (Err e, w)"
    | (failed) m e w' where "update_files enc dec http now auth only dir w = (Err e, w')"
        "update_files_loop http now auth dir fds m w = (Err e, w')"
    | (unwritten) m r m' w1 e left w' where "update_files enc dec http now auth only dir w = (Err e, w')"
        "update_files_loop http now auth dir fds m w = (Ok (r, m'), w1)"
        "so_files w' = (so_files w1)(manifest_path dir := left)"
        "left \<in> insert (so_files w1 (manifest_path dir)) (leftovers w1)"
    | (updated) m r m' w1 json w' where "update_files enc dec http now auth only dir w = (Ok r, w')"
        "update_files_loop http now auth dir fds m w = (Ok (r, m'), w1)"
        "read_manifest_file dec dir w = Ok m" "enc m' = Inr json"
        "so_files w' = (so_files w1)(manifest_path dir := Stored json)"
proof (cases "so_mkdir w")
  case (Some e)
  then show thesis
    using early update_files_early [of w "IeIo e", OF _ assms] by (simp add: fs_create_dir_def)
next
  case None
  then have dir: "fs_create_dir w = (Ok (), w)" by (simp add: fs_create_dir_def)
  show thesis
  proof (cases "read_manifest_file dec dir w")
    case (Err e)
    then show thesis using early update_files_early [OF _ assms, of w e dec] None by blast
  next
    case (Ok m)
    obtain res w1 where l: "update_files_loop http now auth dir fds m w = (res, w1)" by force
    have u: "update_files enc dec http now auth only dir w =
        io_then (res, w1) (\<lambda>(results, m') w. io_then (write_manifest_file enc dir m' w) (\<lambda>_ w. (Ok results, w)))"
      by (simp add: update_files_def assms dir Ok l io_then_def)
    note loop = update_loop_faults [OF selected_builtin [OF assms],
      where http = http and now = now and auth = auth and dir = dir and m = m and w = w, unfolded l case_prod_conv]
    show thesis
    proof (cases res)
      case (Ok x)
      obtain r m' where x: "x = (r, m')" by force
      note l = l [unfolded \<open>res = Ok x\<close> x] and u = u [unfolded \<open>res = Ok x\<close> x]
      show thesis
      proof (cases "enc m'")
        case (Inl e)
        then show thesis
          using u by (intro unwritten [OF _ l, of "IeJson e" w1 "so_files w1 (manifest_path dir)"])
            (simp_all add: io_then_def write_manifest_file_def)
      next
        case (Inr json)
        show thesis
        proof (cases rule: fs_write_cases [of "manifest_path dir" json w1])
          case (written w2)
          then show thesis
            using u \<open>read_manifest_file dec dir w = Ok m\<close>
            by (intro updated [OF _ l _ Inr, of w2]) (simp_all add: io_then_def write_manifest_file_def Inr)
        next
          case (failed e left w2)
          then show thesis
            using u by (intro unwritten [OF _ l, of "IeIo e" w2 left])
              (auto simp: io_then_def write_manifest_file_def Inr leftovers_def)
        qed
      qed
    next
      case (Err e)
      then show thesis using u l by (intro failed [of e w1 m]) (simp_all add: io_then_def)
    qed (use loop in simp)
  qed simp
qed

text \<open>
  C33. Writes may fail, each leaving anything in its file.  An update of known feeds still never panics
  and touches nothing but the manifest and the data files of the feeds it fetched: the data of a feed
  that failed to fetch is as it was.  Each touched data file is whole, with the new body, or what a
  failed write left.  If the update returns results, it has one for each feed, every fetched body is on
  disk with its length in the manifest that was written, and the entries of the other feeds are the old
  ones.  If it returns an error, the manifest is the old one or what a failed write left of it.
\<close>

theorem update_survives_faults:
  assumes "selected only = Ok fds"
  shows "case update_files enc dec http now auth only dir w of (res, w') \<Rightarrow>
    (\<forall>p. p = manifest_path dir \<or> so_files w' p = so_files w p \<or>
      (\<exists>fd \<in> set fds. \<exists>b. fetch http fd auth = Ok b \<and> p = data_path dir (fd_id fd) \<and>
         so_files w' p \<in> insert (Stored b) (leftovers w))) \<and>
    (case res of
       Ok r \<Rightarrow> (\<exists>m m' json. read_manifest_file dec dir w = Ok m \<and> enc m' = Inr json \<and>
         so_files w' (manifest_path dir) = Stored json \<and> data_written http auth dir fds m w' (r, m'))
     | Err e \<Rightarrow> so_files w' (manifest_path dir) \<in> insert (so_files w (manifest_path dir)) (leftovers w)
     | Panic \<Rightarrow> False)"
proof -
  note fds = selected_builtin [OF assms]
  note loop = update_loop_faults [OF fds, where http = http and now = now and auth = auth and dir = dir and w = w]
  from assms show ?thesis
  proof (cases rule: update_files_cases
      [where enc = enc and dec = dec and http = http and now = now and auth = auth and dir = dir and w = w])
    case early
    then show ?thesis by simp
  next
    case (failed m e w')
    have surv: "data_survives http auth dir fds w w'" using loop [where m = m] by (simp add: failed(2))
    then show ?thesis
      using data_survives_manifest [OF surv fds] by (simp add: failed(1) data_survives_def)
  next
    case (unwritten m r m' w1 e left w')
    have surv: "data_survives http auth dir fds w w1" using loop [where m = m] by (simp add: unwritten(2))
    then have "leftovers w1 \<subseteq> leftovers w" by (auto simp: data_survives_def leftovers_def)
    then show ?thesis
      using surv data_survives_manifest [OF surv fds] unwritten(3,4) by (auto simp: unwritten(1) data_survives_def)
  next
    case (updated m r m' w1 json w')
    have surv: "data_survives http auth dir fds w w1" and w1: "data_written http auth dir fds m w1 (r, m')"
      using loop [where m = m] by (simp_all add: updated(2))
    have "data_written http auth dir fds m w' (r, m')"
      using w1 data_written_cong [of w' dir w1] data_path_not_manifest [of _ dir] by (simp add: updated(5))
    then show ?thesis
      using surv updated(3-5) by (auto simp: updated(1) data_survives_def)
  qed
qed


section \<open>A manifest that cannot be read\<close>

text \<open>No operation rewrites a manifest it cannot read, so a torn one makes every later operation fail.\<close>

definition wedged :: "decoder \<Rightarrow> string \<Rightarrow> store \<Rightarrow> intel_error \<Rightarrow> bool" where
  "wedged dec dir w e \<longleftrightarrow> so_mkdir w = None \<and> read_manifest_file dec dir w = Err e"

text \<open>The arguments of an update: the client's answers, the time, the key and the feeds asked for.\<close>

type_synonym request = "(string \<Rightarrow> string option \<Rightarrow> http_outcome) \<times> string \<times> string option \<times> string list option"

definition run_update :: "encoder \<Rightarrow> decoder \<Rightarrow> string \<Rightarrow> request \<Rightarrow> store \<Rightarrow> feed_result list io" where
  "run_update enc dec dir = (\<lambda>(http, now, auth, only) w. update_files enc dec http now auth only dir w)"

lemma update_wedged:
  assumes "wedged dec dir w e"
  shows "\<exists>e'. run_update enc dec dir rq w = (Err e', w) \<and>
    (\<forall>fds. selected (snd (snd (snd rq))) = Ok fds \<longrightarrow> e' = e)"
proof -
  obtain http now auth only where rq: "rq = (http, now, auth, only)" by (cases rq)
  show ?thesis
  proof (cases "selected only")
    case (Ok fds)
    then show ?thesis
      using assms update_files_early [OF _ Ok, of w e dec dir] by (auto simp: wedged_def run_update_def rq)
  next
    case (Err e')
    then show ?thesis by (simp add: run_update_def rq update_files_def io_then_def)
  qed (simp add: selected_not_Panic)
qed

lemma wedged_stays:
  assumes "wedged dec dir w e"
  shows "foldl (\<lambda>w rq. snd (run_update enc dec dir rq w)) w rqs = w \<and> load_files dec dir w = Err e"
proof
  have "snd (run_update enc dec dir rq w) = w" for rq using update_wedged [OF assms, of enc rq] by auto
  then show "foldl (\<lambda>w rq. snd (run_update enc dec dir rq w)) w rqs = w" by (induction rqs) auto
  show "load_files dec dir w = Err e" using assms by (simp add: wedged_def load_files_def)
qed

section \<open>An encoding that reads back\<close>

text \<open>Lengths and numbers in unary; it stands for \<open>serde_json\<close> in the examples.\<close>

definition nat_bytes :: "nat \<Rightarrow> bytes" where "nat_bytes n = replicate n 1 @ [0]"

fun bytes_nat :: "bytes \<Rightarrow> (nat \<times> bytes) option" where
  "bytes_nat [] = None"
| "bytes_nat (b # bs) = (if b = 0 then Some (0, bs) else map_option (\<lambda>(n, r). (Suc n, r)) (bytes_nat bs))"

definition string_bytes :: "string \<Rightarrow> bytes" where "string_bytes s = nat_bytes (length s) @ map byte_of s"

definition bytes_string :: "bytes \<Rightarrow> (string \<times> bytes) option" where
  "bytes_string bs =
     (case bytes_nat bs of
        Some (n, r) \<Rightarrow> if n \<le> length r then Some (map chr (take n r), drop n r) else None
      | None \<Rightarrow> None)"

definition feed_bytes :: "cached_feed \<Rightarrow> bytes" where
  "feed_bytes c = string_bytes (ca_id c) @ string_bytes (ca_url c) @ string_bytes (ca_fetched_at c) @
     nat_bytes (ca_bytes c) @ nat_bytes (ca_indicators c)"

definition bytes_feed :: "bytes \<Rightarrow> (cached_feed \<times> bytes) option" where
  "bytes_feed bs = Option.bind (bytes_string bs) (\<lambda>(i, bs). Option.bind (bytes_string bs) (\<lambda>(u, bs).
     Option.bind (bytes_string bs) (\<lambda>(f, bs). Option.bind (bytes_nat bs) (\<lambda>(b, bs).
     Option.bind (bytes_nat bs) (\<lambda>(n, bs).
     Some (\<lparr>ca_id = i, ca_url = u, ca_fetched_at = f, ca_bytes = b, ca_indicators = n\<rparr>, bs))))))"

fun bytes_feeds :: "nat \<Rightarrow> bytes \<Rightarrow> cached_feed list option" where
  "bytes_feeds 0 bs = (if bs = [] then Some [] else None)"
| "bytes_feeds (Suc n) bs =
     Option.bind (bytes_feed bs) (\<lambda>(c, bs). Option.bind (bytes_feeds n bs) (\<lambda>m. Some (c # m)))"

definition unary_enc :: encoder where
  "unary_enc m = Inr (nat_bytes (length m) @ concat (map feed_bytes m))"

definition unary_dec :: decoder where
  "unary_dec bs =
     (case Option.bind (bytes_nat bs) (\<lambda>(n, bs). bytes_feeds n bs) of Some m \<Rightarrow> Inr m | None \<Rightarrow> Inl ''EOF'')"

lemma bytes_nat_bytes [simp]: "bytes_nat (nat_bytes n @ r) = Some (n, r)"
  by (induction n) (simp_all add: nat_bytes_def)

lemma bytes_string_bytes [simp]: "bytes_string (string_bytes s @ r) = Some (s, r)"
  by (simp add: bytes_string_def string_bytes_def comp_def)

lemma bytes_feed_bytes [simp]: "bytes_feed (feed_bytes c @ r) = Some (c, r)"
  by (simp add: bytes_feed_def feed_bytes_def)

lemma unary_reads_back: "unary_enc m = Inr (nat_bytes (length m) @ concat (map feed_bytes m)) \<and>
    unary_dec (nat_bytes (length m) @ concat (map feed_bytes m)) = Inr m"
proof -
  have "bytes_feeds (length m) (concat (map feed_bytes m)) = Some m" by (induction m) simp_all
  then show ?thesis by (simp add: unary_enc_def unary_dec_def)
qed

section \<open>Examples\<close>

text \<open>A client that answers for one feed only, and an empty directory whose coming writes are given.\<close>

definition one_feed_http :: "string \<Rightarrow> string option \<Rightarrow> http_outcome" where
  "one_feed_http url key = (if url = fd_url (hd BUILTIN) then HttpBody [49] else HttpStatus 503)"

definition empty_store :: "write_outcome list \<Rightarrow> store" where
  "empty_store ws = \<lparr>so_files = (\<lambda>_. Missing), so_mkdir = None, so_writes = ws\<rparr>"

theorem update_simulates_cache_witness:
  "agrees unary_dec ''/c'' (empty_store [])
     (update_files unary_enc unary_dec one_feed_http ''now'' None None ''/c'' (empty_store []))
     (cache_update one_feed_http ''now'' None None \<lparr>cd_manifest = None, cd_data = Map.empty\<rparr>)"
  by (rule update_simulates_cache)
    (use unary_reads_back in \<open>auto simp: represents_def holds_def faultless_def empty_store_def\<close>)

lemma one_feed_selected: "selected (Some [''feodo'']) = Ok [hd BUILTIN]"
  by (simp add: selected_def by_id_def BUILTIN_def)

lemma one_feed_fetch: "fetch one_feed_http (hd BUILTIN) None = Ok [49]"
  by (simp add: fetch_def one_feed_http_def BUILTIN_def MAX_BYTES_def)

theorem update_survives_faults_witness:
  "case update_files unary_enc unary_dec one_feed_http ''now'' None (Some [''feodo'']) ''/c''
      (empty_store [WriteFails ''no space'' (Stored [])]) of (res, w') \<Rightarrow>
    so_files w' ''/c/urlhaus.data'' = Missing \<and>
    so_files w' ''/c/feodo.data'' \<in> {Missing, Stored [49], Stored []} \<and> res \<noteq> Panic"
proof -
  let ?w = "empty_store [WriteFails ''no space'' (Stored [])]"
  have [simp]: "data_path ''/c'' (fd_id (hd BUILTIN)) = ''/c/feodo.data''" "manifest_path ''/c'' = ''/c/manifest.json''"
    by (simp_all add: BUILTIN_def data_path_def manifest_path_def path_join_def)
  have [simp]: "leftovers ?w = {Stored []}" "so_files ?w p = Missing" for p
    by (simp_all add: leftovers_def empty_store_def)
  obtain res w' where u: "update_files unary_enc unary_dec one_feed_http ''now'' None (Some [''feodo'']) ''/c'' ?w = (res, w')"
    by force
  note s = update_survives_faults [OF one_feed_selected, where enc = unary_enc and dec = unary_dec and
      http = one_feed_http and now = "''now''" and auth = None and dir = "''/c''" and w = ?w, unfolded u case_prod_conv]
  note files = s [THEN conjunct1, rule_format, simplified]
  show ?thesis
    using s [THEN conjunct2] files [of "''/c/urlhaus.data''"] files [of "''/c/feodo.data''"]
    by (cases res) (auto simp: u one_feed_fetch)
qed

text \<open>The manifest that this update leaves: from here on every load and every update fails.\<close>

lemma torn_manifest_wedges:
  "wedged unary_dec ''/c'' (snd (update_files unary_enc unary_dec one_feed_http ''now'' None (Some [''feodo'']) ''/c''
     (empty_store [Written, WriteFails ''no space'' (Stored [])]))) (IeJson ''EOF'')"
proof -
  obtain n where "count_indicators (hd BUILTIN) [49] = Ok n"
    using count_indicators_returns [of "hd BUILTIN" "[49]"] by (cases "count_indicators (hd BUILTIN) [49]") auto
  then show ?thesis
    by (simp add: update_files_def one_feed_selected one_feed_fetch io_then_def fs_create_dir_def empty_store_def
        read_manifest_file_def fs_write_def write_manifest_file_def unary_enc_def unary_dec_def wedged_def)
qed

end
