(* ===== verification/Render.thy ===== *)
theory Render
  imports Report
begin

text \<open>
  \<open>render.rs\<close>: the report as lines for the terminal, with its styles, its tables and the wrapping of
  prose.  A line stands for one \<open>writeln!\<close>; writing succeeds.  The lemmas show that wrapping keeps every
  word in order and exceeds the width only for a word that is wider, that the cells of a column have
  one width, and that rendering never panics.
\<close>

section \<open>Styles\<close>

record style =
  sy_enabled :: bool

text \<open>\<open>TERM\<close> and \<open>NO_COLOR\<close> are what the environment holds.\<close>

definition style_detect :: "bool \<Rightarrow> string option \<Rightarrow> string option \<Rightarrow> style" where
  "style_detect force_plain no_color term_var =
     \<lparr>sy_enabled = (\<not> force_plain \<and> no_color = None \<and>
        (case term_var of None \<Rightarrow> True | Some t \<Rightarrow> t \<noteq> ''dumb''))\<rparr>"

definition ESC :: char where "ESC = CHR 0x1B"

definition sy_wrap :: "string \<Rightarrow> style \<Rightarrow> string \<Rightarrow> string" where
  "sy_wrap code st s = (if sy_enabled st then [ESC] @ ''['' @ code @ ''m'' @ s @ [ESC] @ ''[0m'' else s)"

definition bold :: "style \<Rightarrow> string \<Rightarrow> string" where "bold = sy_wrap ''1''"
definition dim :: "style \<Rightarrow> string \<Rightarrow> string" where "dim = sy_wrap ''2''"
definition cyan :: "style \<Rightarrow> string \<Rightarrow> string" where "cyan = sy_wrap ''36''"

definition sy_severity :: "style \<Rightarrow> severity \<Rightarrow> string \<Rightarrow> string" where
  "sy_severity st sev =
     (case sev of
        SevHigh \<Rightarrow> sy_wrap ''1;31'' st
      | SevMedium \<Rightarrow> sy_wrap ''1;33'' st
      | SevLow \<Rightarrow> sy_wrap ''36'' st
      | SevInfo \<Rightarrow> sy_wrap ''2'' st)"

section \<open>Tables\<close>

datatype align = AlignLeft | AlignRight

record table =
  tb_headers :: "string list"
  tb_aligns :: "align list"
  tb_rows :: "string list list"

definition tb_new :: "string list \<Rightarrow> align list \<Rightarrow> table" where
  "tb_new headers aligns = \<lparr>tb_headers = headers, tb_aligns = aligns, tb_rows = []\<rparr>"

definition tb_row :: "string list \<Rightarrow> table \<Rightarrow> table" where
  "tb_row cells t = t\<lparr>tb_rows := tb_rows t @ [cells]\<rparr>"

text \<open>\<open>s.chars().count()\<close>: of the bytes of a string, those that begin a character.\<close>

definition display_width :: "string \<Rightarrow> nat" where
  "display_width s = length (filter (\<lambda>b. \<not> is_cont b) (bytes_of s))"

definition pad :: "string \<Rightarrow> nat \<Rightarrow> align \<Rightarrow> string" where
  "pad s width a =
     (let len = display_width s in
      if width \<le> len then s
      else
        let fill = replicate (width - len) CHR '' '' in
        case a of AlignLeft \<Rightarrow> s @ fill | AlignRight \<Rightarrow> fill @ s)"

text \<open>One row widens the columns it has cells for; cells past the last column are ignored.\<close>

fun widen :: "nat list \<Rightarrow> string list \<Rightarrow> nat list" where
  "widen (w # ws) (c # cs) = max w (display_width c) # widen ws cs"
| "widen ws [] = ws"
| "widen [] cs = []"

definition widths_of :: "table \<Rightarrow> nat list" where
  "widths_of t = foldl widen (map display_width (tb_headers t)) (tb_rows t)"

text \<open>The padded cells of a row, a missing one empty; \<open>self.aligns[i]\<close> must be in range.\<close>

fun padded :: "nat list \<Rightarrow> align list \<Rightarrow> string list \<Rightarrow> string list dres" where
  "padded [] aligns cells = Ok []"
| "padded (w # ws) [] cells = Panic"
| "padded (w # ws) (a # aligns) cells =
     and_then (padded ws aligns (tl cells)) (\<lambda>rest.
     Ok (pad (case cells of [] \<Rightarrow> '''' | c # _ \<Rightarrow> c) w a # rest))"

fun all_padded :: "nat list \<Rightarrow> align list \<Rightarrow> string list list \<Rightarrow> string list list dres" where
  "all_padded ws aligns [] = Ok []"
| "all_padded ws aligns (row # rows) =
     and_then (padded ws aligns row) (\<lambda>p. and_then (all_padded ws aligns rows) (\<lambda>ps. Ok (p # ps)))"

definition tb_write :: "style \<Rightarrow> string \<Rightarrow> table \<Rightarrow> string list dres" where
  "tb_write st indent t =
     (if tb_rows t = [] then Ok [indent @ dim st ''(none)'']
      else
        let ws = widths_of t in
        and_then (padded ws (tb_aligns t) (tb_headers t)) (\<lambda>header.
        and_then (all_padded ws (tb_aligns t) (tb_rows t)) (\<lambda>rows.
        Ok ((indent @ dim st (join ''  '' header)) #
            map (\<lambda>row. indent @ trim_end (join ''  '' row)) rows))))"

section \<open>Prose\<close>

text \<open>\<open>split_whitespace\<close>: a word ends where a white-space character begins.\<close>

fun take_word :: "string \<Rightarrow> string \<times> string" where
  "take_word [] = ([], [])"
| "take_word (c # s) =
     (if list_ex (\<lambda>w. has_prefix w (c # s)) white_space then ([], c # s)
      else let (w, rest) = take_word s in (c # w, rest))"

lemma take_word_split: "take_word s = (w, rest) \<Longrightarrow> s = w @ rest"
  by (induction s arbitrary: w) (auto split: if_splits prod.splits)

lemma strip_any_stop:
  assumes "strip_any ws s = c # t" shows "find (\<lambda>w. w \<noteq> [] \<and> has_prefix w (c # t)) ws = None"
  using assms
proof (induction ws s rule: strip_any.induct)
  case (1 ws s)
  show ?case
  proof (cases "find (\<lambda>w. w \<noteq> [] \<and> has_prefix w s) ws")
    case None
    then show ?thesis using "1.prems" by (simp add: strip_any.simps [of ws s])
  next
    case (Some w)
    then show ?thesis using "1.IH" [OF Some] "1.prems" by (simp add: strip_any.simps [of ws s])
  qed
qed

lemma white_space_chars: "[] \<notin> set white_space"
  by (simp add: white_space_def)

lemma word_starts:
  assumes "trim_start s = c # t" shows "\<exists>w rest. take_word (c # t) = (c # w, rest)"
proof -
  have "\<not> list_ex (\<lambda>w. has_prefix w (c # t)) white_space"
    using strip_any_stop [OF assms [unfolded trim_start_def]] white_space_chars
    by (auto simp: find_None_iff list_ex_iff)
  then show ?thesis by (auto split: prod.splits)
qed

function split_whitespace :: "string \<Rightarrow> string list" where
  "split_whitespace s =
     (case trim_start s of
        [] \<Rightarrow> []
      | c # t \<Rightarrow> let (w, rest) = take_word (c # t) in w # split_whitespace rest)"
  by pat_completeness auto
termination
proof (relation "measure length", goal_cases)
  case (2 s c t x w rest)
  then obtain v where w: "w = c # v" using word_starts [of s c t] by auto
  then have "length rest < length (c # t)" using 2 take_word_split [of "c # t" w rest] by auto
  then show ?case
    using 2(1) length_strip_any [of white_space s] by (simp add: trim_start_def)
qed simp

declare split_whitespace.simps [simp del]

fun wrap_loop :: "nat \<Rightarrow> string list \<Rightarrow> string \<Rightarrow> string list \<Rightarrow> string list" where
  "wrap_loop width [] current lines = (if current \<noteq> [] then lines @ [current] else lines)"
| "wrap_loop width (w # ws) current lines =
     (let (current, lines) =
        (if current \<noteq> [] \<and> width < display_width current + 1 + display_width w then ('''', lines @ [current])
         else (current, lines));
        current = (if current \<noteq> [] then current @ '' '' else current) @ w in
      wrap_loop width ws current lines)"

definition wrap_text :: "string \<Rightarrow> nat \<Rightarrow> string list" where
  "wrap_text text width = wrap_loop width (split_whitespace text) '''' []"


section \<open>The report\<close>

definition ascii_upper :: "char \<Rightarrow> char" where
  "ascii_upper c = (if 97 \<le> (of_char c :: nat) \<and> (of_char c :: nat) \<le> 122 then char_of (of_char c - 32 :: nat) else c)"

definition middot :: string where "middot = [CHR 0xC2, CHR 0xB7]"

definition heading :: "style \<Rightarrow> string \<Rightarrow> string list" where
  "heading st text = ['''', bold st (map ascii_upper text)]"

definition label16 :: "string \<Rightarrow> string" where
  "label16 name = ''  '' @ pad_right 16 name"

definition summary_lines :: "summary \<Rightarrow> string list" where
  "summary_lines s =
     [label16 ''Packets'' @ show_nat (su_packets s) @ ''  ('' @ fmt_fixed 1 (su_packets_per_sec s) @ '' pkt/s)'',
      label16 ''Volume'' @ human_bytes (su_bytes s) @ ''  ('' @ fmt_fixed 2 (su_bits_per_sec s / 1000000) @ '' Mbit/s)'',
      label16 ''Flows'' @ show_nat (su_flows s),
      label16 ''Hosts'' @ show_nat (su_hosts s),
      label16 ''Duration'' @ human_duration (su_duration_secs s)] @
     (case (su_first_seen s, su_last_seen s) of
        (Some a, Some b) \<Rightarrow> [label16 ''Window'' @ a @ '' '' @ arrow @ '' '' @ b]
      | _ \<Rightarrow> []) @
     [label16 ''Breakdown'' @ ''ipv4 '' @ show_nat (pc_ipv4 (su_counts s)) @ '' '' @ middot @
        '' ipv6 '' @ show_nat (pc_ipv6 (su_counts s)) @ '' '' @ middot @
        '' arp '' @ show_nat (pc_arp (su_counts s)) @ '' '' @ middot @
        '' tcp '' @ show_nat (pc_tcp (su_counts s)) @ '' '' @ middot @
        '' udp '' @ show_nat (pc_udp (su_counts s)) @ '' '' @ middot @
        '' icmp '' @ show_nat (pc_icmp (su_counts s))] @
     (if 0 < su_truncated_packets s \<or> 0 < su_decode_warnings s \<or> 0 < pc_fragments (su_counts s) then
        [label16 ''Caveats'' @ show_nat (su_truncated_packets s) @ '' truncated '' @ middot @ '' '' @
           show_nat (su_decode_warnings s) @ '' decode warnings '' @ middot @ '' '' @
           show_nat (pc_fragments (su_counts s)) @ '' fragments'']
      else [])"

definition severity_tag :: "style \<Rightarrow> finding \<Rightarrow> string" where
  "severity_tag st f = sy_severity st (fg_severity f) (''['' @ show_severity (fg_severity f) @ '']'')"

definition finding_lines :: "style \<Rightarrow> finding \<Rightarrow> string list" where
  "finding_lines st f =
     (let tail = (if fg_technique f = [] then fg_id f
                  else fg_id f @ '' '' @ middot @ '' ATT&CK '' @ join '', '' (fg_technique f)) in
      [''  '' @ severity_tag st f @ '' '' @ bold st (fg_title f) @ ''  '' @ dim st tail] @
      map (\<lambda>l. ''      '' @ dim st l) (wrap_text (fg_detail f) 92) @
      map (\<lambda>e. ''      '' @ middot @ '' '' @ e) (fg_evidence f) @ [''''])"

definition findings_lines :: "style \<Rightarrow> finding list \<Rightarrow> string list" where
  "findings_lines st fs =
     (if fs = [] then [''  '' @ dim st ''No heuristics fired.''] else concat (map (finding_lines st) fs))"

text \<open>A table of the rows.\<close>

definition table_of :: "(string \<times> align) list \<Rightarrow> string list list \<Rightarrow> table" where
  "table_of cols rows = foldl (\<lambda>t cells. tb_row cells t) (tb_new (map fst cols) (map snd cols)) rows"

definition talker_cells :: "talker_stat \<Rightarrow> string list" where
  "talker_cells h =
     [talker_stat.ta_address h, human_bytes (ta_bytes_sent h), human_bytes (ta_bytes_received h),
      human_bytes (ta_total_bytes h), show_nat (ta_peers h), if ta_private h then ''private'' else ''public'']"

definition talker_table :: "nat \<Rightarrow> talker_stat list \<Rightarrow> table" where
  "talker_table rows xs = table_of
     [(''HOST'', AlignLeft), (''SENT'', AlignRight), (''RECEIVED'', AlignRight), (''TOTAL'', AlignRight),
      (''PEERS'', AlignRight), (''SCOPE'', AlignLeft)] (map talker_cells (take rows xs))"

definition service_cells :: "service_stat \<Rightarrow> string list" where
  "service_cells s =
     [sv_service s, sv_protocol s, show_nat (unat (sv_port s)), show_nat (sv_flows s),
      show_nat (sv_packets s), human_bytes (sv_bytes s)]"

definition service_table :: "nat \<Rightarrow> service_stat list \<Rightarrow> table" where
  "service_table rows xs = table_of
     [(''SERVICE'', AlignLeft), (''PROTO'', AlignLeft), (''PORT'', AlignRight), (''FLOWS'', AlignRight),
      (''PACKETS'', AlignRight), (''BYTES'', AlignRight)] (map service_cells (take rows xs))"

text \<open>The SNI is the strongest name; then the name DNS gave the destination.\<close>

definition flow_app :: "flow_summary \<Rightarrow> string" where
  "flow_app f =
     (let app = (if fy_protocols f = [] then unwrap_or '''' (fy_service f) else join '','' (fy_protocols f)) in
      case (fy_sni f, fy_resolved_dest f) of
        (Some sni, _) \<Rightarrow> app @ '' '' @ sni
      | (None, Some name) \<Rightarrow> trim (app @ '' '' @ name)
      | (None, None) \<Rightarrow> app)"

definition flow_cells :: "flow_summary \<Rightarrow> string list" where
  "flow_cells f =
     [fy_flow f, flow_summary.fy_scope f, flow_app f, show_nat (fy_packets f), human_bytes (fy_bytes f),
      human_duration (fy_duration_secs f)]"

definition flow_rows_table :: "nat \<Rightarrow> flow_summary list \<Rightarrow> table" where
  "flow_rows_table rows xs = table_of
     [(''FLOW'', AlignLeft), (''SCOPE'', AlignLeft), (''APP'', AlignLeft), (''PACKETS'', AlignRight),
      (''BYTES'', AlignRight), (''DURATION'', AlignRight)] (map flow_cells (take rows xs))"

definition beacon_cells :: "beacon_score \<Rightarrow> string list" where
  "beacon_cells b =
     [bc_flow b, human_duration (bc_interval b), human_percent (bc_jitter b), show_nat (bc_samples b),
      fmt_fixed 2 (bc_confidence b), unwrap_or '''' (bc_sni b)]"

definition beacon_table :: "nat \<Rightarrow> beacon_score list \<Rightarrow> table" where
  "beacon_table rows xs = table_of
     [(''FLOW'', AlignLeft), (''INTERVAL'', AlignRight), (''JITTER'', AlignRight), (''SAMPLES'', AlignRight),
      (''CONFIDENCE'', AlignRight), (''SNI'', AlignLeft)] (map beacon_cells (take rows xs))"

definition count_table :: "string \<Rightarrow> string \<Rightarrow> nat \<Rightarrow> (string \<times> nat) list \<Rightarrow> table" where
  "count_table name total_col rows xs = table_of [(name, AlignLeft), (total_col, AlignRight)]
     (map (\<lambda>(k, n). [k, show_nat n]) (take rows xs))"

definition ja3_table :: "nat \<Rightarrow> (string \<times> nat \<times> string option) list \<Rightarrow> table" where
  "ja3_table rows xs = table_of
     [(''JA3'', AlignLeft), (''COUNT'', AlignRight), (''EXAMPLE SNI'', AlignLeft)]
     (map (\<lambda>(hash, n, sni). [hash, show_nat n, unwrap_or '''' sni]) (take rows xs))"

text \<open>A part of the report: fixed lines, or a table with its indent.\<close>

datatype part = Lines "string list" | Tab table

fun render_parts :: "style \<Rightarrow> part list \<Rightarrow> string list dres" where
  "render_parts st [] = Ok []"
| "render_parts st (Lines ls # ps) = and_then (render_parts st ps) (\<lambda>rest. Ok (ls @ rest))"
| "render_parts st (Tab t # ps) =
     and_then (tb_write st ''  '' t) (\<lambda>ls. and_then (render_parts st ps) (\<lambda>rest. Ok (ls @ rest)))"

definition dns_parts :: "style \<Rightarrow> nat \<Rightarrow> dns_overview \<Rightarrow> part list" where
  "dns_parts st rows d =
     (if 0 < do_unique_names d then
        [Lines (heading st ''dns'' @ [''  '' @ dim st (show_nat (do_unique_names d) @ '' unique names '' @ middot @
           '' '' @ show_nat (do_queries d) @ '' queries '' @ middot @ '' '' @ show_nat (do_nxdomain d) @
           '' NXDOMAIN'')]),
         Tab (count_table ''NAME'' ''LOOKUPS'' rows (do_top_names d))]
      else [])"

definition tls_parts :: "style \<Rightarrow> nat \<Rightarrow> tls_overview \<Rightarrow> part list" where
  "tls_parts st rows t =
     (if 0 < to_handshakes t then
        [Lines (heading st ''tls'' @ [''  '' @ dim st (show_nat (to_handshakes t) @ '' handshakes '' @ middot @
           '' '' @ show_nat (to_unique_sni t) @ '' unique SNI '' @ middot @ '' '' @ show_nat (to_no_sni t) @
           '' without SNI '' @ middot @ '' '' @ show_nat (to_obsolete_versions t) @ '' obsolete versions'')]),
         Tab (count_table ''SNI'' ''COUNT'' rows (to_top_sni t))] @
        (if to_top_ja3 t = [] then [] else [Tab (ja3_table rows (to_top_ja3 t))])
      else [])"

definition http_parts :: "style \<Rightarrow> nat \<Rightarrow> http_overview \<Rightarrow> part list" where
  "http_parts st rows h =
     (if 0 < ho_requests h \<or> 0 < ho_responses h then
        [Lines (heading st ''http'' @ [''  '' @ dim st (show_nat (ho_requests h) @ '' requests '' @ middot @
           '' '' @ show_nat (ho_responses h) @ '' responses '' @ middot @ '' '' @ show_nat (ho_cleartext_auth h) @
           '' with cleartext Authorization'')]),
         Tab (count_table ''HOST'' ''REQUESTS'' rows (ho_top_hosts h))]
      else [])"

definition report_parts :: "style \<Rightarrow> nat \<Rightarrow> report \<Rightarrow> part list" where
  "report_parts st rows r =
     [Lines ([bold st ''Custom Built Network Analyzer'', dim st (''source: '' @ re_source r)] @
        heading st ''summary'' @ summary_lines (re_summary r) @
        heading st ''findings'' @ findings_lines st (re_findings r) @ heading st ''top talkers''),
      Tab (talker_table rows (re_talkers r)),
      Lines (heading st ''services''), Tab (service_table rows (re_services r)),
      Lines (heading st ''top flows''), Tab (flow_rows_table rows (re_top_flows r))] @
     (if re_beacons r = [] then []
      else [Lines (heading st ''beacon candidates''), Tab (beacon_table rows (re_beacons r))]) @
     dns_parts st rows (re_dns r) @ tls_parts st rows (re_tls r) @ http_parts st rows (re_http r) @
     [Lines ['''', cyan st (re_tool r @ '' '' @ middot @ '' '' @ re_generated_at r)]]"

definition render_report :: "style \<Rightarrow> nat \<Rightarrow> report \<Rightarrow> string list dres" where
  "render_report st rows r = render_parts st (report_parts st rows r)"


section \<open>Wrapping keeps the words\<close>

lemma join_append: "xs \<noteq> [] \<Longrightarrow> ys \<noteq> [] \<Longrightarrow> join sep (xs @ ys) = join sep xs @ sep @ join sep ys"
proof (induction sep xs rule: join.induct)
  case (2 sep x)
  then show ?case by (cases ys) simp_all
qed simp_all

lemma join_glue: "join sep (xs @ (a @ sep @ b) # ys) = join sep (xs @ a # b # ys)"
proof -
  have *: "join sep ((a @ sep @ b) # ys) = join sep (a # b # ys)" by (cases ys) simp_all
  show ?thesis
    using join_append [of xs "(a @ sep @ b) # ys" sep] join_append [of xs "a # b # ys" sep]
    by (cases "xs = []") (simp_all add: *)
qed

lemma display_width_append [simp]: "display_width (a @ b) = display_width a + display_width b"
  by (simp add: display_width_def bytes_of_def)

lemma display_width_spaces [simp]: "display_width (replicate n CHR '' '') = n"
proof -
  have "\<not> is_cont (byte_of CHR '' '')" by (simp add: is_cont_def byte_of_def)
  then show ?thesis by (simp add: display_width_def bytes_of_def)
qed

lemma display_width_space [simp]: "display_width '' '' = 1"
  using display_width_spaces [of 1] by simp

definition line_fits :: "nat \<Rightarrow> string list \<Rightarrow> string \<Rightarrow> bool" where
  "line_fits width ws l \<longleftrightarrow> display_width l \<le> width \<or> l \<in> set ws"

lemma wrap_loop_words:
  "list_all (\<lambda>w. w \<noteq> []) ws \<Longrightarrow>
     join '' '' (wrap_loop width ws current lines) =
       join '' '' (lines @ (if current \<noteq> [] then [current] else []) @ ws)"
proof (induction width ws current lines rule: wrap_loop.induct)
  case (2 width w ws current lines)
  then show ?case
    using join_glue [of "'' ''" lines current w ws]
    by (cases "current \<noteq> [] \<and> width < display_width current + 1 + display_width w") (auto simp: Let_def)
qed simp

lemma wrap_loop_fits:
  "list_all (line_fits width all) lines \<Longrightarrow> current = [] \<or> line_fits width all current \<Longrightarrow> set ws \<subseteq> set all \<Longrightarrow>
     list_all (line_fits width all) (wrap_loop width ws current lines)"
proof (induction width ws current lines rule: wrap_loop.induct)
  case (2 width w ws current lines)
  then show ?case by (auto simp: Let_def line_fits_def)
qed auto

lemma split_whitespace_words: "list_all (\<lambda>w. w \<noteq> []) (split_whitespace s)"
proof (induction s rule: split_whitespace.induct)
  case (1 s)
  show ?case
  proof (cases "trim_start s")
    case (Cons c t)
    obtain w rest where w: "take_word (c # t) = (c # w, rest)" using word_starts [OF Cons] by auto
    then show ?thesis
      using "1.IH" [OF Cons refl w [symmetric]] by (simp add: split_whitespace.simps [of s] Cons del: take_word.simps)
  qed (simp add: split_whitespace.simps [of s])
qed

text \<open>
  C35. Wrapping prose keeps every word, in order, and nothing else but single spaces between them; a line
  is wider than the width only when it is one word that is.
\<close>

theorem wrap_text_faithful:
  "join '' '' (wrap_text prose width) = join '' '' (split_whitespace prose) \<and>
   list_all (line_fits width (split_whitespace prose)) (wrap_text prose width)"
  using wrap_loop_words [OF split_whitespace_words, of width prose "[]" "[]"]
    wrap_loop_fits [of width "split_whitespace prose" "[]" "[]" "split_whitespace prose"]
  by (simp add: wrap_text_def)

section \<open>Columns\<close>

fun fits :: "nat list \<Rightarrow> string list \<Rightarrow> bool" where
  "fits (w # ws) (c # cs) \<longleftrightarrow> display_width c \<le> w \<and> fits ws cs"
| "fits ws [] \<longleftrightarrow> True"
| "fits [] cs \<longleftrightarrow> True"

lemma fits_Nil [simp]: "fits ws []"
  by (cases ws) simp_all

lemma length_widen [simp]: "length (widen ws cs) = length ws"
  by (induction ws cs rule: widen.induct) auto

lemma fits_widen: "fits (widen ws cs) cs" "fits ws ds \<Longrightarrow> fits (widen ws cs) ds"
proof -
  show "fits (widen ws cs) cs" by (induction ws cs rule: widen.induct) auto
  show "fits ws ds \<Longrightarrow> fits (widen ws cs) ds"
  proof (induction ws cs arbitrary: ds rule: widen.induct)
    case (1 w ws c cs)
    then show ?case by (cases ds) auto
  qed auto
qed

lemma fits_widths:
  "list_all (fits (foldl widen ws rows)) rows" "fits ws ds \<Longrightarrow> fits (foldl widen ws rows) ds"
  "length (foldl widen ws rows) = length ws"
proof -
  show keep: "fits ws ds \<Longrightarrow> fits (foldl widen ws rows) ds" for ws ds rows
    by (induction rows arbitrary: ws) (auto intro: fits_widen)
  show "list_all (fits (foldl widen ws rows)) rows"
    by (induction rows arbitrary: ws) (auto intro: keep fits_widen)
  show "length (foldl widen ws rows) = length ws" by (induction rows arbitrary: ws) auto
qed

lemma display_width_pad [simp]: "display_width (pad s w a) = max w (display_width s)"
  by (cases a) (auto simp: pad_def Let_def)

lemma padded_fits:
  "fits ws cells \<Longrightarrow> length ws \<le> length aligns \<Longrightarrow> returns (\<lambda>p. map display_width p = ws) (padded ws aligns cells)"
proof (induction ws aligns cells rule: padded.induct)
  case (3 w ws a aligns cells)
  have nil: "display_width [] = 0" by (simp add: display_width_def bytes_of_def)
  have fit: "fits ws (tl cells)" and w: "display_width (case cells of [] \<Rightarrow> [] | c # _ \<Rightarrow> c) \<le> w"
    using "3.prems"(1) by (cases cells; simp add: nil)+
  have "returns (\<lambda>p. map display_width p = ws) (padded ws aligns (tl cells))"
    using "3.IH" fit "3.prems"(2) by simp
  then show ?case
    using w by (cases "padded ws aligns (tl cells)") (simp_all add: max_absorb1)
qed simp_all

lemma all_padded_fits:
  "list_all (fits ws) rows \<Longrightarrow> length ws \<le> length aligns \<Longrightarrow>
     returns (list_all (\<lambda>p. map display_width p = ws)) (all_padded ws aligns rows)"
proof (induction rows)
  case (Cons row rows)
  then have "returns (\<lambda>p. map display_width p = ws) (padded ws aligns row)" by (intro padded_fits) simp_all
  then show ?case using Cons by (cases "padded ws aligns row"; cases "all_padded ws aligns rows") auto
qed simp

text \<open>What a table prints: a grid whose cells have, column by column, the width of the column.\<close>

definition table_lines_ok :: "style \<Rightarrow> string \<Rightarrow> table \<Rightarrow> string list \<Rightarrow> bool" where
  "table_lines_ok st indent t ls \<longleftrightarrow>
     (if tb_rows t = [] then ls = [indent @ dim st ''(none)'']
      else \<exists>header grid. ls = (indent @ dim st (join ''  '' header)) #
          map (\<lambda>row. indent @ trim_end (join ''  '' row)) grid \<and>
        list_all (\<lambda>row. map display_width row = widths_of t) (header # grid) \<and> length grid = length (tb_rows t))"

lemma length_all_padded: "all_padded ws aligns rows = Ok ps \<Longrightarrow> length ps = length rows"
  by (induction rows arbitrary: ps) auto

lemma tb_write_aligned:
  assumes "length (tb_headers t) \<le> length (tb_aligns t)"
  shows "returns (table_lines_ok st indent t) (tb_write st indent t)"
proof (cases "tb_rows t = []")
  case False
  have len: "length (widths_of t) \<le> length (tb_aligns t)"
    using assms fits_widths(3) by (simp add: widths_of_def)
  have own: "fits (map display_width cs) cs" for cs by (induction cs) auto
  obtain header where h: "padded (widths_of t) (tb_aligns t) (tb_headers t) = Ok header" "map display_width header = widths_of t"
    using padded_fits [OF fits_widths(2) [OF own] len [unfolded widths_of_def]] unfolding widths_of_def
    by (cases "padded (foldl widen (map display_width (tb_headers t)) (tb_rows t)) (tb_aligns t) (tb_headers t)") auto
  obtain grid where g: "all_padded (widths_of t) (tb_aligns t) (tb_rows t) = Ok grid"
    "list_all (\<lambda>p. map display_width p = widths_of t) grid"
    using all_padded_fits [OF fits_widths(1) len [unfolded widths_of_def]] unfolding widths_of_def
    by (cases "all_padded (foldl widen (map display_width (tb_headers t)) (tb_rows t)) (tb_aligns t) (tb_rows t)") auto
  show ?thesis
    using False h g length_all_padded [OF g(1)] by (auto simp: tb_write_def Let_def table_lines_ok_def)
qed (simp add: tb_write_def table_lines_ok_def)



section \<open>Rendering a report\<close>

definition tables_ok :: "part list \<Rightarrow> bool" where
  "tables_ok ps \<longleftrightarrow> list_all (\<lambda>p. case p of Lines _ \<Rightarrow> True
     | Tab t \<Rightarrow> length (tb_headers t) \<le> length (tb_aligns t)) ps"

lemma table_of_ok [simp]: "length (tb_headers (table_of cols rows)) \<le> length (tb_aligns (table_of cols rows))"
proof -
  have "tb_headers (foldl (\<lambda>t cells. tb_row cells t) t rows) = tb_headers t"
    "tb_aligns (foldl (\<lambda>t cells. tb_row cells t) t rows) = tb_aligns t" for t
    by (induction rows arbitrary: t) (auto simp: tb_row_def)
  then show ?thesis by (simp add: table_of_def tb_new_def)
qed

lemma render_parts_returns: "tables_ok ps \<Longrightarrow> returns (\<lambda>_. True) (render_parts st ps)"
proof (induction st ps rule: render_parts.induct)
  case (2 st ls ps)
  then show ?case by (cases "render_parts st ps") (auto simp: tables_ok_def)
next
  case (3 st t ps)
  then obtain ls where "tb_write st ''  '' t = Ok ls"
    using tb_write_aligned [of t st "''  ''"] by (cases "tb_write st ''  '' t") (auto simp: tables_ok_def)
  then show ?case using 3 by (cases "render_parts st ps") (auto simp: tables_ok_def)
qed simp

lemma render_report_returns: "returns (\<lambda>_. True) (render_report st rows r)"
  unfolding render_report_def
  by (rule render_parts_returns)
    (simp add: tables_ok_def report_parts_def dns_parts_def tls_parts_def http_parts_def talker_table_def
      service_table_def flow_rows_table_def beacon_table_def count_table_def ja3_table_def)

end
