(* ===== verification/Web.thy ===== *)
theory Web
  imports Report IpAddr
begin

text \<open>
  \<open>cbna-web\<close>: the state the dashboard serves, the handlers, the page of a static export, and the
  interleaving of a publishing capture with a polling client.  The HTTP server and the serialiser are
  libraries: a response is a value, and the text of a payload is a parameter.  The lemmas show
  what is served before and after a snapshot, that nothing in a report can end the script block of an
  exported page, and that a client can be left with a report that is out of date.
\<close>

section \<open>State\<close>

record capture_status =
  cs_source :: string
  cs_live :: bool
  cs_running :: bool
  cs_packets :: nat
  cs_dropped :: nat
  cs_elapsed_secs :: rat
  cs_last_update :: string

definition capture_status_default :: capture_status where
  "capture_status_default =
     \<lparr>cs_source = '''', cs_live = False, cs_running = False, cs_packets = 0, cs_dropped = 0,
      cs_elapsed_secs = 0, cs_last_update = ''''\<rparr>"

record app_state =
  st_report :: "report option"
  st_status :: capture_status
  st_generation :: nat
  st_shutdown :: bool

definition st_new :: "string \<Rightarrow> bool \<Rightarrow> app_state" where
  "st_new source live =
     \<lparr>st_report = None,
      st_status = capture_status_default\<lparr>cs_source := source, cs_live := live, cs_running := True\<rparr>,
      st_generation = 0, st_shutdown = False\<rparr>"

text \<open>The three writes of \<open>publish\<close>, each atomic; \<open>publish\<close> itself does them in this order.\<close>

definition write_report :: "report \<Rightarrow> app_state \<Rightarrow> app_state" where
  "write_report r st = st\<lparr>st_report := Some r\<rparr>"

definition write_status :: "capture_status \<Rightarrow> app_state \<Rightarrow> app_state" where
  "write_status s st = st\<lparr>st_status := s\<rparr>"

definition bump_generation :: "app_state \<Rightarrow> app_state" where
  "bump_generation st = st\<lparr>st_generation := st_generation st + 1\<rparr>"

definition publish :: "report \<Rightarrow> capture_status \<Rightarrow> app_state \<Rightarrow> app_state" where
  "publish r s st = bump_generation (write_status s (write_report r st))"

definition request_shutdown :: "app_state \<Rightarrow> app_state" where
  "request_shutdown st = st\<lparr>st_shutdown := True\<rparr>"

definition mark_finished :: "app_state \<Rightarrow> app_state" where
  "mark_finished st = st\<lparr>st_status := (st_status st)\<lparr>cs_running := False\<rparr>\<rparr>"

section \<open>Handlers\<close>

datatype response =
    RsIndex string
  | RsHealth bool nat bool
  | RsStatus capture_status
  | RsReport nat capture_status report
  | RsFindings "finding list"
  | RsFlows "flow_summary list"
  | RsError nat string

definition not_ready :: response where
  "not_ready = RsError 503 ''no analysis snapshot yet''"

definition api_health :: "app_state \<Rightarrow> response" where
  "api_health st = RsHealth True (st_generation st) (st_report st \<noteq> None)"

definition api_status :: "app_state \<Rightarrow> response" where
  "api_status st = RsStatus (st_status st)"

definition api_report :: "app_state \<Rightarrow> response" where
  "api_report st =
     (case st_report st of
        Some r \<Rightarrow> RsReport (st_generation st) (st_status st) r
      | None \<Rightarrow> not_ready)"

definition api_findings :: "app_state \<Rightarrow> response" where
  "api_findings st = (case st_report st of Some r \<Rightarrow> RsFindings (re_findings r) | None \<Rightarrow> not_ready)"

record flow_query =
  fq_q :: "string option"
  fq_limit :: "nat option"

text \<open>\<open>str::contains\<close>\<close>

definition str_contains :: "string \<Rightarrow> string \<Rightarrow> bool" where
  "str_contains s p \<longleftrightarrow> split_once_str p s \<noteq> None"

definition flow_matches :: "string option \<Rightarrow> flow_summary \<Rightarrow> bool" where
  "flow_matches needle f \<longleftrightarrow>
     (case needle of
        None \<Rightarrow> True
      | Some n \<Rightarrow>
          str_contains (to_ascii_lowercase (fy_flow f)) n \<or>
          (case fy_sni f of None \<Rightarrow> False | Some s \<Rightarrow> str_contains (to_ascii_lowercase s) n) \<or>
          list_ex (\<lambda>p. str_contains p n) (fy_protocols f) \<or>
          (case fy_service f of None \<Rightarrow> False | Some s \<Rightarrow> str_contains s n))"

definition api_flows :: "flow_query \<Rightarrow> app_state \<Rightarrow> response" where
  "api_flows query st =
     (case st_report st of
        None \<Rightarrow> not_ready
      | Some r \<Rightarrow>
          let needle = map_option to_ascii_lowercase (fq_q query);
              limit = min (unwrap_or 200 (fq_limit query)) 2000 in
          RsFlows (take limit (filter (flow_matches needle) (re_top_flows r))))"

text \<open>The routes; \<open>page\<close> is the text of \<open>assets/index.html\<close>.\<close>

definition route :: "string \<Rightarrow> string \<Rightarrow> flow_query \<Rightarrow> app_state \<Rightarrow> response option" where
  "route page path query st =
     (if path = ''/'' then Some (RsIndex page)
      else if path = ''/api/report'' then Some (api_report st)
      else if path = ''/api/status'' then Some (api_status st)
      else if path = ''/api/findings'' then Some (api_findings st)
      else if path = ''/api/flows'' then Some (api_flows query st)
      else if path = ''/api/health'' then Some (api_health st)
      else None)"

section \<open>The static page\<close>

definition BACKSLASH :: char where "BACKSLASH = CHR 0x5C"
definition DQUOTE :: char where "DQUOTE = CHR 0x22"

definition escape_char :: "char \<Rightarrow> string" where
  "escape_char c = (if c = CHR ''<'' then BACKSLASH # ''u003c'' else [c])"

text \<open>\<open>replace('<', "\\u003c")\<close> and \<open>replacen(p, r, 1)\<close>\<close>

definition escape_lt :: "string \<Rightarrow> string" where
  "escape_lt s = concat (map escape_char s)"

definition replace_first :: "string \<Rightarrow> string \<Rightarrow> string \<Rightarrow> string" where
  "replace_first p r s = (case split_once_str p s of None \<Rightarrow> s | Some (a, b) \<Rightarrow> a @ r @ b)"

definition snapshot_open :: string where
  "snapshot_open = ''<script type='' @ [DQUOTE] @ ''application/json'' @ [DQUOTE] @ '' id='' @ [DQUOTE] @
     ''cbna-snapshot'' @ [DQUOTE] @ ''>''"

definition snapshot_close :: string where
  "snapshot_close = ''</script>'' @ [CHR 0x0A] @ ''</body>''"

text \<open>The payload; \<open>to_string\<close> stands for \<open>serde_json::to_string\<close>, which may fail.\<close>

definition static_payload :: "report \<Rightarrow> response" where
  "static_payload r =
     RsReport 1
       \<lparr>cs_source = re_source r, cs_live = False, cs_running = False, cs_packets = su_packets (re_summary r),
        cs_dropped = 0, cs_elapsed_secs = su_duration_secs (re_summary r), cs_last_update = re_generated_at r\<rparr> r"

definition embedded_json :: "(response \<Rightarrow> string option) \<Rightarrow> report \<Rightarrow> string" where
  "embedded_json to_string r = escape_lt (unwrap_or ''null'' (to_string (static_payload r)))"

definition render_static :: "(response \<Rightarrow> string option) \<Rightarrow> string \<Rightarrow> report \<Rightarrow> string" where
  "render_static to_string page r =
     replace_first ''</body>'' (snapshot_open @ embedded_json to_string r @ snapshot_close) page"


section \<open>Reading the embedded text back\<close>

text \<open>
  What a page reads as JSON: the tokens of the text, a string with its escapes decoded.  A code
  unit below 128 is the byte it stands for.
\<close>

datatype junit = JByte char | JCode nat

datatype jtok = JChar char | JString "junit list"

definition junit_of :: "nat \<Rightarrow> junit" where
  "junit_of n = (if n < 128 then JByte (char_of n) else JCode n)"

definition hex_code :: "string \<Rightarrow> nat" where
  "hex_code ds = foldl (\<lambda>v c. 16 * v + hex_val c) 0 ds"

definition SIMPLE_ESCAPES :: "(char \<times> char) list" where
  "SIMPLE_ESCAPES =
     [(DQUOTE, DQUOTE), (BACKSLASH, BACKSLASH), (CHR ''/'', CHR ''/''), (CHR ''b'', CHR 0x08),
      (CHR ''f'', CHR 0x0C), (CHR ''n'', CHR 0x0A), (CHR ''r'', CHR 0x0D), (CHR ''t'', CHR 0x09)]"

definition json_escape :: "string \<Rightarrow> (junit \<times> string) option" where
  "json_escape s =
     (case s of
        [] \<Rightarrow> None
      | e # t \<Rightarrow>
          if e = CHR ''u'' then
            (if 4 \<le> length t \<and> list_all is_hexdigit (take 4 t)
             then Some (junit_of (hex_code (take 4 t)), drop 4 t) else None)
          else (case map_of SIMPLE_ESCAPES e of None \<Rightarrow> None | Some x \<Rightarrow> Some (JByte x, t)))"

lemma json_escape_shorter: "json_escape s = Some (u, rest) \<Longrightarrow> length rest < length s"
  by (auto simp: json_escape_def split: list.splits if_splits option.splits)

function json_string :: "string \<Rightarrow> (junit list \<times> string) option" where
  "json_string [] = None"
| "json_string (c # s) =
     (if c = DQUOTE then Some ([], s)
      else if c = BACKSLASH then
        (case json_escape s of
           None \<Rightarrow> None
         | Some (u, rest) \<Rightarrow> map_option (apfst (Cons u)) (json_string rest))
      else if of_char c < (32 :: nat) then None
      else map_option (apfst (Cons (JByte c))) (json_string s))"
  by pat_completeness auto
termination by (relation "measure length") (auto dest!: json_escape_shorter)

lemma json_string_shorter: "json_string s = Some (us, rest) \<Longrightarrow> length rest < length s"
proof (induction s arbitrary: us rule: json_string.induct)
  case (2 c s)
  consider "c = DQUOTE" | "c \<noteq> DQUOTE" "c = BACKSLASH" | "c \<noteq> DQUOTE" "c \<noteq> BACKSLASH" by blast
  then show ?case
  proof cases
    case 2
    then obtain u r vs where r: "json_escape s = Some (u, r)" "json_string r = Some (vs, rest)"
      using "2.prems" by (auto split: option.splits)
    then show ?thesis using "2.IH"(1) [OF 2 r(1) refl r(2)] json_escape_shorter [OF r(1)] by simp
  next
    case 3
    then obtain vs where v: "\<not> of_char c < (32 :: nat)" "json_string s = Some (vs, rest)"
      using "2.prems" by (auto split: if_splits)
    then show ?thesis using "2.IH"(2) [OF 3 v] by simp
  qed (use "2.prems" in simp)
qed simp

definition JSON_CHARS :: string where
  "JSON_CHARS = ''{}[]:,+-.0123456789eEtrufalsn '' @ [CHR 0x09, CHR 0x0A, CHR 0x0D]"

function json_tokens :: "string \<Rightarrow> jtok list option" where
  "json_tokens [] = Some []"
| "json_tokens (c # s) =
     (if c = DQUOTE then
        (case json_string s of
           None \<Rightarrow> None
         | Some (us, rest) \<Rightarrow> map_option (Cons (JString us)) (json_tokens rest))
      else if c \<in> set JSON_CHARS then map_option (Cons (JChar c)) (json_tokens s)
      else None)"
  by pat_completeness auto
termination by (relation "measure length") (auto dest!: json_string_shorter)

lemma escape_lt_simps [simp]:
  "escape_lt [] = []" "escape_lt (c # s) = escape_char c @ escape_lt s"
  "escape_lt (a @ b) = escape_lt a @ escape_lt b"
  by (simp_all add: escape_lt_def)

lemma escape_char_other [simp]: "c \<noteq> CHR ''<'' \<Longrightarrow> escape_char c = [c]"
  by (simp add: escape_char_def)

lemma escape_lt_none: "CHR ''<'' \<notin> set s \<Longrightarrow> escape_lt s = s"
  by (induction s) auto

lemma escape_lt_no_lt: "CHR ''<'' \<notin> set (escape_lt s)"
  by (auto simp: escape_lt_def escape_char_def BACKSLASH_def)

lemma json_escape_lt:
  assumes "json_escape s = Some (u, rest)" shows "json_escape (escape_lt s) = Some (u, escape_lt rest)"
proof (cases s)
  case (Cons e t)
  have e: "e \<noteq> CHR ''<''"
    using assms by (auto simp: Cons json_escape_def SIMPLE_ESCAPES_def DQUOTE_def BACKSLASH_def split: if_splits)
  show ?thesis
  proof (cases "e = CHR ''u''")
    case True
    then have hex: "4 \<le> length t" "list_all is_hexdigit (take 4 t)"
      and out: "u = junit_of (hex_code (take 4 t))" "rest = drop 4 t"
      using assms by (auto simp: Cons json_escape_def split: if_splits)
    have "\<not> is_hexdigit CHR ''<''" by (simp add: is_hexdigit_def)
    then have "CHR ''<'' \<notin> set (take 4 t)" using hex(2) by (auto simp: list_all_iff)
    then have "escape_lt t = take 4 t @ escape_lt (drop 4 t)"
      by (metis append_take_drop_id escape_lt_simps(3) escape_lt_none)
    then show ?thesis using hex True by (simp add: Cons json_escape_def out)
  next
    case False
    then show ?thesis using assms e by (auto simp: Cons json_escape_def split: option.splits)
  qed
qed (use assms in \<open>simp add: json_escape_def\<close>)

lemma lt_char: "char_of (60 :: nat) = CHR ''<''"
  by (rule trans [OF _ char_of_char]) simp

lemma json_escape_u003c: "json_escape (''u003c'' @ s) = Some (JByte CHR ''<'', s)"
  by (simp add: json_escape_def is_hexdigit_def hex_code_def hex_val_def junit_of_def lt_char)

lemma json_string_escape:
  "json_string s = Some (us, rest) \<Longrightarrow> json_string (escape_lt s) = Some (us, escape_lt rest)"
proof (induction s arbitrary: us rule: json_string.induct)
  case (2 c s)
  show ?case
  proof (cases "c = CHR ''<''")
    case True
    then have "c \<noteq> DQUOTE" "c \<noteq> BACKSLASH" "\<not> of_char c < (32 :: nat)" by (simp_all add: DQUOTE_def BACKSLASH_def)
    then obtain vs where v: "json_string s = Some (vs, rest)" "us = JByte CHR ''<'' # vs"
      using "2.prems" True by auto
    have "BACKSLASH \<noteq> DQUOTE" by (simp add: DQUOTE_def BACKSLASH_def)
    then show ?thesis
      using "2.IH"(2) [OF _ _ _ v(1)] \<open>c \<noteq> DQUOTE\<close> \<open>c \<noteq> BACKSLASH\<close> \<open>\<not> of_char c < (32 :: nat)\<close> v(2)
      by (simp add: True escape_char_def json_escape_u003c [simplified])
  next
    case False
    then show ?thesis
      using 2 by (auto split: if_splits option.splits simp: json_escape_lt)
  qed
qed simp

lemma json_tokens_escape:
  "json_tokens s = Some toks \<Longrightarrow> json_tokens (escape_lt s) = Some toks"
proof (induction s arbitrary: toks rule: json_tokens.induct)
  case (2 c s)
  have "c \<noteq> CHR ''<''" using "2.prems" by (auto simp: JSON_CHARS_def DQUOTE_def split: if_splits)
  then show ?case
    using 2 by (auto split: if_splits option.splits simp: json_string_escape)
qed simp

text \<open>
  C16. An exported page is the dashboard page with one script block before its first \<open></body>\<close>: whatever
  names, banners or queries the capture held, the text in the block has no \<open><\<close>, so nothing of it can end
  the block or open a tag, and it reads as JSON exactly as the serialised snapshot does.
\<close>

theorem static_page_contained:
  "case split_once_str ''</body>'' page of
     None \<Rightarrow> render_static to_string page r = page
   | Some (before, after) \<Rightarrow>
       let json = embedded_json to_string r in
       render_static to_string page r = before @ snapshot_open @ json @ snapshot_close @ after \<and>
       CHR ''<'' \<notin> set json \<and>
       (case to_string (static_payload r) of
          None \<Rightarrow> json = ''null''
        | Some text \<Rightarrow> json_tokens text = None \<or> json_tokens json = json_tokens text)"
proof -
  have "json_tokens t = None \<or> json_tokens (escape_lt t) = json_tokens t" for t
    using json_tokens_escape [of t] by (cases "json_tokens t") auto
  moreover have "escape_lt ''null'' = ''null''" by (simp add: escape_lt_none)
  ultimately show ?thesis
    by (auto simp: render_static_def replace_first_def embedded_json_def escape_lt_no_lt Let_def unwrap_or_def
        simp del: escape_lt_simps split: option.splits)
qed


section \<open>A capture that publishes and a page that polls\<close>

text \<open>
  The capture thread publishes snapshots one after the other and a page polls, each on its own thread:
  their reads and writes of the shared state interleave.  A step is one read or write under its lock;
  the handler of \<open>/api/report\<close> reads the report, the generation and the status, in this order, and the page
  keeps what it shows when the generation is the one it has.
\<close>

datatype pub_phase = PubReport | PubStatus | PubGeneration

datatype poll_phase = PollReport | PollGeneration report | PollStatus report nat

record dashboard =
  da_state :: app_state
  da_todo :: "(report \<times> capture_status) list"
  da_pub :: pub_phase
  da_poll :: poll_phase
  da_latest :: "(nat \<times> report) option"

definition da_new :: "string \<Rightarrow> (report \<times> capture_status) list \<Rightarrow> dashboard" where
  "da_new source snapshots =
     \<lparr>da_state = st_new source True, da_todo = snapshots, da_pub = PubReport, da_poll = PollReport,
      da_latest = None\<rparr>"

definition redraw :: "nat \<Rightarrow> report \<Rightarrow> (nat \<times> report) option \<Rightarrow> (nat \<times> report) option" where
  "redraw g r latest = (if latest = None \<or> g \<noteq> fst (the latest) then Some (g, r) else latest)"

inductive dash_step :: "dashboard \<Rightarrow> dashboard \<Rightarrow> bool" where
  pub_report: "da_todo d = (r, s) # todo \<Longrightarrow> da_pub d = PubReport \<Longrightarrow>
    dash_step d (d\<lparr>da_state := write_report r (da_state d), da_pub := PubStatus\<rparr>)"
| pub_status: "da_todo d = (r, s) # todo \<Longrightarrow> da_pub d = PubStatus \<Longrightarrow>
    dash_step d (d\<lparr>da_state := write_status s (da_state d), da_pub := PubGeneration\<rparr>)"
| pub_generation: "da_todo d = (r, s) # todo \<Longrightarrow> da_pub d = PubGeneration \<Longrightarrow>
    dash_step d (d\<lparr>da_state := bump_generation (da_state d), da_todo := todo, da_pub := PubReport\<rparr>)"
| finished: "da_todo d = [] \<Longrightarrow> dash_step d (d\<lparr>da_state := mark_finished (da_state d)\<rparr>)"
| poll_not_ready: "da_poll d = PollReport \<Longrightarrow> st_report (da_state d) = None \<Longrightarrow> dash_step d d"
| poll_report: "da_poll d = PollReport \<Longrightarrow> st_report (da_state d) = Some r \<Longrightarrow>
    dash_step d (d\<lparr>da_poll := PollGeneration r\<rparr>)"
| poll_generation: "da_poll d = PollGeneration r \<Longrightarrow>
    dash_step d (d\<lparr>da_poll := PollStatus r (st_generation (da_state d))\<rparr>)"
| poll_status: "da_poll d = PollStatus r g \<Longrightarrow>
    dash_step d (d\<lparr>da_poll := PollReport, da_latest := redraw g r (da_latest d)\<rparr>)"

lemmas app_writes = write_report_def write_status_def bump_generation_def mark_finished_def

text \<open>
  What a page shows was published, under its own generation, the next one, or a later one: the report
  is among the first \<open>g + 1\<close> snapshots when the generation is \<open>g\<close>.
\<close>

definition shown_ok :: "(report \<times> capture_status) list \<Rightarrow> dashboard \<Rightarrow> nat \<Rightarrow> report \<Rightarrow> bool" where
  "shown_ok pubs d g r \<longleftrightarrow> g \<le> st_generation (da_state d) \<and> r \<in> fst ` set (take (g + 1) pubs)"

definition dash_ok :: "(report \<times> capture_status) list \<Rightarrow> dashboard \<Rightarrow> bool" where
  "dash_ok pubs d \<longleftrightarrow>
     da_todo d = drop (st_generation (da_state d)) pubs \<and> st_generation (da_state d) \<le> length pubs \<and>
     (\<forall>r. st_report (da_state d) = Some r \<longrightarrow> shown_ok pubs d (st_generation (da_state d)) r) \<and>
     (\<forall>r. da_poll d = PollGeneration r \<longrightarrow> shown_ok pubs d (st_generation (da_state d)) r) \<and>
     (\<forall>r g. da_poll d = PollStatus r g \<longrightarrow> shown_ok pubs d g r) \<and>
     (\<forall>r g. da_latest d = Some (g, r) \<longrightarrow> shown_ok pubs d g r)"

lemma shown_ok_mono:
  "shown_ok pubs d g r \<Longrightarrow> g \<le> g' \<Longrightarrow> g' \<le> st_generation (da_state d') \<Longrightarrow> shown_ok pubs d' g' r"
  using set_take_subset_set_take [of "g + 1" "g' + 1" pubs] by (auto simp: shown_ok_def)

lemma drop_Cons_nth:
  assumes "drop g xs = x # ys"
  shows "take (Suc g) xs = take g xs @ [x]" and "drop (Suc g) xs = ys" and "g < length xs"
proof -
  show len: "g < length xs" using assms by (metis drop_all list.distinct(1) not_le)
  show "take (Suc g) xs = take g xs @ [x]" using take_hd_drop [OF len] by (simp add: assms)
  show "drop (Suc g) xs = ys" using tl_drop [of g xs] by (simp add: assms drop_Suc)
qed

lemma dash_ok_step: "dash_step d d' \<Longrightarrow> dash_ok pubs d \<Longrightarrow> dash_ok pubs d'"
proof (induction rule: dash_step.induct)
  case (pub_report d r s todo)
  then have "drop (st_generation (da_state d)) pubs = (r, s) # todo" by (simp add: dash_ok_def)
  from drop_Cons_nth(1) [OF this] have "r \<in> fst ` set (take (Suc (st_generation (da_state d))) pubs)" by force
  then show ?case using pub_report by (auto simp: dash_ok_def app_writes shown_ok_def)
next
  case (pub_generation d r s todo)
  let ?g = "st_generation (da_state d)"
  let ?d = "d\<lparr>da_state := bump_generation (da_state d), da_todo := todo, da_pub := PubReport\<rparr>"
  have drop: "drop ?g pubs = (r, s) # todo" using pub_generation by (simp add: dash_ok_def)
  have gen: "st_generation (da_state ?d) = Suc ?g" by (simp add: app_writes)
  have mono: "shown_ok pubs d g x \<Longrightarrow> shown_ok pubs ?d g x" for g x
    by (simp add: app_writes shown_ok_def)
  have later: "shown_ok pubs d ?g x \<Longrightarrow> shown_ok pubs ?d (Suc ?g) x" for x
    using shown_ok_mono [of pubs d ?g x "Suc ?g" ?d] gen by simp
  show ?case
    unfolding dash_ok_def
    using pub_generation.prems mono later drop_Cons_nth(2,3) [OF drop]
    by (simp add: dash_ok_def app_writes)
qed (auto simp: dash_ok_def app_writes shown_ok_def redraw_def split: if_splits)

lemma dash_shows_published:
  assumes "dash_step\<^sup>*\<^sup>* (da_new source pubs) d" shows "dash_ok pubs d"
  using assms
proof (induction rule: rtranclp_induct)
  case base
  then show ?case by (simp add: dash_ok_def da_new_def st_new_def)
qed (rule dash_ok_step)

text \<open>A page that has drawn an old report under the last generation.\<close>

definition left_behind :: "report \<Rightarrow> report \<Rightarrow> dashboard \<Rightarrow> bool" where
  "left_behind old new d \<longleftrightarrow>
     da_todo d = [] \<and> da_pub d = PubReport \<and> st_generation (da_state d) = 2 \<and> st_report (da_state d) = Some new \<and>
     da_latest d = Some (2, old) \<and> da_poll d \<in> {PollReport, PollGeneration new, PollStatus new 2}"

lemma left_behind_step: "dash_step d d' \<Longrightarrow> left_behind old new d \<Longrightarrow> left_behind old new d'"
  by (induction rule: dash_step.induct) (auto simp: left_behind_def app_writes redraw_def)

lemma left_behind_forever: "dash_step\<^sup>*\<^sup>* d d' \<Longrightarrow> left_behind old new d \<Longrightarrow> left_behind old new d'"
  by (induction rule: rtranclp_induct) (auto intro: left_behind_step)

text \<open>The page reads the first report, the second is published, the page reads its generation.\<close>

definition behind :: "string \<Rightarrow> report \<Rightarrow> report \<Rightarrow> capture_status \<Rightarrow> dashboard" where
  "behind source old new s =
     \<lparr>da_state = \<lparr>st_report = Some new, st_status = s, st_generation = 2, st_shutdown = False\<rparr>, da_todo = [],
      da_pub = PubReport, da_poll = PollReport, da_latest = Some (2, old)\<rparr>"

lemma behind_reachable: "dash_step\<^sup>*\<^sup>* (da_new source [(old, s1), (new, s2)]) (behind source old new s2)"
proof -
  let ?c = "\<lambda>r s g todo pub poll latest.
    \<lparr>da_state = \<lparr>st_report = r, st_status = s, st_generation = g, st_shutdown = False\<rparr>, da_todo = todo, da_pub = pub,
     da_poll = poll, da_latest = latest\<rparr>"
  let ?s0 = "capture_status_default\<lparr>cs_source := source, cs_live := True, cs_running := True\<rparr>"
  have 1: "dash_step (da_new source [(old, s1), (new, s2)])
      (?c (Some old) ?s0 0 [(old, s1), (new, s2)] PubStatus PollReport None)"
    using dash_step.pub_report [of "da_new source [(old, s1), (new, s2)]"]
    by (simp add: da_new_def st_new_def app_writes)
  have 2: "dash_step (?c (Some old) ?s0 0 [(old, s1), (new, s2)] PubStatus PollReport None)
      (?c (Some old) s1 0 [(old, s1), (new, s2)] PubGeneration PollReport None)"
    using dash_step.pub_status [of "?c (Some old) ?s0 0 [(old, s1), (new, s2)] PubStatus PollReport None"]
    by (simp add: app_writes)
  have 3: "dash_step (?c (Some old) s1 0 [(old, s1), (new, s2)] PubGeneration PollReport None)
      (?c (Some old) s1 1 [(new, s2)] PubReport PollReport None)"
    using dash_step.pub_generation [of "?c (Some old) s1 0 [(old, s1), (new, s2)] PubGeneration PollReport None"]
    by (simp add: app_writes)
  have 4: "dash_step (?c (Some old) s1 1 [(new, s2)] PubReport PollReport None)
      (?c (Some old) s1 1 [(new, s2)] PubReport (PollGeneration old) None)"
    using dash_step.poll_report [of "?c (Some old) s1 1 [(new, s2)] PubReport PollReport None"] by simp
  have 5: "dash_step (?c (Some old) s1 1 [(new, s2)] PubReport (PollGeneration old) None)
      (?c (Some new) s1 1 [(new, s2)] PubStatus (PollGeneration old) None)"
    using dash_step.pub_report [of "?c (Some old) s1 1 [(new, s2)] PubReport (PollGeneration old) None"]
    by (simp add: app_writes)
  have 6: "dash_step (?c (Some new) s1 1 [(new, s2)] PubStatus (PollGeneration old) None)
      (?c (Some new) s2 1 [(new, s2)] PubGeneration (PollGeneration old) None)"
    using dash_step.pub_status [of "?c (Some new) s1 1 [(new, s2)] PubStatus (PollGeneration old) None"]
    by (simp add: app_writes)
  have 7: "dash_step (?c (Some new) s2 1 [(new, s2)] PubGeneration (PollGeneration old) None)
      (?c (Some new) s2 2 [] PubReport (PollGeneration old) None)"
    using dash_step.pub_generation [of "?c (Some new) s2 1 [(new, s2)] PubGeneration (PollGeneration old) None"]
    by (simp add: app_writes numeral_2_eq_2)
  have 8: "dash_step (?c (Some new) s2 2 [] PubReport (PollGeneration old) None)
      (?c (Some new) s2 2 [] PubReport (PollStatus old 2) None)"
    using dash_step.poll_generation [of "?c (Some new) s2 2 [] PubReport (PollGeneration old) None"] by simp
  have 9: "dash_step (?c (Some new) s2 2 [] PubReport (PollStatus old 2) None) (behind source old new s2)"
    using dash_step.poll_status [of "?c (Some new) s2 2 [] PubReport (PollStatus old 2) None"]
    by (simp add: behind_def redraw_def)
  from 1 2 3 4 5 6 7 8 9 show ?thesis by (meson r_into_rtranclp rtranclp_trans)
qed

text \<open>
  C17. The dashboard can be left with a report that is out of date: a handler that read the report before
  the last publish and the generation after it hands the page the old report under the last
  generation, and the page, which redraws only when the generation changes, shows it for good.
\<close>

theorem dashboard_goes_stale:
  "\<exists>d. dash_step\<^sup>*\<^sup>* (da_new source [(old, s1), (new, s2)]) d \<and>
     da_todo d = [] \<and> st_report (da_state d) = Some new \<and> st_generation (da_state d) = 2 \<and>
     da_latest ` {d'. dash_step\<^sup>*\<^sup>* d d'} = {Some (2, old)}"
proof (intro exI conjI)
  have "left_behind old new (behind source old new s2)" by (simp add: left_behind_def behind_def)
  then have "da_latest d' = Some (2, old)" if "dash_step\<^sup>*\<^sup>* (behind source old new s2) d'" for d'
    using left_behind_forever [OF that] by (simp add: left_behind_def)
  then show "da_latest ` {d'. dash_step\<^sup>*\<^sup>* (behind source old new s2) d'} = {Some (2, old)}"
    by auto
qed (rule behind_reachable, simp_all add: behind_def)

end
