(* ===== verification/Cli.thy ===== *)
theory Cli
  imports Pipeline FeedCache Render Web
begin

text \<open>
  The offline commands of the program, from \<open>main.rs\<close>: the tuning of the thresholds, the indicator set of
  a run, the gate on findings, \<open>analyze\<close> from the bytes of the capture to what it prints, the files it
  writes and the exit status, \<open>serve\<close> on a file up to the state it serves, and \<open>intel update\<close> and
  \<open>intel list\<close>.  Arguments are records of the parsed options; the contents of the files the arguments
  name, the environment variable, the HTTP client, the clock and the serialiser are parameters.
\<close>

section \<open>Options\<close>

datatype fail_on = FailInfo | FailLow | FailMedium | FailHigh

fun threshold :: "fail_on \<Rightarrow> severity" where
  "threshold FailInfo = SevInfo"
| "threshold FailLow = SevLow"
| "threshold FailMedium = SevMedium"
| "threshold FailHigh = SevHigh"

definition EXIT_FINDINGS_GATE :: int where "EXIT_FINDINGS_GATE = 2"

record tuning_args =
  ta_beacon_jitter :: "rat option"
  ta_beacon_min_packets :: "nat option"
  ta_dns_subdomains :: "nat option"
  ta_scan_ports :: "nat option"

text \<open>\<open>if let Some(v) = \<dots> { \<dots> }\<close>\<close>

definition set_opt :: "('v \<Rightarrow> 'c \<Rightarrow> 'c) \<Rightarrow> 'v option \<Rightarrow> 'c \<Rightarrow> 'c" where
  "set_opt f x c = (case x of None \<Rightarrow> c | Some v \<Rightarrow> f v c)"

definition apply_tuning :: "tuning_args \<Rightarrow> nat \<Rightarrow> analysis_config" where
  "apply_tuning t rows =
     set_opt (\<lambda>v cfg. cfg\<lparr>cf_scan_port_threshold := max v 2\<rparr>) (ta_scan_ports t)
       (set_opt (\<lambda>v cfg. cfg\<lparr>cf_dns_subdomain_threshold := max v 2\<rparr>) (ta_dns_subdomains t)
         (set_opt (\<lambda>v cfg. cfg\<lparr>cf_beacon_min_packets := max v 5\<rparr>) (ta_beacon_min_packets t)
           (set_opt (\<lambda>v cfg. cfg\<lparr>cf_beacon_max_jitter := clamp 0 1 v\<rparr>) (ta_beacon_jitter t)
             (config_default\<lparr>cf_top_n := rows\<rparr>))))"

record intel_opts =
  io_auth_key :: "string option"
  io_feeds :: "string list"
  io_cache_dir :: string

text \<open>\<open>aa_ioc\<close> holds the path of the list \<open>--ioc\<close> names and its contents.\<close>

record analyze_args =
  aa_limit :: "nat option"
  aa_packets :: bool
  aa_findings_only :: bool
  aa_json :: "string option"
  aa_html :: "string option"
  aa_top :: nat
  aa_fail_on :: "fail_on option"
  aa_ioc :: "(string \<times> bytes) option"
  aa_intel :: bool
  aa_intel_live :: bool
  aa_intel_opts :: intel_opts
  aa_tuning :: tuning_args

text \<open>
  The world around the program: what the environment, the network, the cache and the clock hold, the
  text of \<open>index.html\<close>, \<open>serde_json\<close>, which serialises a report without an error, and the quoted form
  of a string, which depends on tables of Unicode.
\<close>

record world =
  wo_auth_env :: "string option"
  wo_http :: "string \<Rightarrow> string option \<Rightarrow> http_outcome"
  wo_cache :: cache_dir
  wo_now :: int
  wo_intel_build :: bool
  wo_page :: string
  wo_payload_json :: "response \<Rightarrow> string option"
  wo_pretty_json :: "report \<Rightarrow> string"
  wo_debug :: "string \<Rightarrow> string"

text \<open>An error of \<open>anyhow\<close>: a message, or a cause under the context it was given.\<close>

datatype cli_error =
    CliBail string
  | CliOpen capture_error
  | CliFeeds string intel_error

section \<open>Threat intelligence\<close>

definition feed_filter :: "string list \<Rightarrow> string list option" where
  "feed_filter feeds = (if feeds = [] then None else Some feeds)"

definition resolve_auth_key :: "world \<Rightarrow> intel_opts \<Rightarrow> string option" where
  "resolve_auth_key w opts =
     (let key = (case io_auth_key opts of None \<Rightarrow> wo_auth_env w | Some k \<Rightarrow> Some k) in
      if key = Some '''' then None else key)"

definition NO_INTEL :: string where
  "NO_INTEL = ''this build has no threat-intel support. Rebuild with `cargo build --release --features intel`.''"

definition now_text :: "world \<Rightarrow> string" where
  "now_text w = to_rfc3339 (ts_new (wo_now w) 0)"

text \<open>What goes to standard error: the outcome of each feed, and how many indicators were loaded.\<close>

definition feed_result_line :: "feed_result \<Rightarrow> string" where
  "feed_result_line r =
     ''  '' @ pad_right 9 (fst r) @
     (case snd r of
        Inl n \<Rightarrow> '' ok '' @ em_dash @ '' '' @ show_nat n @ '' indicator(s)''
      | Inr e \<Rightarrow> '' FAILED '' @ em_dash @ '' '' @ e @ '' (kept last good cache)'')"

definition loaded_line :: "ioc_set \<Rightarrow> string \<Rightarrow> string" where
  "loaded_line s source = ''Loaded '' @ show_nat (ioc_len s) @ '' indicator(s) from '' @ source"

definition cached_notes :: "ioc_set \<Rightarrow> string \<Rightarrow> string list" where
  "cached_notes s dir =
     (if ioc_is_empty s then
        [''warning: no cached threat-intel indicators in '' @ dir @ '' '' @ em_dash @ '' run `cbna intel update` first'']
      else [loaded_line s (''the feed cache ('' @ dir @ '')'')])"

definition load_feeds :: "world \<Rightarrow> bool \<Rightarrow> intel_opts \<Rightarrow> (ioc_set \<times> string list, cli_error) res" where
  "load_feeds w live opts =
     (if \<not> wo_intel_build w then Err (CliBail NO_INTEL)
      else if live then
        match_res (fetch_live (wo_http w) (now_text w) (resolve_auth_key w opts) (feed_filter (io_feeds opts)))
          (\<lambda>(s, results). Ok (s, map feed_result_line results @ [loaded_line s ''live feeds'']))
          (\<lambda>e. Err (CliFeeds ''fetching threat-intel feeds'' e))
      else
        match_res (cache_load (wo_cache w))
          (\<lambda>s. Ok (s, cached_notes s (io_cache_dir opts)))
          (\<lambda>e. Err (CliFeeds ''reading the threat-intel cache'' e)))"

definition warning_line :: "world \<Rightarrow> ioc_warning \<Rightarrow> string" where
  "warning_line w x =
     ''warning: indicator list line '' @ show_nat (iw_line x) @ '': skipped '' @ wo_debug w (iw_text x) @
     '' ('' @ iw_reason x @ '')''"

definition listed_iocs :: "world \<Rightarrow> (string \<times> bytes) option \<Rightarrow> (ioc_set \<times> string list, cli_error) res" where
  "listed_iocs w x =
     (case x of
        None \<Rightarrow> Ok (ioc_default, [])
      | Some (path, input) \<Rightarrow>
          and_then (parse_iocs input) (\<lambda>(l, warnings).
          Ok (ioc_extend ioc_default l, map (warning_line w) warnings @ [loaded_line l path])))"

definition build_ioc_set :: "world \<Rightarrow> analyze_args \<Rightarrow> (ioc_set \<times> string list, cli_error) res" where
  "build_ioc_set w args =
     and_then (listed_iocs w (aa_ioc args)) (\<lambda>(s, notes).
     if aa_intel args \<or> aa_intel_live args then
       and_then (load_feeds w (aa_intel_live args) (aa_intel_opts args)) (\<lambda>(feeds, feed_notes).
       Ok (ioc_extend s feeds, notes @ feed_notes))
     else Ok (s, notes))"

section \<open>Analyze\<close>

definition findings_gate :: "report \<Rightarrow> severity \<Rightarrow> int" where
  "findings_gate r sev =
     (if list_ex (\<lambda>f. sev \<le> fg_severity f) (re_findings r) then EXIT_FINDINGS_GATE else 0)"

text \<open>What goes to standard output after the packet lines: JSON, the findings alone, or the whole report.\<close>

definition brief_lines :: "style \<Rightarrow> finding \<Rightarrow> string list" where
  "brief_lines st f =
     (let attack = (if fg_technique f = [] then '''' else ''  (ATT&CK '' @ join '', '' (fg_technique f) @ '')'') in
      (severity_tag st f @ '' '' @ fg_title f @ attack) #
      map (\<lambda>e. ''    '' @ middot @ '' '' @ e) (fg_evidence f))"

text \<open>A step whose Rust type has no error: its model has a panic only.\<close>

definition unfailing :: "('a, 'e) res \<Rightarrow> ('a, 'f) res" where
  "unfailing m = (case m of Ok x \<Rightarrow> Ok x | _ \<Rightarrow> Panic)"

definition report_text :: "world \<Rightarrow> style \<Rightarrow> analyze_args \<Rightarrow> report \<Rightarrow> (string list, cli_error) res" where
  "report_text w st args r =
     (if aa_json args = Some ''-'' then Ok [wo_pretty_json w r]
      else if aa_findings_only args then Ok (concat (map (brief_lines st) (re_findings r)))
      else unfailing (render_report st (aa_top args) r))"

text \<open>The files that are written before, with their contents.\<close>

definition files_of :: "world \<Rightarrow> analyze_args \<Rightarrow> report \<Rightarrow> (string \<times> string) list" where
  "files_of w args r =
     (case aa_html args of None \<Rightarrow> [] | Some target \<Rightarrow> [(target, render_static (wo_payload_json w) (wo_page w) r)]) @
     (case aa_json args of
        None \<Rightarrow> []
      | Some target \<Rightarrow> if target = ''-'' then [] else [(target, wo_pretty_json w r)])"

definition file_notes :: "analyze_args \<Rightarrow> string list" where
  "file_notes args =
     (case aa_html args of None \<Rightarrow> [] | Some target \<Rightarrow> [''Dashboard written to '' @ target]) @
     (case aa_json args of
        None \<Rightarrow> []
      | Some target \<Rightarrow> if target = ''-'' then [] else [''Report written to '' @ target])"

text \<open>Standard output, the warnings and then the notes on standard error, the files and the status.\<close>

record analyze_out =
  ao_lines :: "string list"
  ao_warnings :: "string list"
  ao_notes :: "string list"
  ao_report :: report
  ao_files :: "(string \<times> string) list"
  ao_exit :: int

definition read_warnings :: "run_stats \<Rightarrow> analyzer \<Rightarrow> string \<Rightarrow> string list" where
  "read_warnings st a path =
     map (\<lambda>e. ''warning: '' @ e) (rn_read_errors st) @
     (if an_is_empty a then [''warning: no packets were decoded from '' @ path] else [])"

definition with_iocs :: "world \<Rightarrow> analyze_args \<Rightarrow> analyzer \<Rightarrow> (analyzer \<times> string list, cli_error) res" where
  "with_iocs w args a =
     (if aa_ioc args \<noteq> None \<or> aa_intel args \<or> aa_intel_live args then
        and_then (build_ioc_set w args) (\<lambda>(s, notes). Ok (set_iocs s a, notes))
      else Ok (a, []))"

definition run_file ::
  "(bytes \<Rightarrow> bytes) \<Rightarrow> string \<Rightarrow> bytes \<Rightarrow> analysis_config \<Rightarrow> nat option \<Rightarrow>
     (analyzer \<times> run_stats \<times> decoded_packet list \<times> string, cli_error) res" where
  "run_file md5 path input config limit =
     match_res (file_open path input)
       (\<lambda>fs. and_then (unfailing (run md5 fs config limit)) (\<lambda>(a, st, seen). Ok (a, st, seen, fs_description fs)))
       (\<lambda>e. Err (CliOpen e))"

definition cmd_analyze ::
  "(bytes \<Rightarrow> bytes) \<Rightarrow> string \<Rightarrow> world \<Rightarrow> style \<Rightarrow> analyze_args \<Rightarrow> string \<Rightarrow> bytes \<Rightarrow> (analyze_out, cli_error) res" where
  "cmd_analyze md5 version w sy args path input =
     and_then (run_file md5 path input (apply_tuning (aa_tuning args) (aa_top args)) (aa_limit args))
       (\<lambda>(a, st, seen, source).
     and_then (with_iocs w args a) (\<lambda>(a', notes).
     and_then (unfailing (build version (wo_now w) a' source)) (\<lambda>r.
     and_then (report_text w sy args r) (\<lambda>printed.
     Ok \<lparr>ao_lines = (if aa_packets args then map pk_summary seen else []) @ printed,
         ao_warnings = read_warnings st a path, ao_notes = notes @ file_notes args,
         ao_report = r, ao_files = files_of w args r,
         ao_exit = (case aa_fail_on args of None \<Rightarrow> 0 | Some f \<Rightarrow> findings_gate r (threshold f))\<rparr>))))"

text \<open>The status of the process: an error returned from \<open>main\<close> is status 1.\<close>

definition exit_status :: "(analyze_out, cli_error) res \<Rightarrow> int" where
  "exit_status m = (case m of Ok out \<Rightarrow> ao_exit out | _ \<Rightarrow> 1)"

section \<open>The other offline commands\<close>

datatype serve_mode = ServeFile string | ServeLive string

record serve_args =
  sa_file :: "string option"
  sa_iface :: "string option"
  sa_write :: "string option"
  sa_top :: nat
  sa_tuning :: tuning_args

definition serve_source :: "serve_args \<Rightarrow> (serve_mode, cli_error) res" where
  "serve_source args =
     (case (sa_file args, sa_iface args) of
        (Some _, Some _) \<Rightarrow> Err (CliBail ''pass either a capture file or --iface, not both'')
      | (None, None) \<Rightarrow> Err (CliBail ''pass a capture file, or --iface NAME for live capture'')
      | (Some f, None) \<Rightarrow>
          if sa_write args \<noteq> None then
            Err (CliBail ''--write only applies to live capture; the source is already a file'')
          else Ok (ServeFile f)
      | (None, Some i) \<Rightarrow> Ok (ServeLive i))"

definition serve_file ::
  "(bytes \<Rightarrow> bytes) \<Rightarrow> string \<Rightarrow> world \<Rightarrow> serve_args \<Rightarrow> string \<Rightarrow> bytes \<Rightarrow> (string list \<times> app_state, cli_error) res" where
  "serve_file md5 version w args path input =
     and_then (run_file md5 path input (apply_tuning (sa_tuning args) (sa_top args)) None) (\<lambda>(a, st, seen, source).
     and_then (unfailing (build version (wo_now w) a source)) (\<lambda>r.
     Ok (map (\<lambda>e. ''warning: '' @ e) (rn_read_errors st),
         publish r \<lparr>cs_source = source, cs_live = False, cs_running = False, cs_packets = rn_packets st,
           cs_dropped = 0, cs_elapsed_secs = an_duration a, cs_last_update = now_text w\<rparr> (st_new source False))))"

text \<open>\<open>serve\<close> in a build without live capture; \<open>files\<close> holds the contents of a path.\<close>

definition live_unavailable :: cli_error where
  "live_unavailable = CliBail (explain CeLiveUnavailable)"

definition cmd_serve ::
  "(bytes \<Rightarrow> bytes) \<Rightarrow> string \<Rightarrow> world \<Rightarrow> serve_args \<Rightarrow> (string \<Rightarrow> bytes) \<Rightarrow> (string list \<times> app_state, cli_error) res" where
  "cmd_serve md5 version w args files =
     and_then (serve_source args) (\<lambda>mode.
     case mode of
       ServeFile path \<Rightarrow> serve_file md5 version w args path (files path)
     | ServeLive iface \<Rightarrow> Err live_unavailable)"

definition intel_update ::
  "world \<Rightarrow> intel_opts \<Rightarrow> (string list \<times> feed_result list \<times> cache_dir, cli_error) res" where
  "intel_update w opts =
     match_res
       (cache_update (wo_http w) (now_text w) (resolve_auth_key w opts) (feed_filter (io_feeds opts)) (wo_cache w))
       (\<lambda>(results, dir).
         if results \<noteq> [] \<and> list_all (\<lambda>r. \<not> isl (snd r)) results
         then Err (CliBail ''all requested feeds failed to update'')
         else Ok ((''Updating feed cache in '' @ io_cache_dir opts) # map feed_result_line results, results, dir))
       (\<lambda>e. Err (CliFeeds ''updating the threat-intel cache'' e))"

definition feed_status :: "cached_feed list \<Rightarrow> feed \<Rightarrow> string" where
  "feed_status m fd =
     (case find (\<lambda>c. ca_id c = fd_id fd) m of
        Some c \<Rightarrow> show_nat (ca_indicators c) @ '' indicators, fetched '' @ ca_fetched_at c
      | None \<Rightarrow> ''not cached'')"

definition intel_list :: "world \<Rightarrow> intel_opts \<Rightarrow> string list" where
  "intel_list w opts = (''Feed cache: '' @ io_cache_dir opts) # concat (map (\<lambda>fd.
     [''  '' @ pad_right 9 (fd_id fd) @ '' '' @ fd_name fd @
        (if fd_needs_auth fd then '' [needs Auth-Key]'' else ''''),
      ''            '' @ feed_status (read_manifest (wo_cache w)) fd]) BUILTIN)"


section \<open>Indicator sets of a run\<close>

text \<open>Whether the feeds a run asks for can be had: the build supports them, and every id named for a fetch is known.\<close>

definition iocs_requested :: "analyze_args \<Rightarrow> bool" where
  "iocs_requested args \<longleftrightarrow> aa_ioc args \<noteq> None \<or> aa_intel args \<or> aa_intel_live args"

definition feeds_available :: "world \<Rightarrow> analyze_args \<Rightarrow> bool" where
  "feeds_available w args \<longleftrightarrow>
     \<not> (aa_intel args \<or> aa_intel_live args) \<or>
     (wo_intel_build w \<and>
       (aa_intel_live args \<longrightarrow> list_all (\<lambda>i. by_id i \<noteq> None) (io_feeds (aa_intel_opts args))))"

lemma resolve_ids_known: "(\<exists>fds. resolve_ids ids = Ok fds) \<longleftrightarrow> list_all (\<lambda>i. by_id i \<noteq> None) ids"
  "resolve_ids ids \<noteq> Panic"
proof -
  have *: "case resolve_ids ids of Ok fds \<Rightarrow> list_all (\<lambda>i. by_id i \<noteq> None) ids
      | Err e \<Rightarrow> \<not> list_all (\<lambda>i. by_id i \<noteq> None) ids | Panic \<Rightarrow> False"
  proof (induction ids)
    case (Cons i ids)
    then show ?case by (cases "resolve_ids ids") (auto split: option.splits)
  qed simp
  from * show "(\<exists>fds. resolve_ids ids = Ok fds) \<longleftrightarrow> list_all (\<lambda>i. by_id i \<noteq> None) ids"
    and "resolve_ids ids \<noteq> Panic" by (cases "resolve_ids ids"; simp)+
qed

lemma selected_filter:
  "case selected (feed_filter ids) of Ok fds \<Rightarrow> list_all (\<lambda>i. by_id i \<noteq> None) ids
     | Err e \<Rightarrow> \<not> list_all (\<lambda>i. by_id i \<noteq> None) ids | Panic \<Rightarrow> False"
  using resolve_ids_known [of ids]
  by (cases "resolve_ids ids") (auto simp: selected_def feed_filter_def)

definition settled :: "('a \<Rightarrow> bool) \<Rightarrow> bool \<Rightarrow> ('a, 'e) res \<Rightarrow> bool" where
  "settled P c m \<longleftrightarrow> (case m of Ok x \<Rightarrow> c \<and> P x | Err e \<Rightarrow> \<not> c | Panic \<Rightarrow> False)"

lemma settled_simps [simp]:
  "settled P c (Ok x) \<longleftrightarrow> c \<and> P x" "settled P c (Err e) \<longleftrightarrow> \<not> c" "\<not> settled P c Panic"
  by (simp_all add: settled_def)

lemma settled_and_then:
  assumes "settled P c m" and "\<And>x. P x \<Longrightarrow> settled Q d (k x)"
  shows "settled Q (c \<and> d) (and_then m k)"
  using assms by (cases m) (auto simp: settled_def split: res.splits)

lemma settled_returns: "returns P m \<Longrightarrow> settled P True m"
  by (cases m) simp_all

lemma settled_fetch_live:
  "settled (\<lambda>(s, r). ioc_ok s) (list_all (\<lambda>i. by_id i \<noteq> None) ids)
     (fetch_live http now key (feed_filter ids))"
  unfolding fetch_live_def
proof (rule settled_and_then [where d = True, simplified])
  show "settled (\<lambda>_. True) (list_all (\<lambda>i. by_id i \<noteq> None) ids) (selected (feed_filter ids))"
    using selected_filter [of ids] by (auto simp: settled_def split: res.splits)
  show "settled (\<lambda>(s, r). ioc_ok s) True (live_loop http now key fds ioc_default)" for fds
    by (rule settled_returns [OF live_loop_ok [OF ioc_ok_default]])
qed

lemma settled_load_feeds:
  "settled (\<lambda>(s, notes). ioc_ok s) (wo_intel_build w \<and> (live \<longrightarrow> list_all (\<lambda>i. by_id i \<noteq> None) (io_feeds opts)))
     (load_feeds w live opts)"
proof -
  have "settled (\<lambda>(s, notes). ioc_ok s) (list_all (\<lambda>i. by_id i \<noteq> None) (io_feeds opts))
      (match_res (fetch_live (wo_http w) (now_text w) (resolve_auth_key w opts) (feed_filter (io_feeds opts)))
        (\<lambda>(s, results). Ok (s, map feed_result_line results @ [loaded_line s ''live feeds''])) (\<lambda>e. Err (CliFeeds ''fetching threat-intel feeds'' e)))"
    using settled_fetch_live [of "io_feeds opts" "wo_http w" "now_text w" "resolve_auth_key w opts"]
    by (cases "fetch_live (wo_http w) (now_text w) (resolve_auth_key w opts) (feed_filter (io_feeds opts))") auto
  moreover have "settled (\<lambda>(s, notes). ioc_ok s) True (match_res (cache_load (wo_cache w))
      (\<lambda>s. Ok (s, cached_notes s (io_cache_dir opts))) (\<lambda>e. Err (CliFeeds ''reading the threat-intel cache'' e)))"
    using cache_load_ok [of "wo_cache w"] by (cases "cache_load (wo_cache w)") auto
  ultimately show ?thesis by (auto simp: load_feeds_def)
qed

lemma settled_listed_iocs: "settled (\<lambda>(s, notes). ioc_ok s) True (listed_iocs w x)"
proof (cases x)
  case (Some entry)
  obtain path input where entry: "entry = (path, input)" by (cases entry)
  have "returns (list_result (split_on NL input) ioc_default) (parse_iocs input :: (_, cli_error) res)"
    unfolding parse_iocs_def by (rule iocs_loop_result) simp_all
  then show ?thesis
    by (cases "parse_iocs input :: (_, cli_error) res") (auto simp: listed_iocs_def Some entry list_result_def intro!: ioc_ok_extend ioc_ok_default)
qed (simp add: listed_iocs_def ioc_ok_default)

lemma settled_build_ioc_set: "settled (\<lambda>(s, notes). ioc_ok s) (feeds_available w args) (build_ioc_set w args)"
  unfolding build_ioc_set_def
proof (rule settled_and_then [where c = True, simplified, OF settled_listed_iocs], unfold split_paired_all case_prod_conv)
  fix s ns assume s: "ioc_ok s"
  have "settled (\<lambda>(s, notes). ioc_ok s) ((wo_intel_build w \<and> (aa_intel_live args \<longrightarrow>
      list_all (\<lambda>i. by_id i \<noteq> None) (io_feeds (aa_intel_opts args)))) \<and> True)
    (and_then (load_feeds w (aa_intel_live args) (aa_intel_opts args)) (\<lambda>(feeds, feed_notes).
       Ok (ioc_extend s feeds, ns @ feed_notes)))"
    by (rule settled_and_then [OF settled_load_feeds]) (auto simp: s ioc_ok_extend)
  then show "settled (\<lambda>(s, notes). ioc_ok s) (feeds_available w args)
     (if aa_intel args \<or> aa_intel_live args then
        and_then (load_feeds w (aa_intel_live args) (aa_intel_opts args)) (\<lambda>(feeds, feed_notes).
          Ok (ioc_extend s feeds, ns @ feed_notes))
      else Ok (s, ns))"
    using s by (cases "aa_intel args \<or> aa_intel_live args") (auto simp only: feeds_available_def settled_simps if_True if_False simp_thms case_prod_conv)
qed


section \<open>What the commands do\<close>

lemma with_iocs_settled:
  assumes "analyzer_ok a" and "conserved ps a" and "an_ioc a = None"
  shows "settled (\<lambda>(a', notes). analyzer_ok a' \<and> conserved ps a' \<and> pred_option ioc_ok (an_ioc a') \<and>
      an_config a' = an_config a \<and> (an_ioc a' = None \<or> iocs_requested args))
    (feeds_available w args) (with_iocs w args a)"
proof (cases "iocs_requested args")
  case True
  have "settled (\<lambda>(a', notes). analyzer_ok a' \<and> conserved ps a' \<and> pred_option ioc_ok (an_ioc a') \<and>
      an_config a' = an_config a \<and> (an_ioc a' = None \<or> iocs_requested args))
    (feeds_available w args \<and> True) (and_then (build_ioc_set w args) (\<lambda>(s, notes). Ok (set_iocs s a, notes)))"
    by (rule settled_and_then [OF settled_build_ioc_set])
      (use assms True in \<open>clarsimp, simp add: set_iocs_def\<close>)
  then show ?thesis using True by (simp add: with_iocs_def iocs_requested_def)
next
  case False
  then show ?thesis
    using assms by (simp add: with_iocs_def iocs_requested_def feeds_available_def)
qed

definition analyze_ok ::
  "(bytes \<Rightarrow> bytes) \<Rightarrow> world \<Rightarrow> style \<Rightarrow> analyze_args \<Rightarrow> string \<Rightarrow> bytes \<Rightarrow> analyze_out \<Rightarrow> bool" where
  "analyze_ok md5 w sy args path input out \<longleftrightarrow>
     (\<exists>fs raws errs seen printed. file_open path input = Ok fs \<and>
       consumed (aa_limit args) 0 0 (read_all fs) = (raws, errs) \<and>
       list_all2 (\<lambda>raw pkt. decode md5 (rp_meta raw) (Slice 0 (rp_data raw)) (fs_link_type fs) = Ok pkt) raws seen \<and>
       report_text w sy args (ao_report out) = Ok printed \<and>
       ao_lines out = (if aa_packets args then map pk_summary seen else []) @ printed \<and>
       ao_files out = files_of w args (ao_report out) \<and>
       ao_warnings out = map (\<lambda>e. ''warning: '' @ show_capture_error e) errs @
         (if seen = [] then [''warning: no packets were decoded from '' @ path] else []) \<and>
       summary_ok seen (re_summary (ao_report out)) \<and> findings_ok (re_findings (ao_report out)) \<and>
       (re_ioc (ao_report out) = None \<or> iocs_requested args))"

lemma report_text_returns: obtains printed where "report_text w sy args r = Ok printed"
proof -
  obtain ls where "render_report sy (aa_top args) r = Ok ls"
    using render_report_returns [of sy "aa_top args" r] by (cases "render_report sy (aa_top args) r") auto
  then have "\<exists>printed. report_text w sy args r = Ok printed"
    by (simp add: report_text_def unfailing_def)
  then show thesis using that by blast
qed

lemma run_file_settled:
  "settled (\<lambda>(a, st, seen, source). \<exists>fs. file_open path input = Ok fs \<and> run_ok md5 fs limit (a, st, seen))
     (\<exists>fs. file_open path input = Ok fs) (run_file md5 path input cfg limit)"
proof (cases "file_open path input")
  case (Ok fs)
  have "source_ok fs"
    using from_reader_ok [of input path] by (simp add: Ok [unfolded file_open_def])
  then show ?thesis
    using run_returns [of fs md5 limit cfg] Ok
    by (cases "run md5 fs cfg limit") (auto simp: run_file_def unfailing_def)
next
  case Panic
  then show ?thesis using from_reader_ok [of input path] by (simp add: file_open_def)
qed (simp add: run_file_def)

lemma cmd_analyze_settled:
  "settled (analyze_ok md5 w sy args path input)
     ((\<exists>fs. file_open path input = Ok fs) \<and> feeds_available w args)
     (cmd_analyze md5 version w sy args path input)"
  unfolding cmd_analyze_def
proof (rule settled_and_then [OF run_file_settled], unfold split_paired_all case_prod_conv, elim exE conjE)
  fix a st seen source fs
  assume fs: "file_open path input = Ok fs" and ok: "run_ok md5 fs (aa_limit args) (a, st, seen)"
  obtain raws errs where c: "consumed (aa_limit args) 0 0 (read_all fs) = (raws, errs)" by force
  from ok have a: "analyzer_ok a" "conserved seen a" "an_ioc a = None" "list_all packet_wf seen"
    "list_all2 (\<lambda>raw pkt. decode md5 (rp_meta raw) (Slice 0 (rp_data raw)) (fs_link_type fs) = Ok pkt) raws seen"
    "rn_read_errors st = map show_capture_error errs"
    by (auto simp: run_ok_def c)
  have warnings: "read_warnings st a path = map (\<lambda>e. ''warning: '' @ show_capture_error e) errs @
      (if seen = [] then [''warning: no packets were decoded from '' @ path] else [])"
    using a(2) by (simp add: read_warnings_def a(6) an_is_empty_def conserved_def counted_ok_def comp_def)
  let ?P = "\<lambda>(a', notes :: string list). analyzer_ok a' \<and> conserved seen a' \<and> pred_option ioc_ok (an_ioc a') \<and>
      an_config a' = an_config a \<and> (an_ioc a' = None \<or> iocs_requested args)"
  let ?k = "\<lambda>(a', notes). and_then (unfailing (build version (wo_now w) a' source)) (\<lambda>r.
     and_then (report_text w sy args r) (\<lambda>printed.
     Ok \<lparr>ao_lines = (if aa_packets args then map pk_summary seen else []) @ printed,
         ao_warnings = read_warnings st a path, ao_notes = notes @ file_notes args,
         ao_report = r, ao_files = files_of w args r,
         ao_exit = (case aa_fail_on args of None \<Rightarrow> 0 | Some f \<Rightarrow> findings_gate r (threshold f))\<rparr>))"
  have "settled (analyze_ok md5 w sy args path input) (feeds_available w args \<and> True)
      (and_then (with_iocs w args a) ?k)"
  proof (rule settled_and_then [OF with_iocs_settled [OF a(1-3), of args w]], unfold split_paired_all case_prod_conv)
    fix a' ns assume a': "analyzer_ok a' \<and> conserved seen a' \<and> pred_option ioc_ok (an_ioc a') \<and>
      an_config a' = an_config a \<and> (an_ioc a' = None \<or> iocs_requested args)"
    then have "returns (report_ok seen a') (build version (wo_now w) a' source)"
      using a(4) by (intro build_ok) simp_all
    then obtain r where r: "build version (wo_now w) a' source = Ok r" "report_ok seen a' r"
      by (cases "build version (wo_now w) a' source") auto
    have "re_ioc r = None \<or> iocs_requested args"
      using r(2) a' by (auto simp: report_ok_def Let_def)
    moreover have "summary_ok seen (re_summary r)" "findings_ok (re_findings r)"
      using r(2) by (simp_all add: report_ok_def Let_def)
    moreover obtain printed where "report_text w sy args r = Ok printed" by (rule report_text_returns)
    ultimately have "settled (analyze_ok md5 w sy args path input) True (?k (a', ns))"
      using fs c a(5) warnings by (auto simp: r(1) unfailing_def analyze_ok_def)
    then show "settled (analyze_ok md5 w sy args path input) True
      (and_then (unfailing (build version (wo_now w) a' source)) (\<lambda>r.
       and_then (report_text w sy args r) (\<lambda>printed.
       Ok \<lparr>ao_lines = (if aa_packets args then map pk_summary seen else []) @ printed,
         ao_warnings = read_warnings st a path, ao_notes = ns @ file_notes args,
         ao_report = r, ao_files = files_of w args r,
         ao_exit = (case aa_fail_on args of None \<Rightarrow> 0 | Some f \<Rightarrow> findings_gate r (threshold f))\<rparr>)))"
      by (simp only: case_prod_conv)
  qed
  then show "settled (analyze_ok md5 w sy args path input) (feeds_available w args) (and_then (with_iocs w args a) ?k)"
    by simp
qed

text \<open>
  C1. \<open>analyze\<close> on any bytes, arguments, cache and network never panics.  What it reports when it returns
  is about exactly the packets of the file, decoded in order, up to the limit or the eighth read error:
  a line for each if asked for and then the report in the form asked for, the files it names, a warning
  for each read error and one when there was no packet, a summary that counts them, findings in order,
  and an indicator section only when indicators were asked for.
\<close>

theorem analyze_reports_capture:
  "safe (analyze_ok md5 w sy args path input) (cmd_analyze md5 version w sy args path input)"
  using cmd_analyze_settled [of md5 w sy args path input version]
  by (cases "cmd_analyze md5 version w sy args path input") auto


text \<open>
  Whatever thresholds the user gives, the configuration keeps them in range: the jitter in [0, 1], at
  least five packets for a beacon, at least two subdomains and two ports; a threshold not given, and
  every other setting, is the default.
\<close>

lemma tuning_in_range:
  "let c = apply_tuning t n in
   0 \<le> cf_beacon_max_jitter c \<and> cf_beacon_max_jitter c \<le> 1 \<and> 5 \<le> cf_beacon_min_packets c \<and>
   2 \<le> cf_dns_subdomain_threshold c \<and> 2 \<le> cf_scan_port_threshold c \<and>
   c = config_default\<lparr>cf_top_n := n, cf_beacon_max_jitter := cf_beacon_max_jitter c,
     cf_beacon_min_packets := cf_beacon_min_packets c,
     cf_dns_subdomain_threshold := cf_dns_subdomain_threshold c,
     cf_scan_port_threshold := cf_scan_port_threshold c\<rparr> \<and>
   apply_tuning \<lparr>ta_beacon_jitter = None, ta_beacon_min_packets = None, ta_dns_subdomains = None,
     ta_scan_ports = None\<rparr> n = config_default\<lparr>cf_top_n := n\<rparr>"
  by (simp add: Let_def apply_tuning_def set_opt_def config_default_def clamp_def split: option.splits)

text \<open>
  A served file is ready from the first request: the report is there under generation 1, with the
  counts of its status.
\<close>

definition serving :: "app_state \<Rightarrow> bool" where
  "serving st \<longleftrightarrow> (\<exists>r. st_report st = Some r \<and> api_report st = RsReport 1 (st_status st) r \<and>
     cs_packets (st_status st) = su_packets (re_summary r) \<and> cs_elapsed_secs (st_status st) = su_duration_secs (re_summary r) \<and>
     \<not> cs_running (st_status st) \<and> findings_ok (re_findings r))"

lemma serve_file_ready:
  "settled (\<lambda>(warnings, st). serving st) (\<exists>fs. file_open path input = Ok fs)
     (serve_file md5 version w args path input)"
proof -
  have "settled (\<lambda>(warnings, st). serving st) ((\<exists>fs. file_open path input = Ok fs) \<and> True)
    (serve_file md5 version w args path input)"
    unfolding serve_file_def
  proof (rule settled_and_then [OF run_file_settled], unfold split_paired_all case_prod_conv, elim exE conjE)
    fix a st seen source fs
    assume fs: "file_open path input = Ok fs" and ok: "run_ok md5 fs None (a, st, seen)"
    obtain raws errs where c: "consumed None 0 0 (read_all fs) = (raws, errs)" by force
    from ok have a: "analyzer_ok a" "conserved seen a" "an_ioc a = None" "list_all packet_wf seen"
      "rn_packets st = length seen"
      by (auto simp: run_ok_def c dest: list_all2_lengthD)
    then have "returns (report_ok seen a) (build version (wo_now w) a source)"
      by (intro build_ok) simp_all
    then obtain r where r: "build version (wo_now w) a source = Ok r" "report_ok seen a r"
      by (cases "build version (wo_now w) a source") auto
    then have "su_packets (re_summary r) = rn_packets st" "su_duration_secs (re_summary r) = an_duration a"
      "findings_ok (re_findings r)"
      using a(5) by (auto simp: report_ok_def Let_def summary_ok_def build_def summary_of_def)
    then show "settled (\<lambda>(warnings, st). serving st) True
      (and_then (unfailing (build version (wo_now w) a source)) (\<lambda>r.
        Ok (map (\<lambda>e. ''warning: '' @ e) (rn_read_errors st),
          publish r \<lparr>cs_source = source, cs_live = False, cs_running = False, cs_packets = rn_packets st,
            cs_dropped = 0, cs_elapsed_secs = an_duration a, cs_last_update = now_text w\<rparr> (st_new source False))))"
      by (simp add: r(1) unfailing_def serving_def api_report_def publish_def app_writes st_new_def)
  qed
  then show ?thesis by simp
qed

end
