(* ===== verification/Source.thy ===== *)
theory Source
  imports CaptureFile
begin

text \<open>
  The trait \<open>Source\<close> of \<open>cbna-capture\<close> as an interface: what everything downstream relies on, whether the
  packets come from a file or from an interface.  A source hands over packets that record the length of
  their data and carry their number in the order they came; the file reader provides it here, the live
  source in its own theory.
\<close>

text \<open>The packets of the first \<open>n\<close> pulls.\<close>

fun drawn :: "('s \<Rightarrow> (raw_packet option, 'e) res \<times> 's) \<Rightarrow> nat \<Rightarrow> 's \<Rightarrow> raw_packet list" where
  "drawn pull 0 s = []"
| "drawn pull (Suc n) s =
     (case pull s of
        (Ok (Some raw), s') \<Rightarrow> raw # drawn pull n s'
      | (_, s') \<Rightarrow> drawn pull n s')"

definition number_of :: "raw_packet \<Rightarrow> nat" where
  "number_of raw = pm_index (rp_meta raw)"

definition sized :: "raw_packet \<Rightarrow> bool" where
  "sized raw \<longleftrightarrow> pm_captured_len (rp_meta raw) = word_of_nat (length (rp_data raw))"

locale packet_source =
  fixes pull :: "'s \<Rightarrow> (raw_packet option, 'e) res \<times> 's"
    and counter :: "'s \<Rightarrow> nat"
    and valid :: "'s \<Rightarrow> bool"
  assumes pull_valid: "valid s \<Longrightarrow> valid (snd (pull s))"
    and pull_no_panic: "valid s \<Longrightarrow> fst (pull s) \<noteq> Panic"
    and pull_counts: "counter s \<le> counter (snd (pull s))"
    and pull_numbers: "fst (pull s) = Ok (Some raw) \<Longrightarrow>
      number_of raw = counter (snd (pull s)) \<and> counter s < counter (snd (pull s))"
    and pull_sized: "valid s \<Longrightarrow> fst (pull s) = Ok (Some raw) \<Longrightarrow> sized raw"
begin

lemma drawn_ok:
  "valid s \<Longrightarrow> list_all sized (drawn pull n s) \<and> sorted_wrt (<) (counter s # map number_of (drawn pull n s))"
proof (induction n arbitrary: s)
  case (Suc n)
  obtain r s' where p: "pull s = (r, s')" by force
  have s': "valid s'" "counter s \<le> counter s'" using pull_valid [OF Suc.prems] pull_counts [of s] by (simp_all add: p)
  note rest = Suc.IH [OF s'(1)]
  show ?case
  proof (cases r)
    case (Ok x)
    show ?thesis
    proof (cases x)
      case None
      then show ?thesis using rest s'(2) by (auto simp: p Ok)
    next
      case (Some raw)
      then have "number_of raw = counter s'" "counter s < counter s'" "sized raw"
        using pull_numbers [of s raw] pull_sized [OF Suc.prems, of raw] by (simp_all add: p Ok)
      then show ?thesis using rest by (auto simp: p Ok Some)
    qed
  qed (use rest s'(2) in \<open>auto simp: p\<close>)
qed simp

lemma drawn_distinct: "valid s \<Longrightarrow> distinct (map number_of (drawn pull n s))"
  using drawn_ok [of s n] by (simp add: strict_sorted_iff)

end

section \<open>The file reader numbers its packets\<close>

definition numbered :: "nat \<Rightarrow> outcome \<Rightarrow> bool" where
  "numbered i = (\<lambda>(r, fs). i \<le> fs_index fs \<and> (case r of Ok (Some raw) \<Rightarrow> number_of raw = fs_index fs \<and> i < fs_index fs | _ \<Rightarrow> True))"

lemma numbered_simps:
  "numbered i (Ok None, fs) \<longleftrightarrow> i \<le> fs_index fs" "numbered i (Err e, fs) \<longleftrightarrow> i \<le> fs_index fs"
  "numbered i (Panic, fs) \<longleftrightarrow> i \<le> fs_index fs"
  by (simp_all add: numbered_def)

lemma read_exact_index: "read_exact n fs = (x, fs') \<Longrightarrow> fs_index fs' = fs_index fs"
  by (auto simp: read_exact_def split: if_splits)

lemma skip_loop_index: "skip_loop n fs = (ok, fs') \<Longrightarrow> fs_index fs' = fs_index fs"
proof (induction n fs rule: skip_loop.induct)
  case (1 n fs)
  then show ?case
    by (subst (asm) (2) skip_loop.simps)
      (fastforce simp: Let_def read_exact_def split: prod.splits option.splits if_splits)
qed

lemma next_pcap_numbered: "numbered (fs_index fs) (next_pcap fs)"
  by (auto simp: next_pcap_def numbered_def number_of_def raw_packet_new_def Let_def dest!: read_exact_index
      split: prod.splits option.splits res.splits if_splits)

lemma epb_packet_index: "epb_packet fs body = Ok p \<Longrightarrow> number_of p = fs_index fs"
  by (auto simp: epb_packet_def number_of_def raw_packet_new_def Let_def split: if_splits)

lemma block_body_numbered:
  "case block_body t body fs of Inl out \<Rightarrow> numbered (fs_index fs) out | Inr fs' \<Rightarrow> fs_index fs' = fs_index fs"
proof -
  consider "t = PCAPNG_BLOCK_SHB" | "t = BLOCK_IDB" | "t = BLOCK_EPB" | "t = BLOCK_SPB"
    | "t \<noteq> PCAPNG_BLOCK_SHB" "t \<noteq> BLOCK_IDB" "t \<noteq> BLOCK_EPB" "t \<noteq> BLOCK_SPB" by blast
  then show ?thesis
  proof cases
    case 1
    then show ?thesis by (auto simp: block_body_def numbered_def split: res.splits)
  next
    case 2
    then show ?thesis
      by (cases "parse_idb (fs_big_endian fs) body") (auto simp: block_body_def file_consts numbered_def Let_def)
  next
    case 3
    let ?fs = "fs\<lparr>fs_index := Suc (fs_index fs)\<rparr>"
    show ?thesis
      using 3 epb_packet_index [of ?fs body]
      by (cases "epb_packet ?fs body") (auto simp: block_body_def file_consts parse_epb_def finish_def numbered_def)
  next
    case 4
    then show ?thesis
      by (auto simp: block_body_def file_consts numbered_def number_of_def raw_packet_new_def Let_def split: res.splits)
  next
    case 5
    then show ?thesis by (simp add: block_body_def)
  qed
qed

lemma ng_block_numbered:
  "case ng_block fs of Inl out \<Rightarrow> numbered (fs_index fs) out | Inr fs' \<Rightarrow> fs_index fs' = fs_index fs"
proof -
  have body: "fs_index fs3 = fs_index fs \<Longrightarrow>
      case block_body t body fs3 of Inl out \<Rightarrow> numbered (fs_index fs) out | Inr fs' \<Rightarrow> fs_index fs' = fs_index fs"
    for t body fs3
    using block_body_numbered [of fs3 t body] by (auto split: sum.splits)
  show ?thesis
    by (auto simp: ng_block_def numbered_simps finish_def dest!: read_exact_index skip_loop_index
        intro!: body split: prod.splits option.splits res.splits bool.splits if_splits)
qed

lemma next_pcapng_numbered: "numbered (fs_index fs) (next_pcapng fs)"
proof (induction fs rule: next_pcapng.induct)
  case (1 fs)
  show ?case
    using ng_block_numbered [of fs] 1 by (cases "ng_block fs") (auto simp: next_pcapng.simps [of fs])
qed

lemma next_packet_numbered: "numbered (fs_index fs) (next_packet fs)"
  using next_pcap_numbered [of fs] next_pcapng_numbered [of fs]
  by (auto simp: next_packet_def numbered_def split: file_format.splits)

interpretation from_file: packet_source next_packet fs_index source_ok
proof unfold_locales
  show "source_ok fs \<Longrightarrow> source_ok (snd (next_packet fs))" for fs
    using next_packet_ok [of fs] by (auto simp: outcome_ok_def)
  show "source_ok fs \<Longrightarrow> fst (next_packet fs) \<noteq> Panic" for fs
    using next_packet_ok [of fs] by (auto simp: outcome_ok_def)
  show "fs_index fs \<le> fs_index (snd (next_packet fs))" for fs
    using next_packet_numbered [of fs] by (auto simp: numbered_def)
  show "fst (next_packet fs) = Ok (Some raw) \<Longrightarrow>
      number_of raw = fs_index (snd (next_packet fs)) \<and> fs_index fs < fs_index (snd (next_packet fs))" for fs raw
    using next_packet_numbered [of fs] by (cases "next_packet fs") (auto simp: numbered_def)
  show "source_ok fs \<Longrightarrow> fst (next_packet fs) = Ok (Some raw) \<Longrightarrow> sized raw" for fs raw
    using next_packet_ok [of fs] by (cases "next_packet fs") (auto simp: outcome_ok_def raw_packet_ok_def sized_def)
qed

text \<open>No two packets of a capture file have the same number, however it is damaged.\<close>

lemma file_numbers_distinct:
  "safe (\<lambda>fs. distinct (map number_of (drawn next_packet n fs))) (from_bytes input)"
  by (rule safe_mono [OF from_bytes_ok]) (rule from_file.drawn_distinct, simp)

end
