(* ===== verification/Live.thy ===== *)
theory Live
  imports Cli PcapWriter Source
begin

text \<open>
  Live capture: \<open>live.rs\<close> of \<open>cbna-capture\<close> and \<open>livecmd.rs\<close> of the program.  libpcap is a parameter: the
  outcome of its k-th call, the devices it lists, the drops it counts.  The stop flag and the clock are
  given by how many calls were made before they are read.  A loop that may wait for ever is a partial
  function, with \<open>None\<close> for a run that does not return.  The lemmas show when a capture returns, that a
  quiet interface keeps it from stopping, and that a live capture says what an analysis of its file says.
\<close>

section \<open>libpcap\<close>

record pcap_packet =
  pp_sec :: int
  pp_usec :: u32
  pp_len :: u32
  pp_data :: bytes

datatype pcap_event = EvPacket pcap_packet | EvTimeout | EvNoMore | EvFailure string

record device =
  dv_name :: string
  dv_desc :: "string option"
  dv_addresses :: "string list"
  dv_is_loopback :: bool
  dv_is_up :: bool

record live_config =
  lc_interface :: string
  lc_promiscuous :: bool
  lc_snaplen :: int
  lc_timeout_ms :: int
  lc_filter :: "string option"
  lc_buffer_size :: int

definition live_config_default :: live_config where
  "live_config_default =
     \<lparr>lc_interface = '''', lc_promiscuous = True, lc_snaplen = 65535, lc_timeout_ms = 250, lc_filter = None,
      lc_buffer_size = 16 * 1024 * 1024\<rparr>"

text \<open>\<open>pl_open\<close> opens a device, sets the filter, and gives the number of its link type.\<close>

record pcap_lib =
  pl_lookup :: "(device option, string) res"
  pl_list :: "(device list, string) res"
  pl_open :: "live_config \<Rightarrow> device \<Rightarrow> (u32, string) res"

datatype live_error = LePcap string | LeCapture capture_error

definition show_live_error :: "live_error \<Rightarrow> string" where
  "show_live_error e = (case e of LePcap s \<Rightarrow> ''libpcap error: '' @ s | LeCapture c \<Rightarrow> explain c)"

text \<open>\<open>?\<close> on a result of libpcap\<close>

definition pcap_try :: "('a, string) res \<Rightarrow> ('a \<Rightarrow> ('b, live_error) res) \<Rightarrow> ('b, live_error) res" where
  "pcap_try m k = match_res m k (\<lambda>e. Err (LePcap e))"

record live_source =
  lv_link_type :: link_type
  lv_interface :: string
  lv_index :: nat
  lv_calls :: nat
  lv_dropped :: nat

definition live_source_new :: "link_type \<Rightarrow> string \<Rightarrow> live_source" where
  "live_source_new lt name =
     \<lparr>lv_link_type = lt, lv_interface = name, lv_index = 0, lv_calls = 0, lv_dropped = 0\<rparr>"

definition find_device :: "pcap_lib \<Rightarrow> string \<Rightarrow> (device, live_error) res" where
  "find_device lib name =
     (if name = [] then
        pcap_try (pl_lookup lib) (\<lambda>d.
          case d of
            Some dev \<Rightarrow> Ok dev
          | None \<Rightarrow> Err (LeCapture (CeMalformed ''no default capture interface is available'')))
      else
        pcap_try (pl_list lib) (\<lambda>ds.
          case find (\<lambda>d. dv_name d = name \<or> dv_desc d = Some name) ds of
            Some dev \<Rightarrow> Ok dev
          | None \<Rightarrow> Err (LeCapture (CeMalformed (''no interface named or described as '' @ [CHR 0x27] @ name @ [CHR 0x27])))))"

definition live_open :: "pcap_lib \<Rightarrow> live_config \<Rightarrow> (live_source, live_error) res" where
  "live_open lib cfg =
     and_then (find_device lib (lc_interface cfg)) (\<lambda>dev.
     pcap_try (pl_open lib cfg dev) (\<lambda>datalink.
     Ok (live_source_new (link_type_from datalink) (dv_name dev))))"

definition live_description :: "live_source \<Rightarrow> string" where
  "live_description s = ''live: '' @ lv_interface s @ '' ('' @ link_type_name (lv_link_type s) @ '')''"

definition devices_lines :: "pcap_lib \<Rightarrow> style \<Rightarrow> (string list, live_error) res" where
  "devices_lines lib sy =
     pcap_try (pl_list lib) (\<lambda>ds.
     if ds = [] then
       Ok [''No capture interfaces are visible to this process.'',
           ''On Windows, Npcap must be installed and the shell run as Administrator.'']
     else
       and_then (unfailing (tb_write sy ''  ''
         (table_of [(''NAME'', AlignLeft), (''DESCRIPTION'', AlignLeft), (''ADDRESSES'', AlignLeft), (''FLAGS'', AlignLeft)]
           (map (\<lambda>d. [dv_name d, unwrap_or '''' (dv_desc d), join '', '' (dv_addresses d),
              join '','' ((if dv_is_up d then [''up''] else []) @ (if dv_is_loopback d then [''loopback''] else []))]) ds))))
       (\<lambda>ls. Ok (bold sy ''Capture interfaces'' # ls)))"

section \<open>The source\<close>

definition delivered :: "live_source \<Rightarrow> pcap_packet \<Rightarrow> raw_packet" where
  "delivered s p =
     raw_packet_new (lv_index s + 1) (ts_from_micros (pp_sec p) (pp_usec p)) (pp_len p) (pp_data p)"

definition called :: "live_source \<Rightarrow> live_source" where
  "called s = s\<lparr>lv_calls := lv_calls s + 1\<rparr>"

text \<open>\<open>LiveSource::next_packet\<close>: a timeout is waited out.\<close>

partial_function (option) live_next ::
  "(nat \<Rightarrow> pcap_event) \<Rightarrow> live_source \<Rightarrow> ((raw_packet option, live_error) res \<times> live_source) option" where
  "live_next ev s =
     (case ev (lv_calls s) of
        EvPacket p \<Rightarrow> Some (Ok (Some (delivered s p)), (called s)\<lparr>lv_index := lv_index s + 1\<rparr>)
      | EvTimeout \<Rightarrow> live_next ev (called s)
      | EvNoMore \<Rightarrow> Some (Ok None, called s)
      | EvFailure e \<Rightarrow> Some (Err (LePcap e), called s))"

text \<open>The statistics libpcap gives after that many calls, when it does; the last known number otherwise.\<close>

definition live_drops :: "(nat \<Rightarrow> (nat \<times> nat) option) \<Rightarrow> live_source \<Rightarrow> nat \<times> live_source" where
  "live_drops stats s =
     (let s' = (case stats (lv_calls s) of None \<Rightarrow> s | Some (drops, if_drops) \<Rightarrow> s\<lparr>lv_dropped := drops + if_drops\<rparr>) in
      (lv_dropped s', s'))"

section \<open>The capture command\<close>

text \<open>What a session sees, by the number of calls made: libpcap's outcomes and statistics, the stop flag, the clock.\<close>

record session =
  se_events :: "nat \<Rightarrow> pcap_event"
  se_stats :: "nat \<Rightarrow> (nat \<times> nat) option"
  se_stop :: "nat \<Rightarrow> bool"
  se_elapsed :: "nat \<Rightarrow> rat"
  se_clock :: "nat \<Rightarrow> int"

record capture_args =
  cp_iface :: "string option"
  cp_filter :: "string option"
  cp_count :: "nat option"
  cp_duration :: "rat option"
  cp_write :: "string option"
  cp_packets :: bool
  cp_snaplen :: int
  cp_no_promisc :: bool
  cp_top :: nat
  cp_tuning :: tuning_args

record capture_run =
  cr_source :: live_source
  cr_writer :: "pcap_writer option"
  cr_analyzer :: analyzer
  cr_count :: nat
  cr_seen :: "decoded_packet list"
  cr_error :: "live_error option"

definition cr_new :: "analysis_config \<Rightarrow> bool \<Rightarrow> live_source \<Rightarrow> capture_run" where
  "cr_new cfg writing s =
     \<lparr>cr_source = s, cr_writer = (if writing then Some (pw_create (lv_link_type s)) else None),
      cr_analyzer = an_new cfg, cr_count = 0, cr_seen = [], cr_error = None\<rparr>"

definition timed_out :: "session \<Rightarrow> capture_args \<Rightarrow> nat \<Rightarrow> bool" where
  "timed_out se args k = (case cp_duration args of None \<Rightarrow> False | Some d \<Rightarrow> d \<le> se_elapsed se k)"

definition over :: "session \<Rightarrow> capture_args \<Rightarrow> capture_run \<Rightarrow> bool" where
  "over se args cr \<longleftrightarrow>
     se_stop se (lv_calls (cr_source cr)) \<or> limit_hit (cp_count args) (cr_count cr) \<or>
     timed_out se args (lv_calls (cr_source cr))"

text \<open>One packet: written, decoded, observed, counted.\<close>

definition take_packet :: "(bytes \<Rightarrow> bytes) \<Rightarrow> raw_packet \<Rightarrow> capture_run \<Rightarrow> capture_run dres" where
  "take_packet md5 raw cr =
     and_then (decode md5 (rp_meta raw) (Slice 0 (rp_data raw)) (lv_link_type (cr_source cr))) (\<lambda>pkt.
     and_then (observe md5 pkt (rp_data raw) (cr_analyzer cr)) (\<lambda>a.
     Ok (cr\<lparr>cr_writer := map_option (\<lambda>w. pw_write w raw) (cr_writer cr), cr_analyzer := a,
            cr_count := cr_count cr + 1, cr_seen := cr_seen cr @ [pkt]\<rparr>)))"

partial_function (option) capture_loop ::
  "(bytes \<Rightarrow> bytes) \<Rightarrow> session \<Rightarrow> capture_args \<Rightarrow> capture_run \<Rightarrow> capture_run dres option" where
  "capture_loop md5 se args cr =
     (if over se args cr then Some (Ok cr)
      else
        (case live_next (se_events se) (cr_source cr) of
           None \<Rightarrow> None
         | Some (r, s) \<Rightarrow>
             (case r of
                Ok None \<Rightarrow> Some (Ok (cr\<lparr>cr_source := s\<rparr>))
              | Ok (Some raw) \<Rightarrow>
                  (case take_packet md5 raw (cr\<lparr>cr_source := s\<rparr>) of
                     Ok cr' \<Rightarrow> capture_loop md5 se args cr'
                   | m \<Rightarrow> Some m)
              | Err e \<Rightarrow> Some (Ok (cr\<lparr>cr_source := s, cr_error := Some e\<rparr>))
              | Panic \<Rightarrow> Some Panic)))"

definition capture_config :: "capture_args \<Rightarrow> live_config" where
  "capture_config args =
     live_config_default\<lparr>lc_interface := unwrap_or '''' (cp_iface args), lc_promiscuous := \<not> cp_no_promisc args,
       lc_snaplen := cp_snaplen args, lc_filter := cp_filter args\<rparr>"

record capture_out =
  co_lines :: "string list"
  co_notes :: "string list"
  co_run :: capture_run

definition capture_notes :: "session \<Rightarrow> capture_args \<Rightarrow> live_source \<Rightarrow> capture_run \<Rightarrow> string list" where
  "capture_notes se args s cr =
     (let (dropped, s') = live_drops (se_stats se) (cr_source cr) in
      [''Capturing on '' @ live_description s @ ''. Press Ctrl-C to stop.''] @
      (case cp_filter args of None \<Rightarrow> [] | Some f \<Rightarrow> [''Filter: '' @ f]) @
      (case cr_error cr of None \<Rightarrow> [] | Some e \<Rightarrow> [''capture error: '' @ show_live_error e]) @
      ['''', ''Captured '' @ show_nat (cr_count cr) @ '' packet(s) in '' @
         fmt_fixed 1 (se_elapsed se (lv_calls (cr_source cr))) @ ''s'' @
         (if 0 < dropped then '', '' @ show_nat dropped @ '' dropped by the capture engine'' else '''')] @
      (case (cr_writer cr, cp_write args) of
         (Some w, Some path) \<Rightarrow> [''Wrote '' @ show_nat (pw_packets w) @ '' packet(s) to '' @ path]
       | _ \<Rightarrow> []))"

definition capture_from :: "(bytes \<Rightarrow> bytes) \<Rightarrow> session \<Rightarrow> capture_args \<Rightarrow> live_source \<Rightarrow> capture_run dres option" where
  "capture_from md5 se args s =
     capture_loop md5 se args (cr_new (apply_tuning (cp_tuning args) (cp_top args)) (cp_write args \<noteq> None) s)"

text \<open>The lines of a finished capture: one for each packet if asked for, and the report when there was one.\<close>

definition finish_capture ::
  "string \<Rightarrow> style \<Rightarrow> session \<Rightarrow> capture_args \<Rightarrow> live_source \<Rightarrow> capture_run \<Rightarrow> capture_out dres" where
  "finish_capture version sy se args s cr =
     and_then
       (if 0 < cr_count cr then
          and_then (build version (se_clock se (lv_calls (cr_source cr))) (cr_analyzer cr) (live_description s))
            (render_report sy (cp_top args))
        else Ok [])
       (\<lambda>ls. Ok \<lparr>co_lines = (if cp_packets args then map pk_summary (cr_seen cr) else []) @ ls,
                 co_notes = capture_notes se args s cr, co_run = cr\<rparr>)"

definition cmd_capture ::
  "(bytes \<Rightarrow> bytes) \<Rightarrow> string \<Rightarrow> style \<Rightarrow> pcap_lib \<Rightarrow> session \<Rightarrow> capture_args \<Rightarrow> (capture_out, live_error) res option" where
  "cmd_capture md5 version sy lib se args =
     (case live_open lib (capture_config args) of
        Ok s \<Rightarrow> map_option (\<lambda>m. unfailing (and_then m (finish_capture version sy se args s))) (capture_from md5 se args s)
      | Err e \<Rightarrow> Some (Err e)
      | Panic \<Rightarrow> Some Panic)"


section \<open>Serving a live capture\<close>

text \<open>
  The worker of \<open>serve_live\<close>: the same packets, and a snapshot published whenever the refresh interval has
  passed since the last; a last one at the end.  The shutdown flag is the session's stop flag.
\<close>

definition refresh_interval :: "rat \<Rightarrow> rat" where
  "refresh_interval refresh = clamp (1 / 4) 60 refresh"

definition live_publish ::
  "string \<Rightarrow> session \<Rightarrow> capture_run \<Rightarrow> app_state \<Rightarrow> (live_source \<times> app_state) dres" where
  "live_publish version se cr st =
     (let k = lv_calls (cr_source cr); (dropped, s) = live_drops (se_stats se) (cr_source cr) in
      and_then (build version (se_clock se k) (cr_analyzer cr) (live_description s)) (\<lambda>r.
      Ok (s, publish r \<lparr>cs_source = live_description s, cs_live = True, cs_running = True,
             cs_packets = cr_count cr, cs_dropped = dropped, cs_elapsed_secs = se_elapsed se k,
             cs_last_update = to_rfc3339 (ts_new (se_clock se k) 0)\<rparr> st)))"

partial_function (option) worker_loop ::
  "(bytes \<Rightarrow> bytes) \<Rightarrow> string \<Rightarrow> session \<Rightarrow> rat \<Rightarrow> capture_run \<Rightarrow> rat \<Rightarrow> app_state \<Rightarrow>
     (capture_run \<times> app_state) dres option" where
  "worker_loop md5 version se refresh cr last_publish st =
     (if se_stop se (lv_calls (cr_source cr)) then Some (Ok (cr, st))
      else
        (case live_next (se_events se) (cr_source cr) of
           None \<Rightarrow> None
         | Some (r, s) \<Rightarrow>
             (case r of
                Ok None \<Rightarrow> Some (Ok (cr\<lparr>cr_source := s\<rparr>, st))
              | Ok (Some raw) \<Rightarrow>
                  (case take_packet md5 raw (cr\<lparr>cr_source := s\<rparr>) of
                     Ok cr' \<Rightarrow>
                       if refresh \<le> se_elapsed se (lv_calls s) - last_publish then
                         (case live_publish version se cr' st of
                            Ok (s', st') \<Rightarrow>
                              worker_loop md5 version se refresh (cr'\<lparr>cr_source := s'\<rparr>) (se_elapsed se (lv_calls s)) st'
                          | _ \<Rightarrow> Some Panic)
                       else worker_loop md5 version se refresh cr' last_publish st
                   | _ \<Rightarrow> Some Panic)
              | Err e \<Rightarrow> Some (Ok (cr\<lparr>cr_source := s, cr_error := Some e\<rparr>, st))
              | Panic \<Rightarrow> Some Panic)))"

definition worker_end :: "string \<Rightarrow> session \<Rightarrow> capture_run \<times> app_state \<Rightarrow> (capture_run \<times> app_state) dres" where
  "worker_end version se = (\<lambda>(cr, st).
     and_then (live_publish version se cr st) (\<lambda>(s, st').
     Ok (cr\<lparr>cr_source := s\<rparr>, mark_finished st')))"

definition live_serve_config :: "serve_args \<Rightarrow> string option \<Rightarrow> live_config" where
  "live_serve_config args filt =
     live_config_default\<lparr>lc_interface := unwrap_or '''' (sa_iface args), lc_filter := filt\<rparr>"

definition serve_live ::
  "(bytes \<Rightarrow> bytes) \<Rightarrow> string \<Rightarrow> pcap_lib \<Rightarrow> session \<Rightarrow> serve_args \<Rightarrow> string option \<Rightarrow> rat \<Rightarrow>
     (capture_run \<times> app_state, live_error) res option" where
  "serve_live md5 version lib se args filt refresh =
     (case live_open lib (live_serve_config args filt) of
        Ok s \<Rightarrow>
          map_option (\<lambda>m. unfailing (and_then m (worker_end version se)))
            (worker_loop md5 version se (refresh_interval refresh)
              (cr_new (apply_tuning (sa_tuning args) (sa_top args)) (sa_write args \<noteq> None) s)
              (- refresh_interval refresh) (st_new (live_description s) True))
      | Err e \<Rightarrow> Some (Err e)
      | Panic \<Rightarrow> Some Panic)"

section \<open>When the source returns\<close>

definition quiet :: "(nat \<Rightarrow> pcap_event) \<Rightarrow> nat \<Rightarrow> bool" where
  "quiet ev k \<longleftrightarrow> range (\<lambda>i. ev (k + i)) = {EvTimeout}"

definition outcome :: "live_source \<Rightarrow> pcap_event \<Rightarrow> (raw_packet option, live_error) res \<times> live_source" where
  "outcome s e =
     (case e of
        EvPacket p \<Rightarrow> (Ok (Some (delivered s p)), (called s)\<lparr>lv_index := lv_index s + 1\<rparr>)
      | EvFailure m \<Rightarrow> (Err (LePcap m), called s)
      | _ \<Rightarrow> (Ok None, called s))"

lemma live_next_now: "ev (lv_calls s) \<noteq> EvTimeout \<Longrightarrow> live_next ev s = Some (outcome s (ev (lv_calls s)))"
  by (subst live_next.simps) (simp add: outcome_def split: pcap_event.splits)

lemma live_next_later: "ev (lv_calls s) = EvTimeout \<Longrightarrow> live_next ev s = live_next ev (called s)"
  by (subst live_next.simps) simp

definition skipped :: "nat \<Rightarrow> live_source \<Rightarrow> live_source" where
  "skipped n s = s\<lparr>lv_calls := lv_calls s + n\<rparr>"

lemma live_next_skips:
  assumes "\<And>i. i < n \<Longrightarrow> ev (lv_calls s + i) = EvTimeout"
  shows "live_next ev s = live_next ev (skipped n s)"
  using assms
proof (induction n arbitrary: s)
  case (Suc n)
  have "live_next ev s = live_next ev (called s)" using Suc.prems [of 0] by (simp add: live_next_later)
  also have "\<dots> = live_next ev (skipped n (called s))"
  proof (rule Suc.IH)
    show "ev (lv_calls (called s) + i) = EvTimeout" if "i < n" for i
      using Suc.prems [of "Suc i"] that by (simp add: called_def)
  qed
  finally show ?case by (simp add: skipped_def called_def)
qed (simp add: skipped_def)

text \<open>The first call that is not a timeout decides; everything before is waited out.\<close>

lemma live_next_first:
  assumes "ev (lv_calls s + k) \<noteq> EvTimeout"
  obtains n where "n \<le> k" "ev (lv_calls s + n) \<noteq> EvTimeout"
    "live_next ev s = Some (outcome (skipped n s) (ev (lv_calls s + n)))"
proof -
  define n where "n = (LEAST i. ev (lv_calls s + i) \<noteq> EvTimeout)"
  have n: "ev (lv_calls s + n) \<noteq> EvTimeout" unfolding n_def by (rule LeastI [of _ k]) (rule assms)
  have le: "n \<le> k" unfolding n_def by (rule Least_le) (rule assms)
  have before: "ev (lv_calls s + i) = EvTimeout" if "i < n" for i
    using not_less_Least that unfolding n_def by blast
  have "live_next ev s = live_next ev (skipped n s)" by (rule live_next_skips) (rule before)
  also have "\<dots> = Some (outcome (skipped n s) (ev (lv_calls s + n)))"
    using n live_next_now [of ev "skipped n s"] by (simp add: skipped_def)
  finally show thesis using that le n by blast
qed

lemma live_next_found: "live_next ev s = Some y \<Longrightarrow> \<exists>i. ev (lv_calls s + i) \<noteq> EvTimeout"
proof (rule live_next.raw_induct [where P = "\<lambda>ev s y. \<exists>i. ev (lv_calls s + i) \<noteq> EvTimeout"])
  fix f ev s y
  assume IH: "\<And>ev s y. f ev s = Some y \<Longrightarrow> \<exists>i. ev (lv_calls s + i) \<noteq> EvTimeout"
    and eq: "(case ev (lv_calls s) of
        EvPacket p \<Rightarrow> Some (Ok (Some (delivered s p)), (called s)\<lparr>lv_index := lv_index s + 1\<rparr>)
      | EvTimeout \<Rightarrow> f ev (called s)
      | EvNoMore \<Rightarrow> Some (Ok None, called s)
      | EvFailure e \<Rightarrow> Some (Err (LePcap e), called s)) = Some y"
  show "\<exists>i. ev (lv_calls s + i) \<noteq> EvTimeout"
  proof (cases "ev (lv_calls s) = EvTimeout")
    case True
    then obtain i where "ev (lv_calls (called s) + i) \<noteq> EvTimeout" using eq IH [of ev "called s" y] by auto
    then show ?thesis by (intro exI [of _ "Suc i"]) (simp add: called_def)
  qed (intro exI [of _ 0], simp)
qed

lemma live_next_None: "live_next ev s = None \<longleftrightarrow> quiet ev (lv_calls s)"
proof
  assume "live_next ev s = None"
  then have "ev (lv_calls s + i) = EvTimeout" for i using live_next_first [of ev s i] by fastforce
  then show "quiet ev (lv_calls s)" by (auto simp: quiet_def)
next
  assume "quiet ev (lv_calls s)"
  then have "ev (lv_calls s + i) = EvTimeout" for i
    unfolding quiet_def by (metis rangeI singletonD)
  then show "live_next ev s = None" using live_next_found [of ev s] by (cases "live_next ev s") auto
qed

text \<open>A pull of the live source; one that never returns hands over nothing.\<close>

definition live_pull :: "(nat \<Rightarrow> pcap_event) \<Rightarrow> live_source \<Rightarrow> (raw_packet option, live_error) res \<times> live_source" where
  "live_pull ev s = (case live_next ev s of None \<Rightarrow> (Ok None, s) | Some x \<Rightarrow> x)"

lemma live_pull_cases:
  "live_pull ev s = (Ok None, s) \<or> (\<exists>n. live_pull ev s = outcome (skipped n s) (ev (lv_calls s + n)))"
proof (cases "live_next ev s")
  case (Some x)
  then obtain i where "ev (lv_calls s + i) \<noteq> EvTimeout" using live_next_found by blast
  then obtain n where "live_next ev s = Some (outcome (skipped n s) (ev (lv_calls s + n)))"
    by (rule live_next_first)
  then show ?thesis by (auto simp: live_pull_def)
qed (simp add: live_pull_def)

lemma outcome_facts:
  "fst (outcome s e) \<noteq> Panic" "lv_index s \<le> lv_index (snd (outcome s e))"
  "fst (outcome s e) = Ok (Some raw) \<Longrightarrow>
     number_of raw = lv_index (snd (outcome s e)) \<and> lv_index s < lv_index (snd (outcome s e)) \<and> sized raw"
  by (cases e; auto simp: outcome_def called_def number_of_def sized_def delivered_def raw_packet_new_def)+

interpretation from_libpcap: packet_source "live_pull ev" lv_index "\<lambda>_. True"
proof unfold_locales
  have index: "lv_index (skipped n s) = lv_index s" for n s by (simp add: skipped_def)
  show "fst (live_pull ev s) \<noteq> Panic" for s
    using live_pull_cases [of ev s] outcome_facts(1) by (elim disjE exE) (simp_all del: not_Some_eq)
  show "lv_index s \<le> lv_index (snd (live_pull ev s))" for s
    using live_pull_cases [of ev s] outcome_facts(2) [of "skipped _ s"] by (elim disjE exE) (simp_all add: index)
  show "fst (live_pull ev s) = Ok (Some raw) \<Longrightarrow>
      number_of raw = lv_index (snd (live_pull ev s)) \<and> lv_index s < lv_index (snd (live_pull ev s))" for s raw
    using live_pull_cases [of ev s] outcome_facts(3) [of "skipped _ s"] by (elim disjE exE) (simp_all add: index)
  show "fst (live_pull ev s) = Ok (Some raw) \<Longrightarrow> sized raw" for s raw
    using live_pull_cases [of ev s] outcome_facts(3) by (elim disjE exE) simp_all
qed simp

text \<open>No two packets of a live capture have the same number either.\<close>

lemma live_numbers_distinct: "distinct (map number_of (drawn (live_pull ev) n s))"
  by (rule from_libpcap.drawn_distinct) simp

text \<open>
  C14. Waiting for a packet ends exactly when something other than a timeout comes; the timeout of 250 ms
  does not end it.  So on an interface that has gone quiet neither Ctrl-C nor \<open>--duration\<close> ends a capture
  that was not already over when it began to wait.
\<close>

theorem quiet_interface_never_stops:
  "let k = lv_calls (cr_source cr) in
   (live_next (se_events se) (cr_source cr) = None \<longleftrightarrow> quiet (se_events se) k) \<and>
   capture_loop md5 se args cr =
     (if over se args cr then Some (Ok cr)
      else if quiet (se_events se) k then None else capture_loop md5 se args cr)"
  unfolding Let_def
proof
  show "capture_loop md5 se args cr =
      (if over se args cr then Some (Ok cr)
       else if quiet (se_events se) (lv_calls (cr_source cr)) then None else capture_loop md5 se args cr)"
  proof (cases "quiet (se_events se) (lv_calls (cr_source cr))")
    case True
    then have "live_next (se_events se) (cr_source cr) = None" by (simp add: live_next_None)
    then show ?thesis using True by (subst capture_loop.simps) simp
  qed (simp add: capture_loop.simps [of md5 se args cr])
qed (rule live_next_None)

section \<open>A live capture and its file\<close>

text \<open>What libpcap promises of a packet: a time of 32 bits with microseconds, data within the snapshot length.\<close>

definition event_ok :: "pcap_event \<Rightarrow> bool" where
  "event_ok e =
     (case e of
        EvPacket p \<Rightarrow> 0 \<le> pp_sec p \<and> pp_sec p < 2 ^ 32 \<and> unat (pp_usec p) < 1000000 \<and>
          length (pp_data p) \<le> unat MAX_PACKET_BYTES \<and> length (pp_data p) \<le> unat (pp_len p)
      | _ \<Rightarrow> True)"

text \<open>A capture ends: some call brings an end or an error, or a packet after which it is over.\<close>

definition ends_at :: "session \<Rightarrow> capture_args \<Rightarrow> nat \<Rightarrow> bool" where
  "ends_at se args k \<longleftrightarrow>
     (case se_events se k of
        EvTimeout \<Rightarrow> False
      | EvPacket p \<Rightarrow> se_stop se (k + 1) \<or> timed_out se args (k + 1)
      | _ \<Rightarrow> True)"

text \<open>The state of a capture: what was written, decoded and analysed are the same packets.\<close>

definition captured ::
  "(bytes \<Rightarrow> bytes) \<Rightarrow> link_type \<Rightarrow> analysis_config \<Rightarrow> capture_run \<Rightarrow> raw_packet list \<Rightarrow> bool" where
  "captured md5 lt cfg cr raws \<longleftrightarrow>
     lv_link_type (cr_source cr) = lt \<and> lv_index (cr_source cr) = length raws \<and> cr_count cr = length raws \<and>
     cr_writer cr = Some (foldl pw_write (pw_create lt) raws) \<and>
     list_all writable raws \<and> renumber 0 raws = raws \<and>
     (\<exists>ps. list_all2 (decoded_from md5 lt) raws ps \<and> observe_all md5 ps (an_new cfg) = Ok (cr_analyzer cr) \<and>
        cr_seen cr = map fst ps)"

lemma renumber_append: "renumber i (xs @ ys) = renumber i xs @ renumber (i + length xs) ys"
  by (induction xs arbitrary: i) auto

lemma observe_all_append:
  "observe_all md5 (ps @ qs) a = and_then (observe_all md5 ps a) (observe_all md5 qs)"
proof (induction md5 ps a rule: observe_all.induct)
  case (2 md5 pkt frame ps a)
  then show ?case by (cases "observe md5 pkt frame a") auto
qed simp

lemma writable_delivered:
  assumes "event_ok (EvPacket p)"
  shows "writable (delivered s p)" and "with_index (Suc (lv_index s)) (delivered s p) = delivered s p"
proof -
  have us: "unat (pp_usec p) * 1000 < 2 ^ 32" "unat (pp_usec p) * 1000 < 1000000000"
    using assms by (simp_all add: event_ok_def)
  then have "unat (pp_usec p * 1000) = unat (pp_usec p) * 1000"
    by (subst unat_mult_lem [THEN iffD1]) simp_all
  with us have ts: "ts_from_micros (pp_sec p) (pp_usec p) = \<lparr>secs = pp_sec p, nanos = pp_usec p * 1000\<rparr>"
    "unat (pp_usec p * 1000) < 1000000000"
    by (simp_all add: ts_from_micros_def sat_mul32_def ts_new_id)
  have "length (pp_data p) \<le> unat (pp_len p)" "length (pp_data p) < 2 ^ 32"
    using assms by (simp_all add: event_ok_def MAX_PACKET_BYTES_def)
  then have "word_of_nat (length (pp_data p)) \<le> pp_len p"
    by (simp add: word_le_nat_alt unat_of_nat)
  with ts assms show "writable (delivered s p)"
    by (simp add: writable_def delivered_def raw_packet_new_def event_ok_def)
qed (simp add: with_index_def delivered_def raw_packet_new_def)

lemma decode_some: obtains pkt where "decode md5 meta bs lt = Ok pkt"
proof -
  have "returns (packet_ok bs) (decode md5 meta bs lt)" by (rule returnsI [OF safe_decode no_err_decode])
  then show thesis using that by (cases "decode md5 meta bs lt") auto
qed

lemma take_packet_captured:
  assumes cr: "captured md5 lt cfg cr raws" and p: "event_ok (EvPacket p)"
    and s: "lv_index s = lv_index (cr_source cr)" and s': "lv_link_type s' = lt" "lv_index s' = lv_index s + 1"
  obtains cr' where "take_packet md5 (delivered s p) (cr\<lparr>cr_source := s'\<rparr>) = Ok cr'" "cr_source cr' = s'"
    "captured md5 lt cfg cr' (raws @ [delivered s p])"
proof -
  let ?raw = "delivered s p"
  obtain ps where ps: "list_all2 (decoded_from md5 lt) raws ps" "observe_all md5 ps (an_new cfg) = Ok (cr_analyzer cr)"
    "cr_seen cr = map fst ps" using cr by (auto simp: captured_def)
  obtain pkt where d: "decode md5 (rp_meta ?raw) (Slice 0 (rp_data ?raw)) lt = Ok pkt" by (rule decode_some)
  have "analyzer_ok (cr_analyzer cr)" using returns_observe_all [OF analyzer_ok_new, of md5 ps cfg] ps(2) by simp
  then obtain a where a: "observe md5 pkt (rp_data ?raw) (cr_analyzer cr) = Ok a"
    using returns_observe [of "cr_analyzer cr" md5 pkt "rp_data ?raw"]
    by (cases "observe md5 pkt (rp_data ?raw) (cr_analyzer cr)") auto
  have w: "writable ?raw" "with_index (Suc (length raws)) ?raw = ?raw"
    using writable_delivered [OF p, of s] cr s by (simp_all add: captured_def)
  have "list_all2 (decoded_from md5 lt) (raws @ [?raw]) (ps @ [(pkt, rp_data ?raw)])"
    using ps(1) d by (intro list_all2_appendI) (simp_all add: decoded_from_def)
  moreover have "observe_all md5 (ps @ [(pkt, rp_data ?raw)]) (an_new cfg) = Ok a"
    by (simp add: observe_all_append ps(2) a)
  ultimately have "\<exists>ps'. list_all2 (decoded_from md5 lt) (raws @ [?raw]) ps' \<and> observe_all md5 ps' (an_new cfg) = Ok a \<and>
      cr_seen cr @ [pkt] = map fst ps'"
    by (intro exI [of _ "ps @ [(pkt, rp_data ?raw)]"]) (simp add: ps(3))
  then show thesis
    using cr s s' w
    by (intro that [of "cr\<lparr>cr_source := s', cr_writer := map_option (\<lambda>w. pw_write w ?raw) (cr_writer cr), cr_analyzer := a,
            cr_count := cr_count cr + 1, cr_seen := cr_seen cr @ [pkt]\<rparr>"])
      (simp_all add: take_packet_def d a captured_def renumber_append)
qed

lemma capture_loop_captured:
  assumes ok: "\<And>k. event_ok (se_events se k)" and ends: "ends_at se args k"
    and cr: "captured md5 lt cfg cr raws" and k: "lv_calls (cr_source cr) \<le> k \<or> over se args cr"
  shows "\<exists>cr' raws'. capture_loop md5 se args cr = Some (Ok cr') \<and> captured md5 lt cfg cr' raws'"
  using cr k
proof (induction "Suc k - lv_calls (cr_source cr)" arbitrary: cr raws rule: less_induct)
  case less
  let ?s = "cr_source cr"
  show ?case
  proof (cases "over se args cr")
    case True
    then show ?thesis using less.prems(1) by (subst capture_loop.simps) auto
  next
    case False
    then have le: "lv_calls ?s \<le> k" using less.prems(2) by simp
    have "se_events se (lv_calls ?s + (k - lv_calls ?s)) \<noteq> EvTimeout"
      using ends le by (auto simp: ends_at_def)
    then obtain n where n: "n \<le> k - lv_calls ?s" "se_events se (lv_calls ?s + n) \<noteq> EvTimeout"
      "live_next (se_events se) ?s = Some (outcome (skipped n ?s) (se_events se (lv_calls ?s + n)))"
      by (rule live_next_first)
    show ?thesis
    proof (cases "se_events se (lv_calls ?s + n)")
      case (EvPacket p)
      let ?s' = "(called (skipped n ?s))\<lparr>lv_index := lv_index ?s + 1\<rparr>"
      have p: "event_ok (EvPacket p)" using ok [of "lv_calls ?s + n"] EvPacket by simp
      obtain cr' where cr': "take_packet md5 (delivered (skipped n ?s) p) (cr\<lparr>cr_source := ?s'\<rparr>) = Ok cr'"
        "cr_source cr' = ?s'" "captured md5 lt cfg cr' (raws @ [delivered (skipped n ?s) p])"
        by (rule take_packet_captured [OF less.prems(1) p, of "skipped n ?s" ?s'])
          (use less.prems(1) in \<open>simp_all add: skipped_def called_def captured_def\<close>)
      have calls: "lv_calls (cr_source cr') = lv_calls ?s + n + 1" by (simp add: cr'(2) called_def skipped_def)
      have "lv_calls (cr_source cr') \<le> k \<or> over se args cr'"
      proof (cases "lv_calls ?s + n = k")
        case True
        then show ?thesis using ends EvPacket calls by (auto simp: ends_at_def over_def)
      next
        case False
        then show ?thesis using n(1) le calls by (intro disjI1) linarith
      qed
      then have "\<exists>cr'' raws'. capture_loop md5 se args cr' = Some (Ok cr'') \<and> captured md5 lt cfg cr'' raws'"
        using less.hyps [OF _ cr'(3)] calls le by simp
      then show ?thesis
        using False n(3) cr'(1) by (subst capture_loop.simps) (simp add: EvPacket outcome_def skipped_def)
    qed (use False n(2,3) less.prems(1) in
      \<open>subst capture_loop.simps, auto simp: outcome_def captured_def called_def skipped_def\<close>)+
  qed
qed

text \<open>Whatever ends it, a capture that returns has not panicked.\<close>

lemma live_next_result: "live_next ev s = Some (r, s') \<Longrightarrow> r \<noteq> Panic"
proof -
  assume found: "live_next ev s = Some (r, s')"
  then obtain i where "ev (lv_calls s + i) \<noteq> EvTimeout" using live_next_found by blast
  then obtain n where "live_next ev s = Some (outcome (skipped n s) (ev (lv_calls s + n)))"
    by (rule live_next_first)
  with found show "r \<noteq> Panic" by (auto simp: outcome_def split: pcap_event.splits)
qed

lemma take_packet_returns:
  assumes "analyzer_ok (cr_analyzer cr)"
  shows "returns (\<lambda>cr'. analyzer_ok (cr_analyzer cr')) (take_packet md5 raw cr)"
proof -
  obtain pkt where d: "decode md5 (rp_meta raw) (Slice 0 (rp_data raw)) (lv_link_type (cr_source cr)) = Ok pkt"
    by (rule decode_some)
  show ?thesis
    using returns_observe [OF assms, of md5 pkt "rp_data raw"]
    by (cases "observe md5 pkt (rp_data raw) (cr_analyzer cr)") (auto simp: take_packet_def d)
qed

lemma capture_loop_safe:
  "capture_loop md5 se args cr = Some m \<Longrightarrow> analyzer_ok (cr_analyzer cr) \<longrightarrow> returns (\<lambda>cr'. analyzer_ok (cr_analyzer cr')) m"
proof (rule capture_loop.raw_induct
    [where P = "\<lambda>md5 se args cr m. analyzer_ok (cr_analyzer cr) \<longrightarrow> returns (\<lambda>cr'. analyzer_ok (cr_analyzer cr')) m"])
  fix f md5 se args cr m
  assume IH: "\<And>md5 se args cr m. f md5 se args cr = Some m \<Longrightarrow>
      analyzer_ok (cr_analyzer cr) \<longrightarrow> returns (\<lambda>cr'. analyzer_ok (cr_analyzer cr')) m"
    and eq: "(if over se args cr then Some (Ok cr)
      else
        (case live_next (se_events se) (cr_source cr) of
           None \<Rightarrow> None
         | Some (r, s) \<Rightarrow>
             (case r of
                Ok None \<Rightarrow> Some (Ok (cr\<lparr>cr_source := s\<rparr>))
              | Ok (Some raw) \<Rightarrow>
                  (case take_packet md5 raw (cr\<lparr>cr_source := s\<rparr>) of
                     Ok cr' \<Rightarrow> f md5 se args cr'
                   | m \<Rightarrow> Some m)
              | Err e \<Rightarrow> Some (Ok (cr\<lparr>cr_source := s, cr_error := Some e\<rparr>))
              | Panic \<Rightarrow> Some Panic))) = Some m"
  show "analyzer_ok (cr_analyzer cr) \<longrightarrow> returns (\<lambda>cr'. analyzer_ok (cr_analyzer cr')) m"
  proof
    assume a: "analyzer_ok (cr_analyzer cr)"
    show "returns (\<lambda>cr'. analyzer_ok (cr_analyzer cr')) m"
    proof (cases "over se args cr")
      case False
      then obtain r s where r: "live_next (se_events se) (cr_source cr) = Some (r, s)"
        using eq by (auto split: option.splits)
      show ?thesis
      proof (cases r)
        case (Ok x)
        show ?thesis
        proof (cases x)
          case (Some raw)
          obtain cr' where cr': "take_packet md5 raw (cr\<lparr>cr_source := s\<rparr>) = Ok cr'" "analyzer_ok (cr_analyzer cr')"
            using take_packet_returns [of "cr\<lparr>cr_source := s\<rparr>" md5 raw] a
            by (cases "take_packet md5 raw (cr\<lparr>cr_source := s\<rparr>)") auto
          then have "f md5 se args cr' = Some m" using eq False r Ok Some by simp
          from IH [OF this] cr'(2) show ?thesis by simp
        qed (use eq False r Ok a in auto)
      qed (use eq False r a live_next_result [OF r] in auto)
    qed (use eq a in auto)
  qed
qed

lemma decoded_from_unique:
  "list_all2 (decoded_from md5 lt) raws ps \<Longrightarrow> list_all2 (decoded_from md5 lt) raws qs \<Longrightarrow> ps = qs"
proof (induction raws arbitrary: ps qs)
  case (Cons raw raws)
  then show ?case by (cases ps; cases qs) (auto simp: decoded_from_def)
qed simp

definition same_analysis :: "capture_run \<Rightarrow> analyzer \<times> run_stats \<times> decoded_packet list \<Rightarrow> bool" where
  "same_analysis cr = (\<lambda>(a, st, seen).
     a = cr_analyzer cr \<and> seen = cr_seen cr \<and> rn_packets st = cr_count cr \<and> rn_read_errors st = [])"

lemma captured_reanalysed:
  assumes "captured md5 lt cfg cr raws" and "plain_link lt"
  shows "returns (\<lambda>fs. returns (same_analysis cr) (run md5 fs cfg None)) (from_bytes (pw_file lt raws))"
proof -
  from assms(1) obtain ps where ps: "list_all2 (decoded_from md5 lt) raws ps"
    "observe_all md5 ps (an_new cfg) = Ok (cr_analyzer cr)" "cr_seen cr = map fst ps"
    "list_all writable raws" "renumber 0 raws = raws" "cr_count cr = length raws"
    by (auto simp: captured_def)
  obtain fs where fs: "from_bytes (pw_file lt raws) = Ok fs" "fs_link_type fs = lt" "read_all fs = map Ok raws"
    using reopen_written [OF assms(2) ps(4)] ps(5) by (cases "from_bytes (pw_file lt raws)") auto
  have "source_ok fs" using from_bytes_ok [of "pw_file lt raws"] fs(1) by simp
  from run_loop_consumes [OF this analyzer_ok_new, of md5 lt None run_stats_default cfg "[]"]
  have "returns (loop_ok md5 lt raws [] (an_new cfg) run_stats_default []) (run md5 fs cfg None)"
    by (simp add: run_def fs(2,3) consumed_clean)
  then have "returns (same_analysis cr) (run md5 fs cfg None)"
  proof (rule returns_mono)
    fix out assume "loop_ok md5 lt raws [] (an_new cfg) run_stats_default [] out"
    then show "same_analysis cr out"
      using decoded_from_unique [OF ps(1)] ps(2,3,6) list_all2_lengthD [OF ps(1)]
      by (auto simp: loop_ok_def same_analysis_def run_stats_default_def)
  qed
  then show ?thesis by (simp add: fs(1))
qed

text \<open>
  C13. A live capture that writes its packets returns whenever some call ends it, and it says what an
  analysis of the file it wrote says, wherever it was stopped: opening the file and running the offline pipeline over it gives the same
  analyzer, from the same decoded packets, as many as were counted, without a read error.
\<close>

theorem live_capture_matches_its_file:
  assumes "range (se_events se) \<subseteq> {e. event_ok e}" and "ends_at se args k"
    and "plain_link lt" and "cp_write args \<noteq> None"
  shows "\<exists>cr w. capture_from md5 se args (live_source_new lt name) = Some (Ok cr) \<and> cr_writer cr = Some w \<and>
    returns (\<lambda>fs. returns (same_analysis cr)
        (run md5 fs (apply_tuning (cp_tuning args) (cp_top args)) None)) (from_bytes (pw_out w))"
proof -
  let ?cfg = "apply_tuning (cp_tuning args) (cp_top args)"
  have ok: "event_ok (se_events se k)" for k using assms(1) by auto
  have "captured md5 lt ?cfg (cr_new ?cfg True (live_source_new lt name)) []"
    by (simp add: captured_def cr_new_def live_source_new_def)
  from capture_loop_captured [OF ok assms(2) this]
  obtain cr raws where cr: "capture_from md5 se args (live_source_new lt name) = Some (Ok cr)" "captured md5 lt ?cfg cr raws"
    using assms(4) by (auto simp: capture_from_def cr_new_def live_source_new_def)
  then show ?thesis
    using captured_reanalysed [OF cr(2) assms(3)] by (auto simp: captured_def pw_file_def)
qed

text \<open>Two packets with a timeout between them; Ctrl-C after the second.\<close>

definition sample_session :: session where
  "sample_session =
     \<lparr>se_events = (\<lambda>k. if k = 0 then EvPacket \<lparr>pp_sec = 1786365296, pp_usec = 500000, pp_len = 64, pp_data = [0x45, 0, 0, 20]\<rparr>
        else if k = 2 then EvPacket \<lparr>pp_sec = 1786365297, pp_usec = 0, pp_len = 60, pp_data = []\<rparr> else EvTimeout),
      se_stats = (\<lambda>k. None), se_stop = (\<lambda>k. 2 < k), se_elapsed = rat_of_nat, se_clock = (\<lambda>k. 1786365300)\<rparr>"

definition sample_args :: capture_args where
  "sample_args =
     \<lparr>cp_iface = None, cp_filter = None, cp_count = None, cp_duration = None, cp_write = Some ''out.pcap'',
      cp_packets = False, cp_snaplen = 65535, cp_no_promisc = False, cp_top = 20,
      cp_tuning = \<lparr>ta_beacon_jitter = None, ta_beacon_min_packets = None, ta_dns_subdomains = None, ta_scan_ports = None\<rparr>\<rparr>"

theorem live_capture_matches_its_file_witness:
  "\<exists>cr w. capture_from (\<lambda>bs. bs) sample_session sample_args (live_source_new LtRaw ''eth0'') = Some (Ok cr) \<and>
    cr_writer cr = Some w \<and>
    returns (\<lambda>fs. returns (same_analysis cr)
        (run (\<lambda>bs. bs) fs (apply_tuning (cp_tuning sample_args) (cp_top sample_args)) None)) (from_bytes (pw_out w))"
  by (rule live_capture_matches_its_file [where k = 2])
    (auto simp: sample_session_def sample_args_def event_ok_def ends_at_def plain_link_def MAX_PACKET_BYTES_def)

end
