(* ===== verification/Fuzz.thy ===== *)
theory Fuzz
  imports Pipeline IocFeeds
begin

unbundle bit_operations_syntax

text \<open>
  The fuzz entry points: \<open>fuzz.rs\<close> of \<open>cbna-core\<close>, \<open>cbna-capture\<close> and \<open>cbna-intel\<close>.  A target is a
  function of arbitrary bytes, and \<open>must return normally\<close> is its whole contract; the model returns what
  the target reads of the result (its \<open>black_box\<close> calls).  The lemmas prove the contract for every
  target and the bounds of the mutator that feeds them.
\<close>

section \<open>The mutator\<close>

type_synonym u64 = "64 word"

definition mutator_new :: "u64 \<Rightarrow> u64" where
  "mutator_new seed = (if seed = 0 then 0x9E3779B97F4A7C15 else seed)"

definition next_u64 :: "u64 \<Rightarrow> u64 \<times> u64" where
  "next_u64 m =
     (let x = m;
          x = x XOR drop_bit 12 x;
          x = x XOR push_bit 25 x;
          x = x XOR drop_bit 27 x in
      (x * 0x2545F4914F6CDD1D, x))"

definition next_byte :: "u64 \<Rightarrow> u8 \<times> u64" where
  "next_byte m = (let (r, m) = next_u64 m in (ucast (drop_bit 33 r), m))"

definition below :: "nat \<Rightarrow> u64 \<Rightarrow> nat \<times> u64" where
  "below n m =
     (if n = 0 then (0, m) else let (r, m) = next_u64 m in (unat (drop_bit 33 r) mod n, m))"

text \<open>\<open>for _ in 0..n { let b = self.byte(); buf.push(b); }\<close>\<close>

fun push_bytes :: "nat \<Rightarrow> u64 \<Rightarrow> bytes \<Rightarrow> u64 \<times> bytes" where
  "push_bytes 0 m buf = (m, buf)"
| "push_bytes (Suc n) m buf = (let (b, m) = next_byte m in push_bytes n m (buf @ [b]))"

text \<open>\<open>buf[i..i + bs.len()].copy_from_slice(bs)\<close> and \<open>buf.insert(i, b)\<close>\<close>

definition copy_at :: "nat \<Rightarrow> bytes \<Rightarrow> bytes \<Rightarrow> bytes dres" where
  "copy_at i bs buf =
     (if i + length bs \<le> length buf then Ok (take i buf @ bs @ drop (i + length bs) buf) else Panic)"

definition insert_at :: "nat \<Rightarrow> u8 \<Rightarrow> bytes \<Rightarrow> bytes dres" where
  "insert_at i b buf = (if i \<le> length buf then Ok (take i buf @ b # drop i buf) else Panic)"

definition extreme_u16 :: "nat \<Rightarrow> u16" where
  "extreme_u16 k = (if k = 0 then 0 else if k = 1 then 1 else if k = 2 then 0xFFFF else 0x7FFF)"

definition mutate_round :: "u64 \<Rightarrow> bytes \<Rightarrow> (u64 \<times> bytes) dres" where
  "mutate_round m buf =
     (let (k, m) = below 6 m in
      if k = 0 \<and> buf \<noteq> [] then
        let (i, m) = below (length buf) m; (bit, m) = below 8 m in
        and_then (index buf i) (\<lambda>b. Ok (m, buf[i := b XOR push_bit bit 1]))
      else if k = 1 \<and> buf \<noteq> [] then
        let (i, m) = below (length buf) m; (b, m) = next_byte m in
        and_then (index buf i) (\<lambda>_. Ok (m, buf[i := b]))
      else if k = 2 \<and> buf \<noteq> [] then
        let (n, m) = below (length buf) m in Ok (m, take n buf)
      else if k = 3 then
        let (n, m) = below 64 m in Ok (push_bytes n m buf)
      else if k = 4 \<and> 2 \<le> length buf then
        let (i, m) = below (length buf - 1) m; (v, m) = below 4 m in
        and_then (copy_at i (wire16 (extreme_u16 v)) buf) (\<lambda>buf. Ok (m, buf))
      else
        let (i, m) = below (max (length buf) 1) m; i = min i (length buf); (b, m) = next_byte m in
        and_then (insert_at i b buf) (\<lambda>buf. Ok (m, buf)))"

fun mutate_rounds :: "nat \<Rightarrow> u64 \<Rightarrow> bytes \<Rightarrow> (u64 \<times> bytes) dres" where
  "mutate_rounds 0 m buf = Ok (m, buf)"
| "mutate_rounds (Suc n) m buf = and_then (mutate_round m buf) (\<lambda>(m, buf). mutate_rounds n m buf)"

definition mutate :: "u64 \<Rightarrow> bytes \<Rightarrow> (u64 \<times> bytes) dres" where
  "mutate m seed = (let (k, m) = below 8 m in mutate_rounds (1 + k) m seed)"

definition noise :: "nat \<Rightarrow> u64 \<Rightarrow> u64 \<times> bytes" where
  "noise max_len m = (let (n, m) = below max_len m in push_bytes n m [])"

section \<open>Stateless targets\<close>

definition LINK_TYPES :: "link_type list" where
  "LINK_TYPES = [LtNull, LtEthernet, LtRaw, LtLinuxSll, LtLinuxSll2, LtLoop]"

definition fuzz_meta :: "nat \<Rightarrow> u32 \<Rightarrow> bytes \<Rightarrow> packet_meta" where
  "fuzz_meta n wire_len frame =
     \<lparr>pm_index = n, pm_timestamp = ts_new 0 0, pm_captured_len = word_of_nat (length frame),
      pm_wire_len = wire_len\<rparr>"

definition decode_frame :: "(bytes \<Rightarrow> bytes) \<Rightarrow> bytes \<Rightarrow> nat dres" where
  "decode_frame md5 input =
     (let (link, frame) = (case input of
          sel # rest \<Rightarrow> (LINK_TYPES ! (unat sel mod length LINK_TYPES), rest)
        | [] \<Rightarrow> (LtEthernet, input));
        n = word_of_nat (length frame) :: u32 in
      and_then (decode md5 (fuzz_meta 0 (n + n mod 64) frame) (Slice 0 frame) link) (\<lambda>pkt.
      Ok (length (pk_warnings pkt))))"

definition dns_target :: "bytes \<Rightarrow> ((nat list \<times> nat list) option \<times> bool) dres" where
  "dns_target input =
     and_then (dns_parse (Slice 0 input)) (\<lambda>msg.
     match_res (parse_strict (Slice 0 input))
       (\<lambda>_. Ok (map_option (\<lambda>m. (map (\<lambda>q. length (dq_name q)) (dm_questions m),
          map (\<lambda>r. length (dr_name r)) (dm_answers m))) msg, True))
       (\<lambda>_. Ok (map_option (\<lambda>m. (map (\<lambda>q. length (dq_name q)) (dm_questions m),
          map (\<lambda>r. length (dr_name r)) (dm_answers m))) msg, False)))"

definition tls_target :: "(bytes \<Rightarrow> bytes) \<Rightarrow> bytes \<Rightarrow> (nat \<times> nat \<times> string \<times> bool \<times> nat list) option dres" where
  "tls_target md5 input =
     and_then (tls_parse md5 (Slice 0 input)) (\<lambda>hello.
     Ok (map_option (\<lambda>h. (length (th_ja3 h), length (th_ja3_md5 h), version_name (th_negotiated_version h),
       is_obsolete_version h, map length (th_alpn h))) hello))"

definition http_target :: "bytes \<Rightarrow> (http_kind \<times> nat option \<times> nat option \<times> bool) option dres" where
  "http_target input =
     and_then (http_parse input) (\<lambda>msg.
     Ok (map_option (\<lambda>m. (hm_kind m, map_option length (hm_host m), map_option length (hm_user_agent m),
       hm_has_authorization m)) msg))"

section \<open>The scripted reassembler targets\<close>

definition fuzz_tcp_frame :: "u16 \<Rightarrow> u32 \<Rightarrow> u8 \<Rightarrow> bytes \<Rightarrow> bytes" where
  "fuzz_tcp_frame sport seq flags payload =
     (let t = wire16 sport @ wire16 80 @ wire32 seq @ [0, 0, 0, 0] @ [0x50, flags] @
            [0xFF, 0xFF, 0, 0, 0, 0] @ payload;
          ip = [0x45, 0x00] @ wire16 (word_of_nat (20 + length t)) @ [0, 1, 0x40, 0, 64, 6, 0, 0] @
            [10, 0, 0, 1] @ [10, 0, 0, 2] @ t in
      replicate 12 0 @ [0x08, 0x00] @ ip)"

definition MAX_SEGMENTS :: nat where "MAX_SEGMENTS = 512"

function tcp_script ::
  "(bytes \<Rightarrow> bytes) \<Rightarrow> bytes \<Rightarrow> nat \<Rightarrow> reassembler \<Rightarrow> reassembler dres" where
  "tcp_script md5 cur n r =
     (if length cur < 8 \<or> MAX_SEGMENTS \<le> n then Ok r
      else
        let seq = be32 (cur ! 0) (cur ! 1) (cur ! 2) (cur ! 3);
            flags = cur ! 4;
            port = 40000 + ucast (cur ! 5) :: u16;
            len = unat (be16 (cur ! 6) (cur ! 7));
            cur = drop 8 cur;
            taken = min len (length cur);
            payload = take taken cur; rest = drop taken cur;
            frame = fuzz_tcp_frame port seq flags payload in
        and_then (decode md5 (fuzz_meta n (word_of_nat (length frame)) frame) (Slice 0 frame) LtEthernet) (\<lambda>pkt.
        and_then (ra_push md5 pkt frame r) (\<lambda>(app, r).
        tcp_script md5 rest (n + 1) r)))"
  by pat_completeness auto
termination by (relation "measure (\<lambda>(_, cur, _, _). length cur)") auto

declare tcp_script.simps [simp del]

definition tcp_stream :: "(bytes \<Rightarrow> bytes) \<Rightarrow> bytes \<Rightarrow> reassembler dres" where
  "tcp_stream md5 input = tcp_script md5 input 0 ra_new"

definition ip_frag_frame :: "bool \<Rightarrow> u32 \<Rightarrow> u8 \<Rightarrow> u16 \<Rightarrow> bool \<Rightarrow> bytes \<Rightarrow> bytes" where
  "ip_frag_frame v6 ident proto offset_units mf payload =
     (if v6 then
        replicate 12 0 @ [0x86, 0xDD] @
        [0x60, 0x00, 0x00, 0x00] @ wire16 (word_of_nat (8 + length payload)) @ [44, 64] @
        [0xFD, 0, 0, 0, 0, 0, 0, 0, 0, 0, 0, 0, 0, 0, 0, 1] @
        [0xFD, 0, 0, 0, 0, 0, 0, 0, 0, 0, 0, 0, 0, 0, 0, 2] @ [proto, 0] @
        wire16 (push_bit 3 offset_units OR (if mf then 1 else 0)) @ wire32 ident @ payload
      else
        replicate 12 0 @ [0x08, 0x00] @
        [0x45, 0x00] @ wire16 (word_of_nat (20 + length payload)) @ wire16 (ucast ident) @
        wire16 (offset_units OR (if mf then 0x2000 else 0)) @ [0x40, proto, 0, 0] @
        [10, 0, 0, 1] @ [10, 0, 0, 2] @ payload)"

definition fuzz_proto :: "u8 \<Rightarrow> u8" where
  "fuzz_proto b = (if b mod 4 = 0 then 17 else if b mod 4 = 1 then 6 else if b mod 4 = 2 then 1 else 58)"

definition MAX_FRAGMENTS :: nat where "MAX_FRAGMENTS = 512"

function frag_script ::
  "(bytes \<Rightarrow> bytes) \<Rightarrow> bytes \<Rightarrow> nat \<Rightarrow> ip_reassembler \<Rightarrow> ip_reassembler dres" where
  "frag_script md5 cur n r =
     (if length cur < 6 \<or> MAX_FRAGMENTS \<le> n then Ok r
      else
        let ident = ucast (cur ! 0) :: u32;
            offset_units = be16 (cur ! 1) (cur ! 2) AND 0x1FFF;
            mf = (cur ! 3 AND 0x01 \<noteq> 0);
            v6 = (cur ! 3 AND 0x02 \<noteq> 0);
            proto = fuzz_proto (cur ! 4);
            len = unat (cur ! 5);
            cur = drop 6 cur;
            taken = min len (length cur);
            payload = take taken cur; rest = drop taken cur;
            frame = ip_frag_frame v6 ident proto offset_units mf payload in
        and_then (decode md5 (fuzz_meta n (word_of_nat (length frame)) frame) (Slice 0 frame) LtEthernet) (\<lambda>pkt.
        and_then (ir_push md5 pkt frame r) (\<lambda>(whole, r).
        frag_script md5 rest (n + 1) r)))"
  by pat_completeness auto
termination by (relation "measure (\<lambda>(_, cur, _, _). length cur)") auto

declare frag_script.simps [simp del]

definition ip_reassembly :: "(bytes \<Rightarrow> bytes) \<Rightarrow> bytes \<Rightarrow> ip_reassembler dres" where
  "ip_reassembly md5 input = frag_script md5 input 0 ir_new"

section \<open>Capture files, indicator lists and feeds\<close>

definition MAX_PACKETS :: nat where "MAX_PACKETS = 4096"

function fuzz_capture_loop :: "(bytes \<Rightarrow> bytes) \<Rightarrow> link_type \<Rightarrow> file_source \<Rightarrow> nat \<Rightarrow> nat dres" where
  "fuzz_capture_loop md5 link fs seen =
     (case next_packet fs of
        (Ok None, _) \<Rightarrow> Ok seen
      | (Ok (Some raw), fs') \<Rightarrow>
          and_then (decode md5 (rp_meta raw) (Slice 0 (rp_data raw)) link) (\<lambda>pkt.
          if seen + 1 \<ge> MAX_PACKETS then Ok (seen + 1) else fuzz_capture_loop md5 link fs' (seen + 1))
      | (Err e, _) \<Rightarrow> Ok seen
      | (Panic, _) \<Rightarrow> Panic)"
  by pat_completeness auto
termination
  by (relation "measure (\<lambda>(_, _, fs, _). length (fs_rest fs))") (auto dest: next_packet_out [OF sym])

declare fuzz_capture_loop.simps [simp del]

definition capture_target :: "(bytes \<Rightarrow> bytes) \<Rightarrow> bytes \<Rightarrow> nat dres" where
  "capture_target md5 input =
     match_res (from_bytes input) (\<lambda>src. fuzz_capture_loop md5 (fs_link_type src) src 0) (\<lambda>_. Ok 0)"

definition ioc_list_target :: "bytes \<Rightarrow> (nat \<times> nat) dres" where
  "ioc_list_target input = and_then (parse_iocs input) (\<lambda>(s, warnings). Ok (ioc_len s, length warnings))"

fun parse_feeds :: "feed list \<Rightarrow> bytes \<Rightarrow> (nat \<times> nat) list dres" where
  "parse_feeds [] input = Ok []"
| "parse_feeds (fd # fds) input =
     and_then (parse_into ioc_default fd input) (\<lambda>(added, s).
     and_then (parse_feeds fds input) (\<lambda>rest. Ok ((added, ioc_len s) # rest)))"

definition parse_feed_target :: "bytes \<Rightarrow> (nat \<times> nat) list dres" where
  "parse_feed_target input = parse_feeds BUILTIN input"


section \<open>The mutator never leaves its bounds\<close>

lemma below_less: "0 < n \<Longrightarrow> fst (below n m) < n"
  by (simp add: below_def case_prod_beta)

lemma below_cases:
  obtains i m' where "below n m = (i, m')" "0 < n \<Longrightarrow> i < n"
  using below_less [of n m] by (cases "below n m") auto

lemma length_push_bytes [simp]: "length (snd (push_bytes n m buf)) = length buf + n"
  by (induction n m buf rule: push_bytes.induct) (auto simp: case_prod_beta Let_def)

lemma xor_zeroD: "x XOR y = 0 \<Longrightarrow> x = y" for x y :: u64
proof -
  assume "x XOR y = 0"
  moreover have "x = (x XOR y) XOR y" by (simp add: xor.assoc)
  ultimately show "x = y" by simp
qed

lemma unat_lt64: "unat x < 2 ^ 64" for x :: u64
  using unsigned_less [of x] by simp

lemma xorshift_right: "0 < k \<Longrightarrow> x XOR drop_bit k x = 0 \<Longrightarrow> x = 0" for x :: u64
proof (rule ccontr)
  assume k: "0 < k" and "x XOR drop_bit k x = 0" and x: "x \<noteq> 0"
  then have "unat x = unat (drop_bit k x)" by (metis xor_zeroD)
  also have "\<dots> = unat x div 2 ^ k" by (subst unsigned_drop_bit_eq) (simp add: drop_bit_eq_div take_bit_nat_eq_self [OF unat_lt64])
  also have "\<dots> < unat x" using k x by (intro div_less_dividend one_less_power) (auto simp: unat_gt_0)
  finally show False by simp
qed

lemma xorshift_left: "0 < k \<Longrightarrow> x XOR push_bit k x = 0 \<Longrightarrow> x = 0" for x :: u64
proof -
  assume k: "0 < k" and "x XOR push_bit k x = 0"
  then have x: "x = push_bit k x" by (metis xor_zeroD)
  have "\<not> bit x i" for i
  proof (induction i rule: less_induct)
    case (less i)
    have "bit x i \<longleftrightarrow> k \<le> i \<and> i < 64 \<and> bit x (i - k)"
      by (subst x) (auto simp: bit_push_bit_iff)
    then show ?case using less [of "i - k"] k by auto
  qed
  then show "x = 0" by (auto intro: bit_eqI)
qed

text \<open>Zero is a fixed point of the generator; no other state ever becomes zero.\<close>

lemma next_u64_nonzero: "m \<noteq> 0 \<Longrightarrow> snd (next_u64 m) \<noteq> 0" "next_u64 0 = (0, 0)"
proof -
  assume m: "m \<noteq> 0"
  let ?a = "m XOR drop_bit 12 m"
  let ?b = "?a XOR push_bit 25 ?a"
  have "?a \<noteq> 0" using xorshift_right [of 12 m] m by auto
  then have "?b \<noteq> 0" using xorshift_left [of 25 ?a] by auto
  then have "?b XOR drop_bit 27 ?b \<noteq> 0" using xorshift_right [of 27 ?b] by auto
  then show "snd (next_u64 m) \<noteq> 0" by (simp add: next_u64_def Let_def)
qed (simp add: next_u64_def)

lemma mutate_round_bounded:
  "returns (\<lambda>(m', buf'). length buf' \<le> length buf + 63) (mutate_round m buf)"
proof -
  obtain k m0 where k: "below 6 m = (k, m0)" by force
  obtain i m1 where i: "below (length buf) m0 = (i, m1)" "buf \<noteq> [] \<Longrightarrow> i < length buf"
    by (rule below_cases [of "length buf" m0]) auto
  obtain j m2 where j: "below (length buf - 1) m0 = (j, m2)" "2 \<le> length buf \<Longrightarrow> j < length buf - 1"
    by (rule below_cases [of "length buf - 1" m0]) auto
  obtain n m3 where n: "below 64 m0 = (n, m3)" "n < 64"
    by (rule below_cases [of 64 m0]) auto
  have push: "case push_bytes n m3 buf of (m', buf') \<Rightarrow> length buf' \<le> length buf + 63"
    using n(2) length_push_bytes [of n m3 buf] by (cases "push_bytes n m3 buf") auto
  consider "k = 0" "buf \<noteq> []" | "k = 1" "buf \<noteq> []" | "k = 2" "buf \<noteq> []" | "k = 3" | "k = 4" "2 \<le> length buf"
    | "\<not> (k = 0 \<and> buf \<noteq> [])" "\<not> (k = 1 \<and> buf \<noteq> [])" "\<not> (k = 2 \<and> buf \<noteq> [])" "k \<noteq> 3" "\<not> (k = 4 \<and> 2 \<le> length buf)"
    by blast
  then show ?thesis
  proof cases
    case 6
    then show ?thesis
      unfolding mutate_round_def k Let_def case_prod_conv if_not_P [OF 6(1)] if_not_P [OF 6(2)]
        if_not_P [OF 6(3)] if_not_P [OF 6(4)] if_not_P [OF 6(5)]
      by (simp add: case_prod_beta insert_at_def)
  qed (use i j n push in \<open>auto simp: mutate_round_def k Let_def case_prod_beta index_def copy_at_def\<close>)
qed

lemma mutate_rounds_bounded:
  "returns (\<lambda>(m', buf'). length buf' \<le> length buf + 63 * n) (mutate_rounds n m buf)"
proof (induction n arbitrary: m buf)
  case (Suc n)
  show ?case
    unfolding mutate_rounds.simps
  proof (rule returns_and_then [OF mutate_round_bounded], unfold split_paired_all case_prod_conv)
    fix m1 :: u64 and buf1 :: bytes assume "length buf1 \<le> length buf + 63"
    then show "returns (\<lambda>(m', buf'). length buf' \<le> length buf + 63 * Suc n) (mutate_rounds n m1 buf1)"
      by (intro returns_mono [OF Suc.IH]) auto
  qed
qed simp

lemma mutate_bounded: "returns (\<lambda>(m', buf). length buf \<le> length seed + 504) (mutate m seed)"
proof -
  obtain k m' where k: "below 8 m = (k, m')" "k < 8" by (rule below_cases [of 8 m]) auto
  show ?thesis
    unfolding mutate_def k(1) Let_def case_prod_conv
    by (rule returns_mono [OF mutate_rounds_bounded]) (use k(2) in auto)
qed

section \<open>Every target returns\<close>

lemma returns_decode: "returns (packet_ok bs) (decode md5 meta bs lt)"
  by (rule returnsI [OF safe_decode no_err_decode])

lemma returns_obtain:
  assumes "returns P m" obtains x where "m = Ok x" "P x"
  using assms by (cases m) auto

lemma returns_dns_parse: "returns (\<lambda>_. True) (dns_parse buf)"
  using safe_parse_strict [of buf] by (cases "parse_strict buf") (auto simp: dns_parse_def)

lemma dns_target_returns: "returns (\<lambda>_. True) (dns_target input)"
  unfolding dns_target_def
  by (rule returns_and_then [OF returns_dns_parse])
    (use safe_parse_strict [of "Slice 0 input"] in \<open>cases "parse_strict (Slice 0 input)"; auto\<close>)

lemma tcp_script_ok: "reassembler_ok r \<Longrightarrow> returns reassembler_ok (tcp_script md5 cur n r)"
proof (induction md5 cur n r rule: tcp_script.induct)
  case (1 md5 cur n r)
  show ?case
  proof (cases "length cur < 8 \<or> MAX_SEGMENTS \<le> n")
    case True
    then show ?thesis using "1.prems" by (simp add: tcp_script.simps)
  next
    case False
    let ?k = "min (unat (be16 (cur ! 6) (cur ! 7))) (length (drop 8 cur))"
    let ?frame = "fuzz_tcp_frame (40000 + ucast (cur ! 5)) (be32 (cur ! 0) (cur ! 1) (cur ! 2) (cur ! 3)) (cur ! 4)
      (take ?k (drop 8 cur))"
    obtain pkt where d: "decode md5 (fuzz_meta n (word_of_nat (length ?frame)) ?frame) (Slice 0 ?frame) LtEthernet = Ok pkt"
      by (rule returns_obtain [OF returns_decode])
    obtain out r' where p: "ra_push md5 pkt ?frame r = Ok (out, r')" "reassembler_ok r'"
      using returns_obtain [OF returnsI [OF safe_ra_push [OF "1.prems"] no_err_ra_push]] by (metis case_prodE)
    have "returns reassembler_ok (tcp_script md5 (drop ?k (drop 8 cur)) (n + 1) r')"
      by (rule "1.IH" [OF False refl refl refl refl refl refl refl refl refl d p(1) refl p(2)])
    then show ?thesis
      unfolding tcp_script.simps [of md5 cur] Let_def if_not_P [OF False] d and_then.simps p(1) case_prod_conv .
  qed
qed

lemma frag_script_ok: "ip_reassembler_ok r \<Longrightarrow> returns ip_reassembler_ok (frag_script md5 cur n r)"
proof (induction md5 cur n r rule: frag_script.induct)
  case (1 md5 cur n r)
  show ?case
  proof (cases "length cur < 6 \<or> MAX_FRAGMENTS \<le> n")
    case True
    then show ?thesis using "1.prems" by (simp add: frag_script.simps)
  next
    case False
    let ?k = "min (unat (cur ! 5)) (length (drop 6 cur))"
    let ?frame = "ip_frag_frame (cur ! 3 AND 0x02 \<noteq> 0) (ucast (cur ! 0)) (fuzz_proto (cur ! 4))
      (be16 (cur ! 1) (cur ! 2) AND 0x1FFF) (cur ! 3 AND 0x01 \<noteq> 0) (take ?k (drop 6 cur))"
    obtain pkt where d: "decode md5 (fuzz_meta n (word_of_nat (length ?frame)) ?frame) (Slice 0 ?frame) LtEthernet = Ok pkt"
      by (rule returns_obtain [OF returns_decode])
    obtain out r' where p: "ir_push md5 pkt ?frame r = Ok (out, r')" "ip_reassembler_ok r'"
      using returns_obtain [OF returnsI [OF safe_ir_push [OF "1.prems"] no_err_ir_push]] by (metis case_prodE)
    have "returns ip_reassembler_ok (frag_script md5 (drop ?k (drop 6 cur)) (n + 1) r')"
      by (rule "1.IH" [OF False refl refl refl refl refl refl refl refl refl refl refl d p(1) refl p(2)])
    then show ?thesis
      unfolding frag_script.simps [of md5 cur] Let_def if_not_P [OF False] d and_then.simps p(1) case_prod_conv .
  qed
qed


text \<open>The capture target counts what a full read of the file yields before its first error, up to its limit.\<close>

definition good_prefix :: "(raw_packet, capture_error) res list \<Rightarrow> nat" where
  "good_prefix rs = length (takeWhile (\<lambda>r. case r of Ok _ \<Rightarrow> True | _ \<Rightarrow> False) rs)"

lemma fuzz_capture_loop_counts:
  "source_ok fs \<Longrightarrow> seen < MAX_PACKETS \<Longrightarrow>
     returns (\<lambda>n. n = min MAX_PACKETS (seen + good_prefix (read_all fs))) (fuzz_capture_loop md5 link fs seen)"
proof (induction md5 link fs seen rule: fuzz_capture_loop.induct)
  case (1 md5 link fs seen)
  obtain r fs' where n: "next_packet fs = (r, fs')" by force
  have ok: "r \<noteq> Panic" "source_ok fs'"
    using next_packet_ok [OF "1.prems"(1)] by (auto simp: n outcome_ok_def dest: safe_not_Panic)
  have rest: "read_all fs = (case r of Ok None \<Rightarrow> [] | Ok (Some p) \<Rightarrow> Ok p # read_all fs'
      | Err e \<Rightarrow> Err e # read_all fs' | Panic \<Rightarrow> [Panic])"
    by (subst read_all.simps) (simp add: n split: res.splits option.splits)
  show ?case
  proof (cases r)
    case (Ok x)
    show ?thesis
    proof (cases x)
      case None
      then show ?thesis using Ok "1.prems" by (simp add: fuzz_capture_loop.simps [of _ _ fs] n rest good_prefix_def)
    next
      case (Some raw)
      obtain pkt where d: "decode md5 (rp_meta raw) (Slice 0 (rp_data raw)) link = Ok pkt"
        by (rule returns_obtain [OF returns_decode])
      show ?thesis
      proof (cases "seen + 1 \<ge> MAX_PACKETS")
        case True
        then show ?thesis
          using "1.prems" by (simp add: fuzz_capture_loop.simps [of _ _ fs] n Ok Some d rest good_prefix_def)
      next
        case False
        then have "returns (\<lambda>n. n = min MAX_PACKETS (seen + 1 + good_prefix (read_all fs'))) (fuzz_capture_loop md5 link fs' (seen + 1))"
          using ok(2) by (intro "1.IH" [OF n [symmetric, unfolded Ok Some] refl refl d]) auto
        then show ?thesis
          using False by (simp add: fuzz_capture_loop.simps [of _ _ fs] n Ok Some d rest good_prefix_def)
      qed
    qed
  next
    case (Err e)
    then show ?thesis using "1.prems" by (simp add: fuzz_capture_loop.simps [of _ _ fs] n rest good_prefix_def)
  qed (use ok in simp)
qed

lemma capture_target_counts: "returns (\<lambda>n. n \<le> MAX_PACKETS) (capture_target md5 input)"
proof (cases "from_bytes input")
  case (Ok fs)
  then have "source_ok fs" using from_bytes_ok [of input] by simp
  from fuzz_capture_loop_counts [OF this, of 0 md5 "fs_link_type fs"] show ?thesis
    by (auto simp: capture_target_def Ok MAX_PACKETS_def elim: returns_mono)
qed (use from_bytes_ok [of input] in \<open>simp_all add: capture_target_def\<close>)

definition feed_counted :: "nat \<times> nat \<Rightarrow> bool" where
  "feed_counted x \<longleftrightarrow> fst x = snd x \<and> snd x \<le> MAX_INDICATORS"

lemma parse_feeds_counted: "returns (\<lambda>xs. length xs = length fds \<and> list_all feed_counted xs) (parse_feeds fds input)"
proof (induction fds)
  case (Cons fd fds)
  obtain n s where p: "parse_into ioc_default fd input = (Ok (n, s) :: _ dres)"
    "ioc_len s = n" "n \<le> MAX_INDICATORS"
    using parse_into_bounded [OF ioc_ok_default, of fd input, where ?'a = decode_error]
    by (cases "parse_into ioc_default fd input :: _ dres") auto
  show ?case
    using Cons by (cases "parse_feeds fds input") (auto simp: p feed_counted_def)
qed simp


end
