(* ===== verification/ParserTests.thy ===== *)
theory ParserTests
  imports Human Link Net Transport Dns Http Tls Beacon Ioc "HOL-Library.Code_Target_Numeral"
begin

unbundle bit_operations_syntax

text \<open>
  The unit tests of \<open>bytes.rs\<close>, \<open>time.rs\<close>, \<open>link.rs\<close>, \<open>net.rs\<close>, \<open>transport.rs\<close>, \<open>dns.rs\<close> and \<open>http.rs\<close>: each is
  its body as a proposition, one assertion after the other, and a lemma by evaluation of the model.  What
  a test unwraps is required to be there; an \<open>f64\<close> literal is the rational it writes.  Left out is an
  assertion on NaN.
\<close>

section \<open>What the tests ask of a result\<close>

definition errs :: "('a, 'e) res \<Rightarrow> bool" where
  "errs m \<longleftrightarrow> (case m of Err _ \<Rightarrow> True | _ \<Rightarrow> False)"

definition unwrapped :: "('a \<Rightarrow> bool) \<Rightarrow> 'a option \<Rightarrow> bool" where
  "unwrapped P x \<longleftrightarrow> (case x of Some y \<Rightarrow> P y | None \<Rightarrow> False)"

definition contains :: "string \<Rightarrow> string \<Rightarrow> bool" where
  "contains p s \<longleftrightarrow> split_once_str p s \<noteq> None"

definition mem :: "bytes \<Rightarrow> slice" where "mem bs = Slice 0 bs"

section \<open>The reader\<close>

definition bytes_t_reads_big_endian :: bool where
  "bytes_t_reads_big_endian \<longleftrightarrow>
     (case (rd_u8 (rd_new (mem [0x01, 0x02, 0x03, 0x04, 0x05]) ''t'')) of Ok (v, r) \<Rightarrow> v = 0x01
     \<and> (case (rd_be_u16 r) of Ok (v, r) \<Rightarrow> v = 0x0203 \<and> rd_remaining r = 2 \<and>
     (case (rd_rest r) of Ok (s, r) \<Rightarrow> sl_bytes s = [0x04, 0x05] \<and> rd_is_empty r | _
     \<Rightarrow> False) | _ \<Rightarrow> False) | _ \<Rightarrow> False)"

lemma bytes_reads_big_endian:
  "bytes_t_reads_big_endian"
  by code_simp

definition bytes_t_truncation_reports_shortfall :: bool where
  "bytes_t_truncation_reports_shortfall \<longleftrightarrow>
     rd_be_u32 (rd_new (mem [0x01]) ''eth'') = Err (Truncated ''eth'' 4 1)"

lemma bytes_truncation_reports_shortfall:
  "bytes_t_truncation_reports_shortfall"
  by code_simp

definition bytes_t_limit_hides_padding :: bool where
  "bytes_t_limit_hides_padding \<longleftrightarrow>
     (case (and_then (rd_skip 1 (rd_new (mem [1, 2, 3, 4, 5, 6]) ''ip'')) (\<lambda>r. and_then (rd_limit 2
     r) rd_rest)) of Ok (s, r) \<Rightarrow> sl_bytes s = [2, 3] | _ \<Rightarrow> False)"

lemma bytes_limit_hides_padding:
  "bytes_t_limit_hides_padding"
  by code_simp

section \<open>Time\<close>

definition time_t_epoch_renders :: bool where
  "time_t_epoch_renders \<longleftrightarrow>
     to_rfc3339 (ts_new 0 0) = ''1970-01-01T00:00:00.000Z''"

lemma time_epoch_renders:
  "time_t_epoch_renders"
  by code_simp

definition time_t_known_instant_renders :: bool where
  "time_t_known_instant_renders \<longleftrightarrow>
     to_rfc3339 (ts_new 1786365296 250000000) = ''2026-08-10T12:34:56.250Z''"

lemma time_known_instant_renders:
  "time_t_known_instant_renders"
  by code_simp

definition time_t_micros_roll_into_secs :: bool where
  "time_t_micros_roll_into_secs \<longleftrightarrow>
     (let t = ts_from_micros 10 1500000 in secs t = 11 \<and> nanos t = 500000000)"

lemma time_micros_roll_into_secs:
  "time_t_micros_roll_into_secs"
  by code_simp

definition time_t_byte_and_duration_formatting :: bool where
  "time_t_byte_and_duration_formatting \<longleftrightarrow>
     human_bytes 512 = ''512 B'' \<and> human_bytes 2048 = ''2.0 KiB'' \<and>
     human_duration (31 / 100) = ''310ms'' \<and> human_duration 90 = ''1m30s''"

lemma time_byte_and_duration_formatting:
  "time_t_byte_and_duration_formatting"
  by code_simp

definition time_t_percent_keeps_small_jitter_distinguishable :: bool where
  "time_t_percent_keeps_small_jitter_distinguishable \<longleftrightarrow>
     human_percent (448 / 10000000) \<noteq> human_percent (4068 / 1000000) \<and>
     human_percent (4068 / 1000000) = ''0.41%'' \<and> human_percent (448 / 1000000) = ''0.045%'' \<and>
     human_percent 0 = ''0%'' \<and> human_percent (9 / 10000000) = ''<0.001%''"

lemma time_percent_keeps_small_jitter_distinguishable:
  "time_t_percent_keeps_small_jitter_distinguishable"
  by code_simp

definition time_t_percent_scales_precision_with_magnitude :: bool where
  "time_t_percent_scales_precision_with_magnitude \<longleftrightarrow>
     human_percent (4237 / 10000) = ''42%'' \<and> human_percent (521 / 10000) = ''5.2%'' \<and>
     human_percent (37 / 10000) = ''0.37%''"

lemma time_percent_scales_precision_with_magnitude:
  "time_t_percent_scales_precision_with_magnitude"
  by code_simp

section \<open>Link layer\<close>

definition ETH_IPV4 :: bytes where
  "ETH_IPV4 =
     [0xff, 0xff, 0xff, 0xff, 0xff, 0xff, 0x00, 0x0c, 0x29, 0x1a, 0x2b, 0x3c, 0x08, 0x00, 0xde, 0xad]"

definition link_t_parses_plain_ethernet :: bool where
  "link_t_parses_plain_ethernet \<longleftrightarrow>
     (case (parse_ethernet (mem ETH_IPV4)) of Ok (eth, payload) \<Rightarrow> mac_is_broadcast (eth_dst
     eth) \<and> show_mac (eth_src eth) = ''00:0c:29:1a:2b:3c'' \<and> mac_oui (eth_src eth) = ''00:0C:29''
     \<and> eth_ethertype eth = ETHERTYPE_IPV4 \<and> eth_vlans eth = [] \<and> sl_bytes payload = [0xde,
     0xad] | _ \<Rightarrow> False)"

lemma link_parses_plain_ethernet:
  "link_t_parses_plain_ethernet"
  by code_simp

definition link_t_unwraps_stacked_vlans :: bool where
  "link_t_unwraps_stacked_vlans \<longleftrightarrow>
     (let frame = replicate 12 0x00 @ [0x88, 0xa8] @ [0x20, 0x64] @ [0x81, 0x00] @ [0x00, 0xc8] @ [0x08,
     0x00] @ [0x42] in (case (parse_ethernet (mem frame)) of Ok (eth, payload) \<Rightarrow> length
     (eth_vlans eth) = 2 \<and> vt_vid (eth_vlans eth ! 0) = 100 \<and> vt_priority (eth_vlans eth ! 0) = 1
     \<and> vlan_id eth = Some 200 \<and> eth_ethertype eth = ETHERTYPE_IPV4 \<and> sl_bytes payload =
     [0x42] | _ \<Rightarrow> False))"

lemma link_unwraps_stacked_vlans:
  "link_t_unwraps_stacked_vlans"
  by code_simp

definition link_t_truncated_frame_errors :: bool where
  "link_t_truncated_frame_errors \<longleftrightarrow>
     errs (parse_ethernet (mem (replicate 8 0x00)))"

lemma link_truncated_frame_errors:
  "link_t_truncated_frame_errors"
  by code_simp

definition link_t_parses_gratuitous_arp :: bool where
  "link_t_parses_gratuitous_arp \<longleftrightarrow>
     (let b = [0x00, 0x01] @ [0x08, 0x00] @ [0x06, 0x04] @ [0x00, 0x02] @ [0xaa, 0xbb, 0xcc, 0x00, 0x11,
     0x22] @ [192, 168, 1, 1] @ replicate 6 0x00 @ [192, 168, 1, 1] in (case (parse_arp (mem b)) of Ok arp
     \<Rightarrow> arp_op arp = ArpReply \<and> is_gratuitous arp \<and> arp_sender_ip arp = [192, 168, 1,
     1] | _ \<Rightarrow> False))"

lemma link_parses_gratuitous_arp:
  "link_t_parses_gratuitous_arp"
  by code_simp

definition link_t_rejects_non_ipv4_arp :: bool where
  "link_t_rejects_non_ipv4_arp \<longleftrightarrow>
     errs (parse_arp (mem [0x00, 0x01, 0x86, 0xdd, 0x06, 0x10, 0x00, 0x01]))"

lemma link_rejects_non_ipv4_arp:
  "link_t_rejects_non_ipv4_arp"
  by code_simp

section \<open>Network layer\<close>

definition net_ipv4_frame :: "u16 \<Rightarrow> bytes \<Rightarrow> bytes" where
  "net_ipv4_frame total_len payload =
     [0x45, 0x00, ucast (drop_bit 8 total_len), ucast total_len, 0xab, 0xcd, 0x40, 0x00, 0x40, 0x06, 0x00, 0x00] @
     [10, 0, 0, 1] @ [10, 0, 0, 2] @ payload"

definition net_t_parses_ipv4_and_trims_padding :: bool where
  "net_t_parses_ipv4_and_trims_padding \<longleftrightarrow>
     (case (parse_ipv4 (mem (net_ipv4_frame 24 [1, 2, 3, 4, 0, 0, 0, 0]))) of Ok (ip, payload)
     \<Rightarrow> ip4_src ip = [10, 0, 0, 1] \<and> ip4_ttl ip = 64 \<and> ip4_protocol ip = TCP \<and>
     ip4_dont_fragment ip \<and> \<not> ip4_fragmented ip \<and> sl_bytes payload = [1, 2, 3, 4] | _
     \<Rightarrow> False)"

lemma net_parses_ipv4_and_trims_padding:
  "net_t_parses_ipv4_and_trims_padding"
  by code_simp

definition net_t_flags_later_fragments :: bool where
  "net_t_flags_later_fragments \<longleftrightarrow>
     (let frame = (net_ipv4_frame 28 (replicate 8 9))[6 := 0x00, 7 := 0xB9] in (case (parse_ipv4 (mem
     frame)) of Ok (ip, _) \<Rightarrow> ip4_fragmented ip \<and> ip4_fragment_offset ip = 1480 \<and>
     \<not> ip4_has_transport_header ip | _ \<Rightarrow> False))"

lemma net_flags_later_fragments:
  "net_t_flags_later_fragments"
  by code_simp

definition net_t_rejects_bad_version_and_ihl :: bool where
  "net_t_rejects_bad_version_and_ihl \<longleftrightarrow>
     (let frame = (net_ipv4_frame 24 (replicate 4 0))[0 := 0x64] in
      errs (parse_ipv4 (mem frame)) \<and>
      (let frame = frame[0 := 0x44] in errs (parse_ipv4 (mem frame))))"

lemma net_rejects_bad_version_and_ihl:
  "net_t_rejects_bad_version_and_ihl"
  by code_simp

definition v6_pair :: bytes where
  "v6_pair =
     [0x20, 0x01, 0x0d, 0xb8, 0, 0, 0, 0, 0, 0, 0, 0, 0, 0, 0, 1] @
     [0x20, 0x01, 0x0d, 0xb8, 0, 0, 0, 0, 0, 0, 0, 0, 0, 0, 0, 2]"

definition net_t_walks_ipv6_extension_headers :: bool where
  "net_t_walks_ipv6_extension_headers \<longleftrightarrow>
     (let b = [0x60, 0x00, 0x00, 0x00] @ [0x00, 0x10] @ [HOPOPT] @ [64] @ v6_pair @ [UDP] @ [0] @ replicate
     6 0 @ replicate 8 0xaa in (case (parse_ipv6 (mem b)) of Ok (ip6, payload) \<Rightarrow>
     ip6_next_header ip6 = UDP \<and> ip6_extension_headers ip6 = 1 \<and> ip6_hop_limit ip6 = 64 \<and>
     sl_bytes payload = replicate 8 0xaa | _ \<Rightarrow> False))"

lemma net_walks_ipv6_extension_headers:
  "net_t_walks_ipv6_extension_headers"
  by code_simp

definition net_t_ipv6_fragment_header_exposes_id_and_more_flag :: bool where
  "net_t_ipv6_fragment_header_exposes_id_and_more_flag \<longleftrightarrow>
     (let b = [0x60, 0x00, 0x00, 0x00] @ [0x00, 0x10] @ [IPV6_FRAG] @ [64] @ v6_pair @ [UDP] @ [0] @ [0x00,
     0x01] @ [0xde, 0xad, 0xbe, 0xef] @ replicate 8 0xaa in (case (parse_ipv6 (mem b)) of Ok (ip6, _)
     \<Rightarrow> ip6_fragmented ip6 \<and> ip6_more_fragments ip6 \<and> ip6_fragment_offset ip6 = 0
     \<and> ip6_identification ip6 = 0xdeadbeef \<and> ip6_has_transport_header ip6 \<and> ip6_next_header
     ip6 = UDP | _ \<Rightarrow> False))"

lemma net_ipv6_fragment_header_exposes_id_and_more_flag:
  "net_t_ipv6_fragment_header_exposes_id_and_more_flag"
  by code_simp

definition net_t_parses_icmp_echo :: bool where
  "net_t_parses_icmp_echo \<longleftrightarrow>
     (case (parse_icmp (mem [8, 0, 0xff, 0xff, 0x12, 0x34, 0x00, 0x01, 1, 2, 3]) False) of Ok icmp
     \<Rightarrow> icmp_is_echo icmp \<and> ic_echo_id icmp = Some 0x1234 \<and> ic_payload_len icmp = 3
     \<and> icmp_description icmp = ''echo request'' | _ \<Rightarrow> False)"

lemma net_parses_icmp_echo:
  "net_t_parses_icmp_echo"
  by code_simp

definition net_t_classifies_private_space :: bool where
  "net_t_classifies_private_space \<longleftrightarrow>
     unwrapped is_private (parse_ip ''192.168.1.5'') \<and> unwrapped is_private (parse_ip ''fe80::1'')
     \<and> (case (parse_ip ''8.8.8.8'') of Some ip \<Rightarrow> \<not> is_private ip | None \<Rightarrow>
     False) \<and> (case (parse_ip ''2606:4700::1'') of Some ip \<Rightarrow> \<not> is_private ip | None
     \<Rightarrow> False)"

lemma net_classifies_private_space:
  "net_t_classifies_private_space"
  by code_simp

section \<open>Transport layer\<close>

definition transport_t_parses_tcp_syn_with_options :: bool where
  "transport_t_parses_tcp_syn_with_options \<longleftrightarrow>
     (let b = [0xc0, 0x00, 0x01, 0xbb, 0x00, 0x00, 0x00, 0x01, 0x00, 0x00, 0x00, 0x00, 0x80, 0x02, 0xfa,
     0xf0, 0x00, 0x00, 0x00, 0x00] @ [0x02, 0x04, 0x05, 0xb4] @ [0x01, 0x03, 0x03, 0x07] @ [0x04, 0x02,
     0x00, 0x00] @ [0xde, 0xad] in (case (parse_tcp (mem b)) of Ok (tcp, payload) \<Rightarrow>
     tcp_src_port tcp = 49152 \<and> tcp_dst_port tcp = 443 \<and> is_syn_only (tcp_flags tcp) \<and>
     show_flags (tcp_flags tcp) = ''S'' \<and> to_mss (tcp_opts tcp) = Some 1460 \<and> to_window_scale
     (tcp_opts tcp) = Some 7 \<and> to_sack_permitted (tcp_opts tcp) \<and> sl_bytes payload = [0xde, 0xad]
     | _ \<Rightarrow> False))"

lemma transport_parses_tcp_syn_with_options:
  "transport_t_parses_tcp_syn_with_options"
  by code_simp

definition transport_t_renders_flag_combinations :: bool where
  "transport_t_renders_flag_combinations \<longleftrightarrow>
     show_flags (SYN OR ACK) = ''SA'' \<and> show_flags (RST OR ACK) = ''RA'' \<and> show_flags (PSH OR ACK) = ''PA'' \<and>
     show_flags (FIN OR ACK) = ''FA'' \<and> show_flags 0 = ''-''"

lemma transport_renders_flag_combinations:
  "transport_t_renders_flag_combinations"
  by code_simp

definition transport_t_rejects_short_data_offset :: bool where
  "transport_t_rejects_short_data_offset \<longleftrightarrow>
     errs (parse_tcp (mem (replicate 20 0)))"

lemma transport_rejects_short_data_offset:
  "transport_t_rejects_short_data_offset"
  by code_simp

definition transport_t_udp_length_bounds_payload :: bool where
  "transport_t_udp_length_bounds_payload \<longleftrightarrow>
     (let b = [0x00, 0x35, 0xc0, 0x00, 0x00, 0x0c, 0x00, 0x00] @ [1, 2, 3, 4, 0xff, 0xff] in (case
     (parse_udp (mem b)) of Ok (udp, payload) \<Rightarrow> udp_src_port udp = 53 \<and> sl_bytes payload =
     [1, 2, 3, 4] | _ \<Rightarrow> False))"

lemma transport_udp_length_bounds_payload:
  "transport_t_udp_length_bounds_payload"
  by code_simp

definition transport_t_service_lookup :: bool where
  "transport_t_service_lookup \<longleftrightarrow>
     service_name 443 True = Some ''https'' \<and> service_name 443 False = Some ''quic'' \<and>
     service_name 64123 True = None \<and> is_cleartext_service 23 True = Some ''telnet'' \<and>
     is_cleartext_service 22 True = None"

lemma transport_service_lookup:
  "transport_t_service_lookup"
  by code_simp

section \<open>DNS\<close>

definition dns_sample_query :: bytes where
  "dns_sample_query =
     [0x12, 0x34, 0x01, 0x00, 0x00, 0x01, 0x00, 0x00, 0x00, 0x00, 0x00, 0x00] @
     [3] @ bytes_of ''www'' @ [7] @ bytes_of ''example'' @ [3] @ bytes_of ''com'' @ [0] @ [0x00, 0x01, 0x00, 0x01]"

definition dns_t_parses_query :: bool where
  "dns_t_parses_query \<longleftrightarrow>
     (case (dns_parse (mem dns_sample_query)) of Ok (Some m) \<Rightarrow> dm_transaction_id m = 0x1234
     \<and> \<not> dm_is_response m \<and> dm_recursion_desired m \<and> length (dm_questions m) = 1 \<and>
     primary_name m = Some ''www.example.com'' \<and> dq_qtype (dm_questions m ! 0) = 1 | _ \<Rightarrow>
     False)"

lemma dns_parses_query:
  "dns_t_parses_query"
  by code_simp

definition dns_t_parses_response_with_compression :: bool where
  "dns_t_parses_response_with_compression \<longleftrightarrow>
     (let b = dns_sample_query[2 := 0x81, 3 := 0x80, 7 := 0x01] @ [0xc0, 0x0c] @ [0x00, 0x01, 0x00, 0x01] @
     [0x00, 0x00, 0x01, 0x2c] @ [0x00, 0x04] @ [93, 184, 216, 34] in (case (dns_parse (mem b)) of Ok (Some
     m) \<Rightarrow> dm_is_response m \<and> rcode_name m = ''NOERROR'' \<and> length (dm_answers m) = 1
     \<and> dr_name (dm_answers m ! 0) = ''www.example.com'' \<and> dr_data (dm_answers m ! 0) =
     ''93.184.216.34'' \<and> dr_ttl (dm_answers m ! 0) = 300 | _ \<Rightarrow> False))"

lemma dns_parses_response_with_compression:
  "dns_t_parses_response_with_compression"
  by code_simp

definition dns_t_rejects_cyclic_pointer :: bool where
  "dns_t_rejects_cyclic_pointer \<longleftrightarrow>
     errs (read_name [0x00, 0x00, 0xc0, 0x02] 2)"

lemma dns_rejects_cyclic_pointer:
  "dns_t_rejects_cyclic_pointer"
  by code_simp

definition CRNL :: string where "CRNL = [CHR 0x0D, CHR 0x0A]"

definition dns_t_rejects_non_dns_payload :: bool where
  "dns_t_rejects_non_dns_payload \<longleftrightarrow>
     dns_parse (mem (bytes_of (''GET / HTTP/1.1'' @ CRNL @ ''Host: x'' @ CRNL @ CRNL))) = Ok None"

lemma dns_rejects_non_dns_payload:
  "dns_t_rejects_non_dns_payload"
  by code_simp

definition dns_t_groups_by_parent_domain :: bool where
  "dns_t_groups_by_parent_domain \<longleftrightarrow>
     parent_domain ''a.b.c.evil.com'' = ''evil.com'' \<and> parent_domain ''evil.com'' = ''evil.com'' \<and>
     parent_domain ''localhost'' = ''localhost''"

lemma dns_groups_by_parent_domain:
  "dns_t_groups_by_parent_domain"
  by code_simp

section \<open>HTTP\<close>

definition http_t_parses_request :: bool where
  "http_t_parses_request \<longleftrightarrow>
     (let raw = bytes_of (''GET /admin/index.php?id=1 HTTP/1.1'' @ CRNL @ ''Host: intranet.corp.local'' @
     CRNL @ ''User-Agent: curl/8.4.0'' @ CRNL @ ''Authorization: Basic dXNlcjpwYXNz'' @ CRNL @ ''Accept:
     */*'' @ CRNL @ CRNL @ ''body'') in (case (http_parse raw) of Ok (Some m) \<Rightarrow> hm_kind m =
     Request \<and> hm_method m = Some ''GET'' \<and> hm_host m = Some ''intranet.corp.local'' \<and>
     hm_user_agent m = Some ''curl/8.4.0'' \<and> hm_has_authorization m \<and> hm_header_count m = 4
     \<and> http_summary m = ''GET intranet.corp.local/admin/index.php?id=1'' | _ \<Rightarrow> False))"

lemma http_parses_request:
  "http_t_parses_request"
  by code_simp

definition http_t_parses_response :: bool where
  "http_t_parses_response \<longleftrightarrow>
     (let raw = bytes_of (''HTTP/1.1 404 Not Found'' @ CRNL @ ''Server: nginx'' @ CRNL @ ''Content-Length:
     153'' @ CRNL @ CRNL) in (case (http_parse raw) of Ok (Some m) \<Rightarrow> hm_kind m = Response
     \<and> hm_status m = Some 404 \<and> hm_reason m = Some ''Not Found'' \<and> hm_server m = Some
     ''nginx'' \<and> hm_content_length m = Some 153 | _ \<Rightarrow> False))"

lemma http_parses_response:
  "http_t_parses_response"
  by code_simp

definition http_t_handles_headers_cut_by_snaplen :: bool where
  "http_t_handles_headers_cut_by_snaplen \<longleftrightarrow>
     (let raw = bytes_of (''POST /upload HTTP/1.1'' @ CRNL @ ''Host: example.com'' @ CRNL @ ''User-Ag'') in
     (case (http_parse raw) of Ok (Some m) \<Rightarrow> hm_host m = Some ''example.com'' | _ \<Rightarrow>
     False))"

lemma http_handles_headers_cut_by_snaplen:
  "http_t_handles_headers_cut_by_snaplen"
  by code_simp

definition http_t_rejects_non_http :: bool where
  "http_t_rejects_non_http \<longleftrightarrow>
     http_parse [0x16, 0x03, 0x01, 0x00, 0x50] = Ok None \<and>
     http_parse (bytes_of (''SSH-2.0-OpenSSH_9.6'' @ CRNL)) = Ok None \<and>
     http_parse (bytes_of (''GETS /x HTTP/1.1'' @ CRNL @ CRNL)) = Ok None"

lemma http_rejects_non_http:
  "http_t_rejects_non_http"
  by code_simp

end
