(* ===== verification/CoreTests.thy ===== *)
theory CoreTests
  imports ParserTests
begin

text \<open>
  The unit tests of \<open>tls.rs\<close>, \<open>proto/mod.rs\<close>, \<open>beacon.rs\<close> and \<open>ioc.rs\<close>, in the form of ParserTests.  The
  digest, a parameter of the TLS parser, is here 16 zero bytes; the test asks for its length.  Left out
  are the equality of two computations of that digest, which holds of any model, and the entropy test.
\<close>

section \<open>TLS\<close>

definition test_client_hello :: bytes where
  "test_client_hello =
     (let host = bytes_of ''example.org'';
          len16 = (\<lambda>x. wire16 (word_of_nat (length x)));
          sni = [0x00] @ len16 host @ host;
          sni_ext = len16 sni @ sni;
          alpn = [2] @ bytes_of ''h2'' @ [8] @ bytes_of ''http/1.1'';
          alpn_ext = len16 alpn @ alpn;
          exts = wire16 EXT_SERVER_NAME @ len16 sni_ext @ sni_ext @
            wire16 EXT_ALPN @ len16 alpn_ext @ alpn_ext @
            wire16 EXT_SUPPORTED_GROUPS @ [0x00, 0x04, 0x00, 0x02, 0x00, 0x1d] @
            wire16 EXT_EC_POINT_FORMATS @ [0x00, 0x02, 0x01, 0x00] @
            wire16 EXT_SUPPORTED_VERSIONS @ [0x00, 0x03, 0x02, 0x03, 0x04];
          hs = [0x03, 0x03] @ replicate 32 0x00 @ [0x00] @ [0x00, 0x06] @
            [0x0a, 0x0a, 0x13, 0x01, 0x13, 0x02] @ [0x01, 0x00] @ len16 exts @ exts;
          handshake = [HANDSHAKE_CLIENT_HELLO] @ tl (wire32 (word_of_nat (length hs))) @ hs
      in [CONTENT_TYPE_HANDSHAKE, 0x03, 0x01] @ len16 handshake @ handshake)"

definition zero_md5 :: "bytes \<Rightarrow> bytes" where "zero_md5 bs = replicate 16 0"

definition tls_t_extracts_sni_alpn_and_version :: bool where
  "tls_t_extracts_sni_alpn_and_version \<longleftrightarrow>
     (case (tls_parse zero_md5 (mem test_client_hello)) of Ok (Some hello) \<Rightarrow> th_kind hello =
     Client \<and> th_sni hello = Some ''example.org'' \<and> th_alpn hello = [''h2'', ''http/1.1''] \<and>
     th_negotiated_version hello = 0x0304 \<and> version_name (th_negotiated_version hello) = ''TLS 1.3''
     \<and> \<not> is_obsolete_version hello | _ \<Rightarrow> False)"

lemma tls_extracts_sni_alpn_and_version:
  "tls_t_extracts_sni_alpn_and_version"
  by code_simp

definition tls_t_ja3_excludes_grease_and_is_stable :: bool where
  "tls_t_ja3_excludes_grease_and_is_stable \<longleftrightarrow>
     (case (tls_parse zero_md5 (mem test_client_hello)) of Ok (Some hello) \<Rightarrow> th_ja3 hello =
     ''771,4865-4866,0-16-10-11-43,29,0'' \<and> length (th_ja3_md5 hello) = 32 | _ \<Rightarrow> False)"

lemma tls_ja3_excludes_grease_and_is_stable:
  "tls_t_ja3_excludes_grease_and_is_stable"
  by code_simp

definition tls_t_ignores_non_handshake_records :: bool where
  "tls_t_ignores_non_handshake_records \<longleftrightarrow>
     tls_parse zero_md5 (mem [0x17, 0x03, 0x03, 0x00, 0x10]) = Ok None \<and>
     tls_parse zero_md5 (mem (bytes_of (''GET / HTTP/1.1'' @ CRNL))) = Ok None"

lemma tls_ignores_non_handshake_records:
  "tls_t_ignores_non_handshake_records"
  by code_simp

definition tls_t_grease_detection :: bool where
  "tls_t_grease_detection \<longleftrightarrow>
     is_grease 0x0a0a \<and> is_grease 0xdada \<and> \<not> is_grease 0x1301 \<and> \<not> is_grease 0x0a0b"

lemma tls_grease_detection:
  "tls_t_grease_detection"
  by code_simp

definition proto_t_hex_encodes :: bool where
  "proto_t_hex_encodes \<longleftrightarrow>
     hex [0x00, 0x0f, 0xff] = ''000fff''"

lemma proto_hex_encodes:
  "proto_t_hex_encodes"
  by code_simp

section \<open>Beacon scoring\<close>

definition test_series :: "rat \<Rightarrow> rat \<Rightarrow> nat \<Rightarrow> (nat \<Rightarrow> rat) \<Rightarrow> rat list" where
  "test_series start interval n jitter = map (\<lambda>i. start + interval * of_nat i + jitter i) [0..<n]"

definition beacon_t_metronome_scores_high :: bool where
  "beacon_t_metronome_scores_high \<longleftrightarrow>
     (case (score_intervals (test_series 1000 60 40 (\<lambda>_. 0))) of Some s \<Rightarrow>
     \<bar>bc_interval s - 60\<bar> < 1 / 1000000000 \<and> bc_jitter s = 0 \<and> bc_confidence s > 95 /
     100 \<and> bc_samples s = 39 | None \<Rightarrow> False)"

lemma beacon_metronome_scores_high:
  "beacon_t_metronome_scores_high"
  by code_simp

definition beacon_t_small_jitter_still_scores_as_a_beacon :: bool where
  "beacon_t_small_jitter_still_scores_as_a_beacon \<longleftrightarrow>
     (case (score_intervals (test_series 0 30 30 (\<lambda>i. if i mod 2 = 0 then 12 / 10 else - (11 /
     10)))) of Some s \<Rightarrow> bc_jitter s < 20 / 100 \<and> \<bar>bc_interval s - 30\<bar> < 3 \<and>
     bc_confidence s > 7 / 10 | None \<Rightarrow> False)"

lemma beacon_small_jitter_still_scores_as_a_beacon:
  "beacon_t_small_jitter_still_scores_as_a_beacon"
  by code_simp

definition beacon_t_bursty_traffic_scores_low :: bool where
  "beacon_t_bursty_traffic_scores_low \<longleftrightarrow>
     (case (score_intervals [0, 1 / 100, 2 / 100, 4 / 10, 12, 121 / 10, 60, 615 / 10, 300, 3002 / 10, 301,
     900]) of Some s \<Rightarrow> bc_jitter s > 5 / 10 \<and> bc_confidence s < 5 / 10 | None
     \<Rightarrow> False)"

lemma beacon_bursty_traffic_scores_low:
  "beacon_t_bursty_traffic_scores_low"
  by code_simp

definition beacon_t_a_few_dropped_check_ins_do_not_break_the_score :: bool where
  "beacon_t_a_few_dropped_check_ins_do_not_break_the_score \<longleftrightarrow>
     (case (score_intervals (filter (\<lambda>t. t \<noteq> 480 \<and> t \<noteq> 540) (map (\<lambda>i.
     of_nat i * 60) [0..<20]))) of Some s \<Rightarrow> \<bar>bc_interval s - 60\<bar> < 1 / 1000000000
     \<and> bc_jitter s < 5 / 100 | None \<Rightarrow> False)"

lemma beacon_a_few_dropped_check_ins_do_not_break_the_score:
  "beacon_t_a_few_dropped_check_ins_do_not_break_the_score"
  by code_simp

definition beacon_t_refuses_thin_or_degenerate_input :: bool where
  "beacon_t_refuses_thin_or_degenerate_input \<longleftrightarrow>
     score_intervals [] = None \<and> score_intervals [1, 2, 3] = None \<and> score_intervals (replicate 10 5) = None"

lemma beacon_refuses_thin_or_degenerate_input:
  "beacon_t_refuses_thin_or_degenerate_input"
  by code_simp

section \<open>Indicators\<close>

text \<open>The set after a list of inserts that are unwrapped, and the hit of an address.\<close>

fun insert_all :: "string list \<Rightarrow> ioc_set \<Rightarrow> (ioc_set, ioc_error) res" where
  "insert_all [] s = Ok s"
| "insert_all (t # ts) s = (case ioc_insert t s of Ok (_, s) \<Rightarrow> insert_all ts s | Err e \<Rightarrow> Err e | Panic \<Rightarrow> Panic)"

definition listed :: "string list \<Rightarrow> (ioc_set, ioc_error) res" where
  "listed ts = insert_all ts ioc_default"

definition ip_hit :: "ioc_set \<Rightarrow> string \<Rightarrow> (ioc_match option, ioc_error) res" where
  "ip_hit s t = (case parse_ip t of None \<Rightarrow> Panic | Some ip \<Rightarrow> match_ip s ip)"

definition hits :: "ioc_set \<Rightarrow> string \<Rightarrow> string \<Rightarrow> bool" where
  "hits s t indicator \<longleftrightarrow> (case ip_hit s t of Ok (Some m) \<Rightarrow> im_indicator m = indicator | _ \<Rightarrow> False)"

definition ioc_t_classifies_each_indicator_kind :: bool where
  "ioc_t_classifies_each_indicator_kind \<longleftrightarrow>
     (case (ioc_insert ''203.0.113.7'' ioc_default) of Ok (k, s) \<Rightarrow> k = IkIp \<and> (case
     (ioc_insert ''198.51.100.0/24'' s) of Ok (k, s) \<Rightarrow> k = IkCidr \<and> (case (ioc_insert
     ''evil.example'' s) of Ok (k, s) \<Rightarrow> k = IkDomain \<and> (case (ioc_insert
     ''e7d705a3286e19ea42f587b344ee6865'' s) of Ok (k, s) \<Rightarrow> k = IkJa3 \<and> ioc_len s = 4 | _
     \<Rightarrow> False) | _ \<Rightarrow> False) | _ \<Rightarrow> False) | _ \<Rightarrow> False)"

lemma ioc_classifies_each_indicator_kind:
  "ioc_t_classifies_each_indicator_kind"
  by code_simp

definition ioc_t_rejects_unrecognised_tokens :: bool where
  "ioc_t_rejects_unrecognised_tokens \<longleftrightarrow>
     ioc_insert ''localhost'' ioc_default = Err IocUnrecognised \<and>
     ioc_insert ''bad_host.com'' ioc_default = Err IocUnrecognised \<and> ioc_is_empty ioc_default"

lemma ioc_rejects_unrecognised_tokens:
  "ioc_t_rejects_unrecognised_tokens"
  by code_simp

definition ioc_t_matches_exact_ip_and_cidr :: bool where
  "ioc_t_matches_exact_ip_and_cidr \<longleftrightarrow>
     (case (listed [''203.0.113.7'', ''198.51.100.0/24'']) of Ok s \<Rightarrow> hits s ''203.0.113.7''
     ''203.0.113.7'' \<and> hits s ''198.51.100.42'' ''198.51.100.0/24'' \<and> ip_hit s ''198.51.101.42''
     = Ok None \<and> ip_hit s ''10.0.0.1'' = Ok None | _ \<Rightarrow> False)"

lemma ioc_matches_exact_ip_and_cidr:
  "ioc_t_matches_exact_ip_and_cidr"
  by code_simp

definition ioc_t_exact_ip_wins_over_covering_range :: bool where
  "ioc_t_exact_ip_wins_over_covering_range \<longleftrightarrow>
     (case (listed [''10.0.0.0/8'', ''10.1.2.3'']) of Ok s \<Rightarrow> hits s ''10.1.2.3'' ''10.1.2.3''
     \<and> hits s ''10.9.9.9'' ''10.0.0.0/8'' | _ \<Rightarrow> False)"

lemma ioc_exact_ip_wins_over_covering_range:
  "ioc_t_exact_ip_wins_over_covering_range"
  by code_simp

definition ioc_t_cidr_prefix_boundaries_are_exact :: bool where
  "ioc_t_cidr_prefix_boundaries_are_exact \<longleftrightarrow>
     (case (listed [''192.168.1.0/25'']) of Ok s \<Rightarrow> (case (ip_hit s ''192.168.1.127'') of Ok m
     \<Rightarrow> m \<noteq> None | _ \<Rightarrow> False) \<and> ip_hit s ''192.168.1.128'' = Ok None | _
     \<Rightarrow> False)"

lemma ioc_cidr_prefix_boundaries_are_exact:
  "ioc_t_cidr_prefix_boundaries_are_exact"
  by code_simp

definition ioc_t_ipv6_cidr_matches :: bool where
  "ioc_t_ipv6_cidr_matches \<longleftrightarrow>
     (case (listed [''2001:db8::/32'']) of Ok s \<Rightarrow> (case (ip_hit s ''2001:db8:dead:beef::1'') of
     Ok m \<Rightarrow> m \<noteq> None | _ \<Rightarrow> False) \<and> ip_hit s ''2001:db9::1'' = Ok None
     \<and> ip_hit s ''203.0.113.7'' = Ok None | _ \<Rightarrow> False)"

lemma ioc_ipv6_cidr_matches:
  "ioc_t_ipv6_cidr_matches"
  by code_simp

definition ioc_t_zero_prefix_matches_the_whole_family :: bool where
  "ioc_t_zero_prefix_matches_the_whole_family \<longleftrightarrow>
     (case (listed [''0.0.0.0/0'']) of Ok s \<Rightarrow> (case (ip_hit s ''8.8.8.8'') of Ok m
     \<Rightarrow> m \<noteq> None | _ \<Rightarrow> False) \<and> ip_hit s ''::1'' = Ok None | _
     \<Rightarrow> False)"

lemma ioc_zero_prefix_matches_the_whole_family:
  "ioc_t_zero_prefix_matches_the_whole_family"
  by code_simp

definition ioc_t_domain_matches_itself_and_subdomains_only :: bool where
  "ioc_t_domain_matches_itself_and_subdomains_only \<longleftrightarrow>
     (case (listed [''evil.example'']) of Ok s \<Rightarrow> (case (match_domain s ''evil.example'') of
     Some m \<Rightarrow> im_indicator m = ''evil.example'' | None \<Rightarrow> False) \<and> (case
     (match_domain s ''c2.evil.example'') of Some m \<Rightarrow> im_indicator m = ''evil.example'' | None
     \<Rightarrow> False) \<and> (case (match_domain s ''C2.Evil.Example.'') of Some m \<Rightarrow>
     im_indicator m = ''evil.example'' | None \<Rightarrow> False) \<and> match_domain s
     ''notevil.example'' = None \<and> match_domain s ''evil.example.org'' = None | _ \<Rightarrow> False)"

lemma ioc_domain_matches_itself_and_subdomains_only:
  "ioc_t_domain_matches_itself_and_subdomains_only"
  by code_simp

definition ioc_t_most_specific_listed_parent_is_reported :: bool where
  "ioc_t_most_specific_listed_parent_is_reported \<longleftrightarrow>
     (let s = (case ioc_insert ''example'' ioc_default of Ok (_, s) \<Rightarrow> s | _ \<Rightarrow>
     ioc_default) in (case (insert_all [''bad.example'', ''worse.bad.example''] s) of Ok s \<Rightarrow>
     (case (match_domain s ''x.worse.bad.example'') of Some m \<Rightarrow> im_indicator m =
     ''worse.bad.example'' | None \<Rightarrow> False) | _ \<Rightarrow> False))"

lemma ioc_most_specific_listed_parent_is_reported:
  "ioc_t_most_specific_listed_parent_is_reported"
  by code_simp

definition ioc_t_ja3_matches_case_insensitively :: bool where
  "ioc_t_ja3_matches_case_insensitively \<longleftrightarrow>
     (case (listed [''E7D705A3286E19EA42F587B344EE6865'']) of Ok s \<Rightarrow> match_ja3 s
     ''e7d705a3286e19ea42f587b344ee6865'' \<noteq> None \<and> match_ja3 s
     ''00000000000000000000000000000000'' = None | _ \<Rightarrow> False)"

lemma ioc_ja3_matches_case_insensitively:
  "ioc_t_ja3_matches_case_insensitively"
  by code_simp

definition ioc_t_empty_set_matches_nothing :: bool where
  "ioc_t_empty_set_matches_nothing \<longleftrightarrow>
     ip_hit ioc_default ''8.8.8.8'' = Ok None \<and> match_domain ioc_default ''evil.example'' = None \<and>
     match_ja3 ioc_default ''e7d705a3286e19ea42f587b344ee6865'' = None"

lemma ioc_empty_set_matches_nothing:
  "ioc_t_empty_set_matches_nothing"
  by code_simp

definition ioc_t_provenance_travels_with_the_indicator :: bool where
  "ioc_t_provenance_travels_with_the_indicator \<longleftrightarrow>
     (case (case insert_tagged ''203.0.113.7'' (Some ''Emotet'') (set_source ''feodo'' ioc_default) of Ok
     (_, s) \<Rightarrow> insert_all [''bad.example''] (set_source ''urlhaus'' s) | _ \<Rightarrow> Panic)
     of Ok s \<Rightarrow> (case (ip_hit s ''203.0.113.7'') of Ok (Some m) \<Rightarrow> im_source m =
     ''feodo'' \<and> im_tag m = Some ''Emotet'' | _ \<Rightarrow> False) \<and> (case (match_domain s
     ''x.bad.example'') of Some m \<Rightarrow> im_source m = ''urlhaus'' \<and> im_tag m = None | None
     \<Rightarrow> False) | _ \<Rightarrow> False)"

lemma ioc_provenance_travels_with_the_indicator:
  "ioc_t_provenance_travels_with_the_indicator"
  by code_simp

definition ioc_t_default_source_is_manual :: bool where
  "ioc_t_default_source_is_manual \<longleftrightarrow>
     (case (listed [''203.0.113.7'']) of Ok s \<Rightarrow> (case (ip_hit s ''203.0.113.7'') of Ok (Some m)
     \<Rightarrow> im_source m = ''manual'' | _ \<Rightarrow> False) | _ \<Rightarrow> False)"

lemma ioc_default_source_is_manual:
  "ioc_t_default_source_is_manual"
  by code_simp

definition ioc_t_extend_merges_indicators_and_provenance :: bool where
  "ioc_t_extend_merges_indicators_and_provenance \<longleftrightarrow>
     (case (ioc_insert ''203.0.113.7'' (set_source ''manual'' ioc_default)) of Ok (_, a) \<Rightarrow>
     (case (insert_tagged ''198.51.100.9'' (Some ''Emotet'') (set_source ''feodo'' ioc_default)) of Ok (_,
     b) \<Rightarrow> let a = add_source_info \<lparr>si_source = ''manual'', si_fetched_at = None,
     si_indicators = 1\<rparr> a; b = add_source_info \<lparr>si_source = ''feodo'', si_fetched_at = Some
     ''2026-08-15T00:00:00Z'', si_indicators = 1\<rparr> b; a = ioc_extend a b in ioc_len a = 2 \<and>
     (case (ip_hit a ''203.0.113.7'') of Ok (Some m) \<Rightarrow> im_source m = ''manual'' | _
     \<Rightarrow> False) \<and> (case (ip_hit a ''198.51.100.9'') of Ok (Some m) \<Rightarrow> im_source m
     = ''feodo'' \<and> im_tag m = Some ''Emotet'' | _ \<Rightarrow> False) \<and> length (is_manifest a) =
     2 | _ \<Rightarrow> False) | _ \<Rightarrow> False)"

lemma ioc_extend_merges_indicators_and_provenance:
  "ioc_t_extend_merges_indicators_and_provenance"
  by code_simp

end
