(* ===== verification/Spec2Isabelle.thy ===== *)
theory Spec2Isabelle
  imports Prelude RustStd IpAddr Bytes Calendar Timestamps Human Link Net Transport Dns Http Tls Entropy
    Packet Flow RangeBuf Reassembly IpReassembly Beacon Analyzer Views Findings Report
    CaptureFile PcapWriter Pipeline Ioc IocFeeds FeedCache FeedStore Render Web Cli
    Source Live Fuzz Sample Demo ParserTests CoreTests
begin

text \<open>
  The Custom Built Network Analyzer in Isabelle/HOL.

  The program reads a packet capture, decodes every frame from the link layer to the application,
  follows flows, reassembles TCP streams and IP fragments, keeps statistics, matches threat-intel
  indicators, runs heuristics over the whole and prints a report.  It is a Rust workspace; this library
  models its crates as a shallow embedding and proves what makes each part correct.

  \<^bold>\<open>How the parts interact.\<close>  \<open>cmd_analyze\<close> (\<open>cbna/src/main.rs\<close>, theory Cli) opens the file, and \<open>pipeline::run\<close>
  (Pipeline) pulls packets from the file source (CaptureFile), decodes each (Packet, over Link, Net,
  Transport, Dns, Http and Tls) and hands it to \<open>Analyzer::observe\<close> (Analyzer), which updates counters,
  hosts, the ARP, DNS, TLS and HTTP indexes, the flow table (Flow), the IP reassembler (IpReassembly)
  and the TCP reassembler (Reassembly); what these recover goes back into the same indexes.  Then the
  indicator set (Ioc, IocFeeds, FeedCache) is attached, \<open>report::build\<close> (Report) computes the views
  (Views, Beacon, Entropy) and the findings (Findings), the report is printed (Render) or exported as
  a page (Web), and the findings set the exit status (Cli).  A live capture (Live) feeds the same
  decoder and analyzer from libpcap, writes what it reads (PcapWriter), and publishes snapshots to the
  state the dashboard serves (Web).  The fuzz targets (Fuzz) drive the decoders alone; the sample generator
  (Sample) builds the frames the decoder takes apart and writes them with the same writer.

  \<^bold>\<open>Theories and sources.\<close>  Definitions keep the names of the source; where two types have a method of the
  same name a short prefix tells them apart (\<open>rd_\<close> the byte reader, \<open>fl_\<close> flags and flows, \<open>ft_\<close> the flow
  table, \<open>ra_\<close> and \<open>ir_\<close> the reassemblers, \<open>an_\<close> the analyzer, \<open>fs_\<close> the file source).
  \<^item> Prelude: the results of fallible code (\<open>res\<close>: \<open>Ok\<close>, \<open>Err\<close>, and \<open>Panic\<close> for a Rust panic), the predicates
    \<open>safe\<close> (no panic, and the property of what is returned), \<open>no_err\<close> and \<open>returns\<close> with their rules
    (collections \<open>safe_rules\<close>, \<open>safe_steps\<close>, \<open>no_err_rules\<close>), maps as association lists, sorted maps and
    sets, and the locale \<open>total_preorder\<close> with the stable sort it determines.
  \<^item> RustStd, IpAddr: the parts of the Rust library the source uses: slices as an offset with bytes, UTF-8
    checks, ASCII and string functions, number printing, IP addresses with parsing and printing.
  \<^item> Bytes: \<open>bytes.rs\<close>, \<open>error.rs\<close>.  Calendar, Timestamps, Human: \<open>time.rs\<close>.  Link, Net, Transport: the files of these
    names.  Dns, Http, Tls, Entropy: \<open>proto/\<close>.  Packet: \<open>packet.rs\<close>.  Flow: \<open>flow.rs\<close>.
  \<^item> RangeBuf: the sparse buffer that \<open>reassembly.rs\<close> and \<open>ip_reassembly.rs\<close> each contain a copy of, stated
    once with its cap as a parameter; Reassembly and IpReassembly: the rest of these files.
  \<^item> Ioc: \<open>ioc.rs\<close> of \<open>cbna-core\<close>.  IocFeeds: \<open>ioc.rs\<close> of \<open>cbna-capture\<close>, \<open>feed.rs\<close> and \<open>parse.rs\<close>.  FeedCache:
    \<open>cache.rs\<close>, \<open>fetch.rs\<close>, \<open>error.rs\<close> and \<open>lib.rs\<close> of \<open>cbna-intel\<close>, with the cache as a record.  FeedStore:
    \<open>cache.rs\<close> on the files of the directory, which may be missing, unreadable or fail to be written.
  \<^item> Beacon, Analyzer, Views, Findings, Report: \<open>analysis/\<close>.
  \<^item> CaptureFile, PcapWriter: \<open>file.rs\<close>, \<open>lib.rs\<close> and \<open>writer.rs\<close> of \<open>cbna-capture\<close>.  Pipeline, Render, Cli: \<open>pipeline.rs\<close>,
    \<open>render.rs\<close> and \<open>main.rs\<close> of the program.
  \<^item> Source: the trait \<open>Source\<close> of \<open>cbna-capture\<close> as the interface of the file reader and the live source.
  \<^item> Web: \<open>lib.rs\<close> and \<open>api.rs\<close> of \<open>cbna-web\<close>.  Live: \<open>live.rs\<close> of \<open>cbna-capture\<close> and \<open>livecmd.rs\<close> of the program.
    Fuzz: the three \<open>fuzz.rs\<close>.  Sample: \<open>examples/make-sample.rs\<close>.  Demo: that program and \<open>analyze\<close> together.
  \<^item> ParserTests, CoreTests: the unit tests of the readers, parsers and printers, of the beacon score and of
    the indicator set, evaluated on the model.

  \<^bold>\<open>State.\<close>  A struct is a record, an enum a datatype, a method on \<open>&mut self\<close> a function that returns the new
  state.  Header fields, sequence numbers and lengths of the wire are words of their width, with the wrap
  of the source's wrapping operations; counters that only grow (\<open>u64\<close>) are naturals.  A \<open>HashMap\<close> is an
  association list with distinct keys: its order stands for the unspecified iteration order, so a lemma
  about a table holds for each of them.  A \<open>BTreeMap\<close> is a key-sorted one.  An \<open>f64\<close> is an exact rational,
  the entropy (which needs the logarithm) a real number; the difference to rounded arithmetic is not
  modelled.  Indexing and slicing out of range, subtraction below zero, unwrapping nothing and division
  by zero are the value \<open>Panic\<close>, so that \<open>safe\<close> is a statement about the code.

  \<^bold>\<open>Interfaces.\<close>  The total orders of the program's sorts (flows, talkers, services, beacons, hits, findings,
  counted rows) are interpretations of \<open>total_preorder\<close>, from which sortedness, stability and the fact
  that a truncated table cuts only what its rows outweigh come; \<open>observed_view\<close> (Analyzer) is the
  contract of a part of the analyzer that one packet changes by a function of that packet alone,
  interpreted for the counters, the hosts, the ARP index and the configuration; \<open>packet_source\<close> (Source) is
  what consumers rely on of a source of packets, interpreted for the file reader and for libpcap.  The other locales and
  their interpretations are in the theories that provide them.

  \<^bold>\<open>What the lemmas show.\<close>
  \<^item> Safety: every parser, the packet decoder, both reassemblers, the file reader, the loop that drives them
    and the command on top return on any bytes without a panic.
  \<^item> Functional correctness of the parsers: DNS name decompression, HTTP framing, payload bounds, GREASE,
    frames of the sample generator built and decoded back through all layers, capture files written and
    read back, the demonstration capture among them.
  \<^item> The whole: what \<open>analyze\<close> reports on the demonstration capture, from the script that stages it through
    the writer, the reader, the decoder and the analyzer to the findings and the exit status (Demo).
  \<^item> The feed cache: its files simulate its specification while no write fails; what any failing write
    leaves; and that a manifest that cannot be read is never repaired (FeedStore).
  \<^item> Refinement: a reassembled stream is a true prefix of what was sent whatever the order and overlap of
    the segments, and a datagram of fragments is decoded once, from the bytes sent.
  \<^item> Invariants and conservation: the caps of every attacker-growable table, and that counters, hosts, flows
    and timeline account for each packet exactly once.
  \<^item> Analysis: which port scans and ARP conflicts are reported, that findings come in their order with
    evidence, that reported indicator hits are exactly the matching endpoints, that a periodic majority
    gives the beacon's period.
  \<^item> The program: termination of every run, what it analyses under a limit or read errors, what it prints
    (words kept, columns aligned), the exported page, the exit status.
  \<^item> Live: that a capture and an analysis of its file agree, when a capture returns and when it waits for
    ever, and how publishing and polling can interleave.

  \<^bold>\<open>Termination.\<close>  No fuel is used.  The loops of a live capture may wait for ever and are partial
  functions into an option (\<open>live_next\<close>, \<open>capture_loop\<close>, \<open>worker_loop\<close>), with lemmas that say when they return.  All other loops recurse on the bytes that remain (\<open>vlan_loop\<close>, \<open>ext_loop\<close>, \<open>next_pcapng\<close>,
  \<open>read_all\<close>, \<open>run_loop\<close>), on the source's own bounds (\<open>name_loop\<close> on the pointer budget), or structurally.

  \<^bold>\<open>Not modelled.\<close>
  \<^item> The libraries: MD5, the HTTP client, the HTTP server, the serialiser, libpcap, the clock, the environment
    and file contents are parameters; writing files succeeds, outside the feed cache.  Starting threads
    and the signal handler are left out: a session's stop flag and the interleaved steps of the dashboard
    stand for them.
  \<^item> Parsing of command lines (derived by clap), the form serde gives a manifest (an encoding with its
    inverse is a parameter), and the script of the page, of which only the rule that skips a redraw is
    stated.
  \<^item> The unit tests that decode whole frames or fill tables, and the integration tests: their evaluation by
    rewriting is slow; the decoder and the tables have theorems of their own.
\<close>

section \<open>From a written capture to its analysis\<close>

definition analysed :: "(bytes \<Rightarrow> bytes) \<Rightarrow> link_type \<Rightarrow> raw_packet list \<Rightarrow>
    analyzer \<times> run_stats \<times> decoded_packet list \<Rightarrow> bool" where
  "analysed md5 lt raws = (\<lambda>(a, st, seen).
     list_all2 (\<lambda>raw pkt. decode md5 (rp_meta raw) (Slice 0 (rp_data raw)) lt = Ok pkt) raws seen \<and>
     rn_packets st = length raws \<and> rn_read_errors st = [] \<and> conserved seen a \<and> analyzer_ok a)"

text \<open>
  C18. A capture that was written, read back and analysed is analysed completely: every packet written is
  decoded once, in order and under the link type of the file, there is no read error, and the analyzer
  accounts for exactly these packets.
\<close>

theorem written_capture_analysed:
  assumes "plain_link lt" and "list_all writable pkts"
  shows "returns (\<lambda>fs. returns (analysed md5 lt (renumber 0 pkts)) (run md5 fs cfg None))
    (from_bytes (pw_file lt pkts))"
proof -
  obtain fs where fs: "from_bytes (pw_file lt pkts) = Ok fs" "fs_link_type fs = lt"
    "read_all fs = map Ok (renumber 0 pkts)"
    using reopen_written [OF assms] by (cases "from_bytes (pw_file lt pkts)") auto
  then have "source_ok fs" using from_bytes_ok [of "pw_file lt pkts"] by simp
  from run_returns [OF this, of md5 None cfg] show ?thesis
    by (auto simp: fs run_ok_def analysed_def consumed_clean dest: list_all2_lengthD elim!: returns_mono)
qed

theorem written_capture_analysed_witness:
  "returns (\<lambda>fs. returns (analysed (\<lambda>bs. bs) LtRaw (renumber 0 [sample_raw [0x45, 0, 0, 20], sample_raw []]))
      (run (\<lambda>bs. bs) fs config_default None))
    (from_bytes (pw_file LtRaw [sample_raw [0x45, 0, 0, 20], sample_raw []]))"
  by (rule written_capture_analysed)
    (simp_all add: plain_link_def writable_def sample_raw_def raw_packet_new_def ts_new_id)

end
